(* ===== verification/Prelude.thy ===== *)
theory Prelude
  imports Main "HOL-Library.AList" "HOL-Library.Sublist"
begin

text \<open>
  What every component shares: the error values of the program, the type of a fallible
  operation that reads and changes the outside world, and the generic lemmas on strings
  and association lists that the component proofs use through the simplifier.

  Go's \<open>string\<close> and \<open>[]byte\<close> are both sequences of bytes, and an Isabelle \<open>char\<close> is a
  byte, so both are \<open>string\<close> here and the conversions between them are the identity. A nil
  slice and an empty slice are the empty list: the code only ever takes their length,
  compares them with \<open>bytes.Equal\<close> or ranges over them.
\<close>

named_theorems kube_ops \<open>definitions of the operations that call the API server\<close>

subsection \<open>Errors\<close>

text \<open>
  An error of the API server carries a reason (\<open>metav1.StatusReason\<close>), of which the code
  only tells NotFound from the others; \<open>Transport\<close> is a failure before the server answered
  (connection, decoding, cancelled context). \<open>Wrap\<close> is \<open>fmt.Errorf("...: %w", err)\<close>.
  The other constructors are the sentinel errors of the packages
  \<open>webmesh/pkg/storage/errors\<close>, \<open>dominikbraun/graph\<close>, \<open>strconv\<close> and \<open>encoding/gob\<close> that
  the code returns. \<open>NilDereference\<close> is the run-time panic of a method called through a nil
  pointer, and \<open>Panic\<close> a call of \<open>panic\<close> with an error.
\<close>

datatype status_reason = NotFound | OtherReason string

datatype goerr =
    ApiStatus status_reason
  | Transport string
  | Wrap string goerr
  | Errorf string
  | ErrInvalidKey
  | ErrKeyNotFound string
  | ErrNotLeader
  | ErrNoLeader
  | ErrNodeNotFound
  | ErrNotStorageNode
  | ErrNotVoter
  | ErrStarted
  | ErrClosed
  | ErrAlreadyBootstrapped
  | ErrACLNotFound
  | ErrRouteNotFound
  | ErrRoleNotFound
  | ErrRoleBindingNotFound
  | ErrGroupNotFound
  | ErrVertexNotFound
  | ErrEdgeNotFound
  | ErrSyntax string
  | ErrGob string
  | NilDereference
  | Panic goerr

text \<open>
  \<open>apierrors.IsNotFound\<close> looks for an API status in the chain of wrapped errors
  (\<open>errors.As\<close>); \<open>client.IgnoreNotFound\<close> is documented to return nil for such an error
  and every other error unmodified. A sentinel error is no API status.
\<close>

fun is_not_found :: "goerr \<Rightarrow> bool" where
  "is_not_found (ApiStatus r) = (r = NotFound)"
| "is_not_found (Wrap _ e) = is_not_found e"
| "is_not_found _ = False"

definition IgnoreNotFound :: "goerr \<Rightarrow> goerr option" where
  "IgnoreNotFound e = (if is_not_found e then None else Some e)"

lemma IgnoreNotFound_None [simp]: "IgnoreNotFound e = None \<longleftrightarrow> is_not_found e"
  by (simp add: IgnoreNotFound_def)

lemma IgnoreNotFound_Some [simp]: "IgnoreNotFound e = Some e' \<longleftrightarrow> \<not> is_not_found e \<and> e' = e"
  by (auto simp: IgnoreNotFound_def)

text \<open>The errors an API call itself can produce, as opposed to the sentinels of the code.\<close>

fun from_api :: "goerr \<Rightarrow> bool" where
  "from_api (ApiStatus _) = True"
| "from_api (Transport _) = True"
| "from_api (Wrap _ e) = from_api e"
| "from_api _ = False"

subsection \<open>Operations\<close>

text \<open>
  An operation takes the state of the world (the API server, the clock, the leader
  election) and returns an error or a value, and the state after it. The \<open>ctx\<close> argument of
  the Go methods is left out: a cancelled context shows as a \<open>Transport\<close> error of the call
  it cancels.
\<close>

type_synonym ('s, 'a) act = "'s \<Rightarrow> (goerr + 'a) \<times> 's"

text \<open>\<open>return client.IgnoreNotFound(err)\<close> for a call that returns only an error.\<close>

definition ignoring_not_found :: "('s, unit) act \<Rightarrow> ('s, unit) act" where
  "ignoring_not_found f s =
     (case f s of
        (Inl e, s') \<Rightarrow> (case IgnoreNotFound e of None \<Rightarrow> (Inr (), s') | Some e' \<Rightarrow> (Inl e', s'))
      | (Inr u, s') \<Rightarrow> (Inr u, s'))"

lemma ignoring_not_found_Inr:
  "ignoring_not_found f s = (Inr u, s') \<longleftrightarrow>
     f s = (Inr (), s') \<or> (\<exists>e. f s = (Inl e, s') \<and> is_not_found e)"
  by (auto simp: ignoring_not_found_def split: prod.splits sum.splits option.splits)

lemma ignoring_not_found_Inl:
  "ignoring_not_found f s = (Inl e, s') \<longleftrightarrow> f s = (Inl e, s') \<and> \<not> is_not_found e"
  by (auto simp: ignoring_not_found_def split: prod.splits sum.splits option.splits)

subsection \<open>Lists, maps and association lists\<close>

lemma map_of_filter_key:
  "map_of (filter (\<lambda>kv. P (fst kv)) al) k = (if P k then map_of al k else None)"
  by (induction al) auto

lemma in_set_update: "x \<in> set (AList.update k v al) \<Longrightarrow> x = (k, v) \<or> x \<in> set al"
  by (induction al) (auto split: if_splits)

end
