(* ===== verification/GoStrings.thy ===== *)
theory GoStrings
  imports Prelude
begin

text \<open>
  The parts of Go's \<open>strings\<close>, \<open>bytes\<close>, \<open>fmt\<close> and \<open>strconv\<close> that the program uses, on byte
  strings: splitting and joining at a separator, prefixes, lower case, printing and parsing
  of booleans. \<open>ToLower\<close> is the ASCII path of \<open>strings.ToLower\<close> and \<open>bytes.ToLower\<close>; the
  bytes from 128 on, which Go decodes as UTF-8, are left as they are.
\<close>

subsection \<open>strings.HasPrefix, bytes.HasPrefix\<close>

definition HasPrefix :: "string \<Rightarrow> string \<Rightarrow> bool" where
  "HasPrefix s p \<longleftrightarrow> prefix p s"

lemma HasPrefix_Nil [simp]: "HasPrefix s []"
  by (simp add: HasPrefix_def)

lemma HasPrefix_code [code]: "HasPrefix s p \<longleftrightarrow> take (length p) s = p"
  by (auto simp: HasPrefix_def prefix_def) (metis append_take_drop_id)

subsection \<open>strings.Split and strings.Join\<close>

text \<open>\<open>strings.Split(s, sep)\<close> for a separator of one byte.\<close>

fun split_at :: "char \<Rightarrow> string \<Rightarrow> string list" where
  "split_at c [] = [[]]"
| "split_at c (x # xs) =
     (if x = c then [] # split_at c xs
      else (case split_at c xs of
              [] \<Rightarrow> [[x]]
            | y # ys \<Rightarrow> (x # y) # ys))"

fun join_with :: "char \<Rightarrow> string list \<Rightarrow> string" where
  "join_with c [] = []"
| "join_with c [x] = x"
| "join_with c (x # y # ys) = x @ c # join_with c (y # ys)"

lemma split_at_nonempty [simp]: "split_at c s \<noteq> []"
  by (induction s) (auto split: list.splits)

lemma split_at_cons:
  obtains y ys where "split_at c s = y # ys"
  by (metis split_at_nonempty neq_Nil_conv)

lemma join_with_cons: "xs \<noteq> [] \<Longrightarrow> join_with c (x # xs) = x @ c # join_with c xs"
  by (cases xs) auto

lemma join_split [simp]: "join_with c (split_at c s) = s"
proof (induction s)
  case (Cons x s)
  obtain y ys where "split_at c s = y # ys" by (rule split_at_cons)
  with Cons show ?case by (cases ys) auto
qed simp

lemma split_at_no_sep: "p \<in> set (split_at c s) \<Longrightarrow> c \<notin> set p"
proof (induction s arbitrary: p)
  case (Cons x s)
  obtain y ys where "split_at c s = y # ys" by (rule split_at_cons)
  with Cons show ?case by (auto split: if_splits)
qed simp

lemma split_at_free: "c \<notin> set s \<Longrightarrow> split_at c s = [s]"
  by (induction s) auto

lemma split_at_append_sep:
  "split_at c (s @ c # t) = split_at c s @ split_at c t"
proof (induction s)
  case (Cons x s)
  obtain y ys where "split_at c s = y # ys" by (rule split_at_cons)
  with Cons show ?case by auto
qed simp

text \<open>Appending text extends the last part and adds parts after it.\<close>

lemma split_at_append:
  "split_at c (s @ t) =
     butlast (split_at c s) @ (last (split_at c s) @ hd (split_at c t)) # tl (split_at c t)"
proof (induction s)
  case Nil
  then show ?case by simp
next
  case (Cons x s)
  obtain y ys where s: "split_at c s = y # ys" by (rule split_at_cons)
  show ?case
  proof (cases ys)
    case Nil
    with Cons s show ?thesis by (auto split: list.splits)
  next
    case (Cons z zs)
    with Cons.IH s show ?thesis by auto
  qed
qed

lemma join_with_append:
  "xs \<noteq> [] \<Longrightarrow> ys \<noteq> [] \<Longrightarrow> join_with c (xs @ ys) = join_with c xs @ c # join_with c ys"
proof (induction xs)
  case (Cons x xs)
  then show ?case by (cases xs) (auto simp: join_with_cons)
qed simp

lemma set_join_with: "set (join_with c xs) \<subseteq> insert c (\<Union> (set ` set xs))"
  by (induction xs rule: join_with.induct) auto

lemma sep_in_join: "1 < length xs \<Longrightarrow> c \<in> set (join_with c xs)"
  by (cases xs; cases "tl xs") auto

subsection \<open>strings.ToLower, bytes.ToLower\<close>

definition is_upper :: "char \<Rightarrow> bool" where
  "is_upper c \<longleftrightarrow> 65 \<le> (of_char c :: nat) \<and> (of_char c :: nat) \<le> 90"

definition lower_char :: "char \<Rightarrow> char" where
  "lower_char c = (if is_upper c then char_of ((of_char c :: nat) + 32) else c)"

definition ToLower :: "string \<Rightarrow> string" where
  "ToLower s = map lower_char s"

lemma lower_char_idem [simp]: "lower_char (lower_char c) = lower_char c"
  by (auto simp: lower_char_def is_upper_def take_bit_nat_def)

lemma ToLower_idem [simp]: "ToLower (ToLower s) = ToLower s"
  by (simp add: ToLower_def)

lemma ToLower_append [simp]: "ToLower (s @ t) = ToLower s @ ToLower t"
  by (simp add: ToLower_def)

lemma ToLower_no_upper: "c \<in> set (ToLower s) \<Longrightarrow> \<not> is_upper c"
  by (auto simp: ToLower_def lower_char_def is_upper_def take_bit_nat_def)

lemma HasPrefix_ToLower: "HasPrefix s p \<Longrightarrow> HasPrefix (ToLower s) (ToLower p)"
  by (auto simp: HasPrefix_def prefix_def)

subsection \<open>fmt.Sprintf("%v", bool) and strconv.ParseBool\<close>

definition sprintf_bool :: "bool \<Rightarrow> string" where
  "sprintf_bool b = (if b then ''true'' else ''false'')"

definition ParseBool :: "string \<Rightarrow> goerr + bool" where
  "ParseBool s =
     (if s \<in> set [''1'', ''t'', ''T'', ''true'', ''TRUE'', ''True''] then Inr True
      else if s \<in> set [''0'', ''f'', ''F'', ''false'', ''FALSE'', ''False''] then Inr False
      else Inl (ErrSyntax s))"

lemma ParseBool_sprintf [simp]: "ParseBool (sprintf_bool b) = Inr b"
  by (cases b) (simp_all add: ParseBool_def sprintf_bool_def)

end
