(* ===== verification/StorageV1.thy ===== *)
theory StorageV1
  imports GoStrings
begin

text \<open>
  The package \<open>api/storage/v1\<close>: the label keys and the field owner, the type metas of the
  custom objects, and the objects themselves. The fields of the webmesh messages that the
  objects embed (\<open>types.MeshNode\<close>, \<open>types.Role\<close>, ...) are those of the custom resource
  definitions under \<open>api/storage/v1/crds\<close>, which are generated from them. Go enums of the
  messages are \<open>int\<close>, but for the cluster status, whose values the code compares by name.
\<close>

subsection \<open>constants.go\<close>

definition FieldOwner :: string where
  "FieldOwner = ''storage.webmesh.io''"

definition NodeIDLabel :: string where
  "NodeIDLabel = ''webmesh.io/node-id''"

definition PublicKeyLabel :: string where
  "PublicKeyLabel = ''webmesh.io/public-key''"

definition NodeIPv4Label :: string where
  "NodeIPv4Label = ''webmesh.io/node-ipv4''"

definition NodeIPv6Label :: string where
  "NodeIPv6Label = ''webmesh.io/node-ipv6''"

definition EdgeSourceLabel :: string where
  "EdgeSourceLabel = ''webmesh.io/edge-source''"

definition EdgeTargetLabel :: string where
  "EdgeTargetLabel = ''webmesh.io/edge-target''"

lemmas label_defs = NodeIDLabel_def PublicKeyLabel_def NodeIPv4Label_def NodeIPv6Label_def
  EdgeSourceLabel_def EdgeTargetLabel_def

text \<open>The four labels of a peer and the two of an edge are different keys of their maps.\<close>

lemma peer_labels_distinct [simp]:
  "distinct [PublicKeyLabel, NodeIDLabel, NodeIPv4Label, NodeIPv6Label]"
  by (simp add: label_defs)

lemma edge_labels_distinct [simp]: "EdgeSourceLabel \<noteq> EdgeTargetLabel"
  by (simp add: label_defs)

subsection \<open>groupversion_info.go and the type metas\<close>

record group_version =
  gv_group :: string
  gv_version :: string

definition GroupVersion :: group_version where
  "GroupVersion = \<lparr>gv_group = ''storage.webmesh.io'', gv_version = ''v1''\<rparr>"

text \<open>\<open>schema.GroupVersion.String\<close>: the group and the version with a slash between them.\<close>

definition gv_String :: "group_version \<Rightarrow> string" where
  "gv_String gv = (if gv_group gv = [] then gv_version gv else gv_group gv @ ''/'' @ gv_version gv)"

record type_meta =
  tm_apiVersion :: string
  tm_kind :: string

definition zero_type_meta :: type_meta where
  "zero_type_meta = \<lparr>tm_apiVersion = [], tm_kind = []\<rparr>"

definition PeerTypeMeta :: type_meta where
  "PeerTypeMeta = \<lparr>tm_apiVersion = gv_String GroupVersion, tm_kind = ''Peer''\<rparr>"

definition MeshEdgeTypeMeta :: type_meta where
  "MeshEdgeTypeMeta = \<lparr>tm_apiVersion = gv_String GroupVersion, tm_kind = ''MeshEdge''\<rparr>"

definition MeshStateTypeMeta :: type_meta where
  "MeshStateTypeMeta = \<lparr>tm_apiVersion = gv_String GroupVersion, tm_kind = ''MeshState''\<rparr>"

definition NetworkACLTypeMeta :: type_meta where
  "NetworkACLTypeMeta = \<lparr>tm_apiVersion = gv_String GroupVersion, tm_kind = ''NetworkACL''\<rparr>"

definition RouteTypeMeta :: type_meta where
  "RouteTypeMeta = \<lparr>tm_apiVersion = gv_String GroupVersion, tm_kind = ''Route''\<rparr>"

definition RoleTypeMeta :: type_meta where
  "RoleTypeMeta = \<lparr>tm_apiVersion = gv_String GroupVersion, tm_kind = ''Role''\<rparr>"

definition RoleBindingTypeMeta :: type_meta where
  "RoleBindingTypeMeta = \<lparr>tm_apiVersion = gv_String GroupVersion, tm_kind = ''RoleBinding''\<rparr>"

definition GroupTypeMeta :: type_meta where
  "GroupTypeMeta = \<lparr>tm_apiVersion = gv_String GroupVersion, tm_kind = ''Group''\<rparr>"

definition StoragePeerTypeMeta :: type_meta where
  "StoragePeerTypeMeta = \<lparr>tm_apiVersion = gv_String GroupVersion, tm_kind = ''StoragePeer''\<rparr>"

subsection \<open>The embedded messages\<close>

record mesh_node =
  mn_id :: string
  mn_publicKey :: string
  mn_primaryEndpoint :: string
  mn_wireguardEndpoints :: "string list"
  mn_zoneAwarenessID :: string
  mn_privateIPv4 :: string
  mn_privateIPv6 :: string
  mn_features :: "(int \<times> int) list"
  mn_multiaddrs :: "string list"
  mn_joinedAt :: "(int \<times> int) option"

record mesh_edge =
  me_source :: string
  me_target :: string
  me_weight :: int
  me_attributes :: "string \<rightharpoonup> string"

record network_state =
  ns_networkV4 :: string
  ns_networkV6 :: string
  ns_domain :: string

record network_acl =
  acl_name :: string
  acl_priority :: int
  acl_action :: int
  acl_sourceNodes :: "string list"
  acl_destinationNodes :: "string list"
  acl_sourceCIDRs :: "string list"
  acl_destinationCIDRs :: "string list"

record route =
  route_name :: string
  route_node :: string
  route_destinationCIDRs :: "string list"
  route_nextHopNode :: string

record rule =
  rule_resources :: "int list"
  rule_resourceNames :: "string list"
  rule_verbs :: "int list"

record role =
  role_name :: string
  role_rules :: "rule list"

record subject =
  subj_name :: string
  subj_type :: int

record role_binding =
  rb_name :: string
  rb_role :: string
  rb_subjects :: "subject list"

record group =
  group_name :: string
  group_subjects :: "subject list"

datatype cluster_status =
    CLUSTER_LEADER
  | CLUSTER_VOTER
  | CLUSTER_OBSERVER
  | CLUSTER_NODE
  | CLUSTER_OTHER int

record storage_peer =
  sp_id :: string
  sp_publicKey :: string
  sp_address :: string
  sp_clusterStatus :: cluster_status

text \<open>The zero values a \<open>var x storagev1.T\<close> starts with.\<close>

definition zero_mesh_node :: mesh_node where
  "zero_mesh_node = \<lparr>mn_id = [], mn_publicKey = [], mn_primaryEndpoint = [],
     mn_wireguardEndpoints = [], mn_zoneAwarenessID = [], mn_privateIPv4 = [],
     mn_privateIPv6 = [], mn_features = [], mn_multiaddrs = [], mn_joinedAt = None\<rparr>"

definition zero_mesh_edge :: mesh_edge where
  "zero_mesh_edge = \<lparr>me_source = [], me_target = [], me_weight = 0, me_attributes = Map.empty\<rparr>"

definition zero_network_state :: network_state where
  "zero_network_state = \<lparr>ns_networkV4 = [], ns_networkV6 = [], ns_domain = []\<rparr>"

definition zero_network_acl :: network_acl where
  "zero_network_acl = \<lparr>acl_name = [], acl_priority = 0, acl_action = 0, acl_sourceNodes = [],
     acl_destinationNodes = [], acl_sourceCIDRs = [], acl_destinationCIDRs = []\<rparr>"

definition zero_route :: route where
  "zero_route = \<lparr>route_name = [], route_node = [], route_destinationCIDRs = [],
     route_nextHopNode = []\<rparr>"

definition zero_role :: role where
  "zero_role = \<lparr>role_name = [], role_rules = []\<rparr>"

definition zero_role_binding :: role_binding where
  "zero_role_binding = \<lparr>rb_name = [], rb_role = [], rb_subjects = []\<rparr>"

definition zero_group :: group where
  "zero_group = \<lparr>group_name = [], group_subjects = []\<rparr>"

definition zero_storage_peer :: storage_peer where
  "zero_storage_peer = \<lparr>sp_id = [], sp_publicKey = [], sp_address = [],
     sp_clusterStatus = CLUSTER_OTHER 0\<rparr>"

lemmas type_meta_defs = PeerTypeMeta_def MeshEdgeTypeMeta_def MeshStateTypeMeta_def
  NetworkACLTypeMeta_def RouteTypeMeta_def RoleTypeMeta_def RoleBindingTypeMeta_def
  GroupTypeMeta_def StoragePeerTypeMeta_def

end
