(* ===== verification/KubeApi.thy ===== *)
theory KubeApi
  imports StorageV1
begin

text \<open>
  The interface of the Kubernetes API server as the code uses it through controller-runtime's
  \<open>client.Client\<close>: objects with their metadata, the four calls \<open>Get\<close>, \<open>List\<close>, \<open>Patch\<close> and
  \<open>Delete\<close>, and the documented behaviour the code relies on, as the assumptions of a locale.
  The server is not part of the repository: every operation of the program takes the client
  as a parameter.
\<close>

subsection \<open>Objects\<close>

text \<open>
  \<open>metav1.ObjectMeta\<close>: the fields the code sets or resets. The labels are a map that is only
  looked up, never ranged over.
\<close>

record object_meta =
  om_namespace :: string
  om_name :: string
  om_labels :: "string \<rightharpoonup> string"
  om_resourceVersion :: string
  om_uid :: string
  om_generation :: int
  om_managedFields :: "string list"

definition zero_object_meta :: object_meta where
  "zero_object_meta = \<lparr>om_namespace = [], om_name = [], om_labels = Map.empty,
     om_resourceVersion = [], om_uid = [], om_generation = 0, om_managedFields = []\<rparr>"

text \<open>
  The Go types of the objects (\<open>&storagev1.Role{}\<close>, \<open>&corev1.Secret{}\<close>, ...) and what is in
  them. The data of a Secret is an association list, because the code ranges over that map:
  the order of the list is the order in which a range visits it, which nothing fixes.
\<close>

datatype gvk =
    PeerT | MeshEdgeT | MeshStateT | NetworkACLT | RouteT | RoleT | RoleBindingT | GroupT
  | StoragePeerT | SecretT | ConfigMapT

datatype payload =
    PPeer mesh_node
  | PMeshEdge mesh_edge
  | PMeshState network_state
  | PNetworkACL network_acl
  | PRoute route
  | PRole role
  | PRoleBinding role_binding
  | PGroup group
  | PStoragePeer storage_peer
  | PSecret "(string \<times> string) list"
  | PConfigMap "string \<rightharpoonup> string"

fun gvk_of :: "payload \<Rightarrow> gvk" where
  "gvk_of (PPeer _) = PeerT"
| "gvk_of (PMeshEdge _) = MeshEdgeT"
| "gvk_of (PMeshState _) = MeshStateT"
| "gvk_of (PNetworkACL _) = NetworkACLT"
| "gvk_of (PRoute _) = RouteT"
| "gvk_of (PRole _) = RoleT"
| "gvk_of (PRoleBinding _) = RoleBindingT"
| "gvk_of (PGroup _) = GroupT"
| "gvk_of (PStoragePeer _) = StoragePeerT"
| "gvk_of (PSecret _) = SecretT"
| "gvk_of (PConfigMap _) = ConfigMapT"

text \<open>
  The embedded message of a typed object. The client decodes into the Go type it was asked
  for, so another constructor cannot occur there; its case is the zero value of the type.
\<close>

definition as_peer :: "payload \<Rightarrow> mesh_node" where
  "as_peer p = (case p of PPeer x \<Rightarrow> x | _ \<Rightarrow> zero_mesh_node)"

definition as_mesh_edge :: "payload \<Rightarrow> mesh_edge" where
  "as_mesh_edge p = (case p of PMeshEdge x \<Rightarrow> x | _ \<Rightarrow> zero_mesh_edge)"

definition as_mesh_state :: "payload \<Rightarrow> network_state" where
  "as_mesh_state p = (case p of PMeshState x \<Rightarrow> x | _ \<Rightarrow> zero_network_state)"

definition as_network_acl :: "payload \<Rightarrow> network_acl" where
  "as_network_acl p = (case p of PNetworkACL x \<Rightarrow> x | _ \<Rightarrow> zero_network_acl)"

definition as_route :: "payload \<Rightarrow> route" where
  "as_route p = (case p of PRoute x \<Rightarrow> x | _ \<Rightarrow> zero_route)"

definition as_role :: "payload \<Rightarrow> role" where
  "as_role p = (case p of PRole x \<Rightarrow> x | _ \<Rightarrow> zero_role)"

definition as_role_binding :: "payload \<Rightarrow> role_binding" where
  "as_role_binding p = (case p of PRoleBinding x \<Rightarrow> x | _ \<Rightarrow> zero_role_binding)"

definition as_group :: "payload \<Rightarrow> group" where
  "as_group p = (case p of PGroup x \<Rightarrow> x | _ \<Rightarrow> zero_group)"

definition as_storage_peer :: "payload \<Rightarrow> storage_peer" where
  "as_storage_peer p = (case p of PStoragePeer x \<Rightarrow> x | _ \<Rightarrow> zero_storage_peer)"

definition as_secret :: "payload \<Rightarrow> (string \<times> string) list" where
  "as_secret p = (case p of PSecret d \<Rightarrow> d | _ \<Rightarrow> [])"

definition as_config_map :: "payload \<Rightarrow> (string \<rightharpoonup> string)" where
  "as_config_map p = (case p of PConfigMap d \<Rightarrow> d | _ \<Rightarrow> Map.empty)"

lemma as_simps [simp]:
  "as_peer (PPeer a) = a" "as_mesh_edge (PMeshEdge b) = b" "as_mesh_state (PMeshState c) = c"
  "as_network_acl (PNetworkACL d) = d" "as_route (PRoute e) = e" "as_role (PRole f) = f"
  "as_role_binding (PRoleBinding g) = g" "as_group (PGroup h) = h"
  "as_storage_peer (PStoragePeer i) = i" "as_secret (PSecret j) = j"
  "as_config_map (PConfigMap k) = k"
  by (simp_all add: as_peer_def as_mesh_edge_def as_mesh_state_def as_network_acl_def as_route_def
      as_role_def as_role_binding_def as_group_def as_storage_peer_def as_secret_def
      as_config_map_def)

record kobject =
  ko_type :: type_meta
  ko_meta :: object_meta
  ko_payload :: payload

type_synonym objkey = "gvk \<times> string \<times> string"

definition key_of :: "kobject \<Rightarrow> objkey" where
  "key_of obj = (gvk_of (ko_payload obj), om_namespace (ko_meta obj), om_name (ko_meta obj))"

subsection \<open>The client\<close>

text \<open>
  \<open>api_get t ns name\<close> and \<open>api_list t ns sel\<close> read; an empty namespace lists all namespaces,
  and \<open>sel\<close> is the argument of \<open>client.MatchingLabels\<close>. \<open>api_patch obj opts\<close> and
  \<open>api_delete obj\<close> write the object whose type, namespace and name \<open>obj\<close> carries.
\<close>

datatype patch_option = ApplyPatch | ForceOwnership | FieldOwnerOpt string

record 's client =
  api_get :: "gvk \<Rightarrow> string \<Rightarrow> string \<Rightarrow> ('s, kobject) act"
  api_list :: "gvk \<Rightarrow> string \<Rightarrow> (string \<times> string) list \<Rightarrow> ('s, kobject list) act"
  api_patch :: "kobject \<Rightarrow> patch_option list \<Rightarrow> ('s, unit) act"
  api_delete :: "kobject \<Rightarrow> ('s, unit) act"

definition matching_labels :: "(string \<times> string) list \<Rightarrow> (string \<rightharpoonup> string) \<Rightarrow> bool" where
  "matching_labels sel lbl \<longleftrightarrow> (\<forall>(k, v) \<in> set sel. lbl k = Some v)"

definition in_namespace :: "string \<Rightarrow> string \<Rightarrow> bool" where
  "in_namespace ns ns' \<longleftrightarrow> ns = [] \<or> ns = ns'"

lemma matching_labels_simps [simp]:
  "matching_labels [] lbl"
  "matching_labels ((k, v) # sel) lbl \<longleftrightarrow> lbl k = Some v \<and> matching_labels sel lbl"
  by (auto simp: matching_labels_def)

lemma in_namespace_simps [simp]:
  "in_namespace [] ns" "ns \<noteq> [] \<Longrightarrow> in_namespace ns ns' \<longleftrightarrow> ns = ns'"
  by (auto simp: in_namespace_def)

text \<open>A request to a reconciler (\<open>ctrl.Request\<close>) names an object.\<close>

record request =
  req_Namespace :: string
  req_Name :: string

subsection \<open>What a client shows of the server\<close>

text \<open>
  The server holds, per type, namespace and name, the labels and the content of an object.
  The data of a Secret is a map there; a client sees it as a list with distinct keys.
\<close>

datatype content = Plain payload | SecretData "string \<rightharpoonup> string"

type_synonym stored = "(string \<rightharpoonup> string) \<times> content"

fun content_of :: "payload \<Rightarrow> content" where
  "content_of (PSecret d) = SecretData (map_of d)"
| "content_of p = Plain p"

definition shown :: "kobject \<Rightarrow> stored" where
  "shown obj = (om_labels (ko_meta obj), content_of (ko_payload obj))"

fun data_distinct :: "payload \<Rightarrow> bool" where
  "data_distinct (PSecret d) = distinct (map fst d)"
| "data_distinct _ = True"

definition selected :: "gvk \<Rightarrow> string \<Rightarrow> (string \<times> string) list \<Rightarrow> kobject \<Rightarrow> bool" where
  "selected t ns sel obj \<longleftrightarrow> gvk_of (ko_payload obj) = t
     \<and> in_namespace ns (om_namespace (ko_meta obj)) \<and> matching_labels sel (om_labels (ko_meta obj))"

lemma content_of_plain [simp]: "gvk_of p \<noteq> SecretT \<Longrightarrow> content_of p = Plain p"
  by (cases p) auto

lemma content_of_eq_Plain [simp]: "content_of p = Plain q \<longleftrightarrow> p = q \<and> gvk_of p \<noteq> SecretT"
  by (cases p) auto

lemma content_of_eq_SecretData [simp]:
  "content_of p = SecretData m \<longleftrightarrow> gvk_of p = SecretT \<and> map_of (as_secret p) = m"
  by (cases p) auto

lemma eq_content_of [simp]:
  "Plain q = content_of p \<longleftrightarrow> p = q \<and> gvk_of p \<noteq> SecretT"
  "SecretData m = content_of p \<longleftrightarrow> gvk_of p = SecretT \<and> map_of (as_secret p) = m"
  by (simp_all add: eq_commute[of _ "content_of p"])

text \<open>
  The documented behaviour of the API: reads change nothing and return what the server holds;
  a server-side apply with forced ownership, by the only field owner there is, makes the
  object what was applied; a delete removes it. A write that reports an error may still have
  been carried out (a lost response). The laws speak of a client without a stale cache.
\<close>

locale kube_api =
  fixes cli :: "'s client"
    and view :: "'s \<Rightarrow> objkey \<Rightarrow> stored option"
  assumes get_frame: "api_get cli t ns n s = (r, s') \<Longrightarrow> view s' = view s"
    and get_found: "api_get cli t ns n s = (Inr obj, s') \<Longrightarrow>
      key_of obj = (t, ns, n) \<and> view s (t, ns, n) = Some (shown obj) \<and> data_distinct (ko_payload obj)"
    and get_absent: "api_get cli t ns n s = (Inl e, s') \<Longrightarrow> is_not_found e \<Longrightarrow> view s (t, ns, n) = None"
    and get_error: "api_get cli t ns n s = (Inl e, s') \<Longrightarrow> from_api e"
    and list_frame: "api_list cli t ns sel s = (rs, s') \<Longrightarrow> view s' = view s"
    and list_sound: "api_list cli t ns sel s = (Inr objs, s') \<Longrightarrow> obj \<in> set objs \<Longrightarrow>
      selected t ns sel obj \<and> view s (key_of obj) = Some (shown obj) \<and> data_distinct (ko_payload obj)"
    and list_complete: "api_list cli t ns sel s = (Inr objs, s') \<Longrightarrow>
      view s (t, ns', n) = Some (lbl, c) \<Longrightarrow> in_namespace ns ns' \<Longrightarrow> matching_labels sel lbl \<Longrightarrow>
      (t, ns', n) \<in> key_of ` set objs"
    and list_distinct: "api_list cli t ns sel s = (Inr objs, s') \<Longrightarrow> distinct (map key_of objs)"
    and list_absent: "api_list cli t ns sel s = (Inl e, s') \<Longrightarrow> is_not_found e \<Longrightarrow> view s (t, ns', n) = None"
    and list_error: "api_list cli t ns sel s = (Inl e, s') \<Longrightarrow> from_api e"
    and patch_done: "api_patch cli obj [ApplyPatch, ForceOwnership, FieldOwnerOpt FieldOwner] s = (Inr (), s') \<Longrightarrow>
      view s' = (view s)(key_of obj \<mapsto> shown obj)"
    and patch_failed: "api_patch cli obj [ApplyPatch, ForceOwnership, FieldOwnerOpt FieldOwner] s = (Inl e, s') \<Longrightarrow>
      from_api e \<and> (view s' = view s \<or> view s' = (view s)(key_of obj \<mapsto> shown obj))"
    and delete_done: "api_delete cli obj s = (Inr (), s') \<Longrightarrow> view s' = (view s)(key_of obj := None)"
    and delete_absent: "api_delete cli obj s = (Inl e, s') \<Longrightarrow> is_not_found e \<Longrightarrow>
      view s (key_of obj) = None \<and> view s' = view s"
    and delete_failed: "api_delete cli obj s = (Inl e, s') \<Longrightarrow>
      from_api e \<and> (view s' = view s \<or> view s' = (view s)(key_of obj := None))"
begin

text \<open>What a list returns when at most one stored object matches.\<close>

lemma list_none:
  assumes "api_list cli t nsl sel s = (Inr objs, s')"
    and "\<And>ns' n l c. view s (t, ns', n) = Some (l, c) \<Longrightarrow> in_namespace nsl ns' \<Longrightarrow> \<not> matching_labels sel l"
  shows "objs = []"
proof (rule ccontr)
  assume "objs \<noteq> []"
  then have o: "hd objs \<in> set objs" by simp
  from list_sound[OF assms(1) o] assms(2) show False
    by (auto simp: selected_def shown_def key_of_def)
qed

lemma list_only:
  assumes objs: "api_list cli t nsl sel s = (Inr objs, s')"
    and only: "\<And>ns' n l c. view s (t, ns', n) = Some (l, c) \<Longrightarrow> in_namespace nsl ns' \<Longrightarrow>
      matching_labels sel l \<Longrightarrow> ns' = ns1 \<and> n = n1"
    and stored: "view s (t, ns1, n1) = Some (l1, c1)" "in_namespace nsl ns1" "matching_labels sel l1"
  obtains obj where "objs = [obj]" and "shown obj = (l1, c1)" and "gvk_of (ko_payload obj) = t"
proof -
  have key: "key_of obj = (t, ns1, n1) \<and> shown obj = (l1, c1) \<and> gvk_of (ko_payload obj) = t"
    if obj: "obj \<in> set objs" for obj
  proof -
    let ?m = "ko_meta obj"
    have sel: "gvk_of (ko_payload obj) = t" "in_namespace nsl (om_namespace ?m)"
      "matching_labels sel (om_labels ?m)" and
      v: "view s (key_of obj) = Some (shown obj)"
      using list_sound[OF objs obj] unfolding selected_def by blast+
    have k: "key_of obj = (t, om_namespace ?m, om_name ?m)" by (simp only: key_of_def sel(1))
    have "om_namespace ?m = ns1 \<and> om_name ?m = n1"
      using v unfolding k shown_def by (rule only[OF _ sel(2,3)])
    with k have k': "key_of obj = (t, ns1, n1)" by simp
    from v have "shown obj = (l1, c1)" unfolding k' stored(1) by simp
    with k' sel(1) show ?thesis by simp
  qed
  have "objs \<noteq> []" using list_complete[OF objs stored] by auto
  then obtain obj rest where o: "objs = obj # rest" by (cases objs) auto
  have "rest = []"
    using list_distinct[OF objs] key[of obj] key o by (cases rest) auto
  with o key[of obj] that show ?thesis by auto
qed

text \<open>The stored objects a list stands for.\<close>

lemma list_stored:
  assumes objs: "api_list cli t nsl sel s = (Inr objs, s')"
  shows "shown ` set objs = {(l, c). \<exists>ns' n. view s (t, ns', n) = Some (l, c)
     \<and> in_namespace nsl ns' \<and> matching_labels sel l}"
proof (intro equalityI subsetI)
  fix st assume "st \<in> shown ` set objs"
  then obtain obj where obj: "obj \<in> set objs" "st = shown obj" by blast
  have sel: "gvk_of (ko_payload obj) = t" "in_namespace nsl (om_namespace (ko_meta obj))"
    "matching_labels sel (om_labels (ko_meta obj))"
    "view s (t, om_namespace (ko_meta obj), om_name (ko_meta obj)) = Some (shown obj)"
    using list_sound[OF objs obj(1)] by (simp_all add: selected_def key_of_def) blast+
  then show "st \<in> {(l, c). \<exists>ns' n. view s (t, ns', n) = Some (l, c)
      \<and> in_namespace nsl ns' \<and> matching_labels sel l}"
    unfolding obj(2) shown_def by blast
next
  fix st assume "st \<in> {(l, c). \<exists>ns' n. view s (t, ns', n) = Some (l, c)
      \<and> in_namespace nsl ns' \<and> matching_labels sel l}"
  then obtain l c ns' n where st: "st = (l, c)" "view s (t, ns', n) = Some (l, c)"
    "in_namespace nsl ns'" "matching_labels sel l" by auto
  have "(t, ns', n) \<in> key_of ` set objs" by (rule list_complete[OF objs st(2-4)])
  then obtain obj where obj: "obj \<in> set objs" "key_of obj = (t, ns', n)" by auto
  have "view s (key_of obj) = Some (shown obj)" using list_sound[OF objs obj(1)] by blast
  then have "shown obj = st" by (simp only: obj(2) st option.inject)
  with obj(1) show "st \<in> shown ` set objs" by blast
qed

end

text \<open>
  A server that answers: while \<open>up\<close> holds, no call fails for another reason than a missing
  object or an object the server does not admit.
\<close>

locale kube_server = kube_api +
  fixes up :: "'s \<Rightarrow> bool"
    and admissible :: "kobject \<Rightarrow> bool"
  assumes up_get: "up s \<Longrightarrow> view s (t, ns, n) = Some st \<Longrightarrow>
      \<exists>obj s'. api_get cli t ns n s = (Inr obj, s') \<and> up s'"
    and up_get_absent: "up s \<Longrightarrow> view s (t, ns, n) = None \<Longrightarrow>
      \<exists>e s'. api_get cli t ns n s = (Inl e, s') \<and> is_not_found e \<and> up s'"
    and up_list: "up s \<Longrightarrow> \<exists>objs s'. api_list cli t ns sel s = (Inr objs, s') \<and> up s'"
    and up_patch: "up s \<Longrightarrow> admissible obj \<Longrightarrow>
      \<exists>s'. api_patch cli obj [ApplyPatch, ForceOwnership, FieldOwnerOpt FieldOwner] s = (Inr (), s') \<and> up s'"
    and up_delete: "up s \<Longrightarrow> view s (key_of obj) = Some st \<Longrightarrow>
      \<exists>s'. api_delete cli obj s = (Inr (), s') \<and> up s'"
    and up_delete_absent: "up s \<Longrightarrow> view s (key_of obj) = None \<Longrightarrow>
      \<exists>e s'. api_delete cli obj s = (Inl e, s') \<and> is_not_found e \<and> up s'"

end
