(* ===== verification/Util.thy ===== *)
theory Util
  imports KubeApi
begin

text \<open>
  The package \<open>provider/util\<close>: server-side apply of an object with its server-populated
  metadata stripped.
\<close>

definition StripPatchMeta :: "kobject \<Rightarrow> kobject" where
  "StripPatchMeta obj = obj\<lparr>ko_meta := (ko_meta obj)
     \<lparr>om_resourceVersion := [], om_uid := [], om_generation := 0, om_managedFields := []\<rparr>\<rparr>"

definition PatchObject :: "'s client \<Rightarrow> kobject \<Rightarrow> ('s, unit) act" where
  "PatchObject cli obj s =
     (let obj' = StripPatchMeta obj
      in case api_patch cli obj' [ApplyPatch, ForceOwnership, FieldOwnerOpt FieldOwner] s of
           (Inl err, s') \<Rightarrow>
             (Inl (Wrap (''server-side apply object '' @ om_namespace (ko_meta obj') @ ''/''
                         @ om_name (ko_meta obj')) err), s')
         | (Inr u, s') \<Rightarrow> (Inr u, s'))"

lemma StripPatchMeta_simps [simp]:
  "key_of (StripPatchMeta obj) = key_of obj" "shown (StripPatchMeta obj) = shown obj"
  "ko_type (StripPatchMeta obj) = ko_type obj" "ko_payload (StripPatchMeta obj) = ko_payload obj"
  by (simp_all add: StripPatchMeta_def key_of_def shown_def)

lemma StripPatchMeta_meta:
  "om_resourceVersion (ko_meta (StripPatchMeta obj)) = []"
  "om_uid (ko_meta (StripPatchMeta obj)) = []"
  "om_generation (ko_meta (StripPatchMeta obj)) = 0"
  "om_managedFields (ko_meta (StripPatchMeta obj)) = []"
  by (simp_all add: StripPatchMeta_def)

lemma StripPatchMeta_idem [simp]: "StripPatchMeta (StripPatchMeta obj) = StripPatchMeta obj"
  by (simp add: StripPatchMeta_def)

context kube_api begin

lemma PatchObject_done:
  "PatchObject cli obj s = (Inr u, s') \<Longrightarrow> view s' = (view s)(key_of obj \<mapsto> shown obj)"
  by (auto simp: PatchObject_def Let_def dest!: patch_done split: prod.splits sum.splits)

lemma PatchObject_failed:
  "PatchObject cli obj s = (Inl e, s') \<Longrightarrow>
     from_api e \<and> (view s' = view s \<or> view s' = (view s)(key_of obj \<mapsto> shown obj))"
  by (auto simp: PatchObject_def Let_def dest!: patch_failed split: prod.splits sum.splits)

lemma delete_ignored_done:
  "ignoring_not_found (api_delete cli obj) s = (Inr u, s') \<Longrightarrow> view s' = (view s)(key_of obj := None)"
  by (auto simp: ignoring_not_found_Inr fun_upd_idem dest: delete_done delete_absent)

lemma delete_ignored_failed:
  "ignoring_not_found (api_delete cli obj) s = (Inl e, s') \<Longrightarrow>
     from_api e \<and> (view s' = view s \<or> view s' = (view s)(key_of obj := None))"
  by (auto simp: ignoring_not_found_Inl dest: delete_failed)

end

context kube_server begin

lemma PatchObject_up:
  assumes "up s" and "admissible (StripPatchMeta obj)"
  obtains s' where "PatchObject cli obj s = (Inr (), s')" and "up s'"
    and "view s' = (view s)(key_of obj \<mapsto> shown obj)"
proof -
  obtain s' where s': "api_patch cli (StripPatchMeta obj)
      [ApplyPatch, ForceOwnership, FieldOwnerOpt FieldOwner] s = (Inr (), s')" "up s'"
    using up_patch[OF assms] by blast
  then have "PatchObject cli obj s = (Inr (), s')" by (simp add: PatchObject_def)
  with s'(2) show ?thesis using that PatchObject_done by blast
qed

lemma delete_ignored_up:
  assumes "up s"
  obtains s' where "ignoring_not_found (api_delete cli obj) s = (Inr (), s')" and "up s'"
proof (cases "view s (key_of obj)")
  case None
  then show ?thesis
    using up_delete_absent[OF assms None] that by (auto simp: ignoring_not_found_Inr)
next
  case (Some st)
  then show ?thesis
    using up_delete[OF assms Some] that by (auto simp: ignoring_not_found_Inr)
qed

end

end
