(* ===== verification/NamedStore.thy ===== *)
theory NamedStore
  imports Util
begin

text \<open>
  The contract of a collection of named objects, which network ACLs, routes, roles, role
  bindings and groups all implement with one object per name in the namespace of the
  database: put, get, delete and list, against an abstract map from names to values. The
  facts a user of such a collection relies on are proved once here.
\<close>

subsection \<open>Sequences of updates and what they should do\<close>

datatype 'v store_op = OpPut 'v | OpDelete string

text \<open>The updates one after the other, stopping at the first error.\<close>

fun run_store :: "('v \<Rightarrow> ('s, unit) act) \<Rightarrow> (string \<Rightarrow> ('s, unit) act) \<Rightarrow> 'v store_op list \<Rightarrow> ('s, unit) act" where
  "run_store put del [] s = (Inr (), s)"
| "run_store put del (op # ops) s =
     (case (case op of OpPut v \<Rightarrow> put v s | OpDelete n \<Rightarrow> del n s) of
        (Inl e, s') \<Rightarrow> (Inl e, s')
      | (Inr _, s') \<Rightarrow> run_store put del ops s')"

text \<open>The same updates on the abstract map.\<close>

fun apply_op :: "('v \<Rightarrow> string) \<Rightarrow> 'v store_op \<Rightarrow> (string \<rightharpoonup> 'v) \<Rightarrow> (string \<rightharpoonup> 'v)" where
  "apply_op name (OpPut v) m = m(name v \<mapsto> v)"
| "apply_op name (OpDelete n) m = m(n := None)"

locale named_store =
  fixes put :: "'v \<Rightarrow> ('s, unit) act"
    and get :: "string \<Rightarrow> ('s, 'v) act"
    and del :: "string \<Rightarrow> ('s, unit) act"
    and lst :: "('s, 'v list) act"
    and name :: "'v \<Rightarrow> string"
    and content :: "'s \<Rightarrow> string \<Rightarrow> 'v option"
    and missing :: goerr
  assumes put_done: "put v s = (Inr u, s') \<Longrightarrow> content s' = (content s)(name v \<mapsto> v)"
    and put_failed: "put v s = (Inl e, s') \<Longrightarrow>
      content s' = content s \<or> content s' = (content s)(name v \<mapsto> v)"
    and get_value: "get n s = (Inr v, s') \<Longrightarrow> content s n = Some v"
    and get_missing: "get n s = (Inl missing, s') \<Longrightarrow> content s n = None"
    and get_keeps: "get n s = (r, s') \<Longrightarrow> content s' = content s"
    and del_done: "del n s = (Inr u, s') \<Longrightarrow> content s' = (content s)(n := None)"
    and del_failed: "del n s = (Inl e, s') \<Longrightarrow>
      content s' = content s \<or> content s' = (content s)(n := None)"
    and lst_values: "lst s = (Inr vs, s') \<Longrightarrow>
      set vs = ran (content s) \<and> length vs = card (dom (content s)) \<and> finite (dom (content s))"
    and lst_keeps: "lst s = (rs, s') \<Longrightarrow> content s' = content s"
begin

lemma get_after_put: "put v s = (Inr u, s1) \<Longrightarrow> get (name v) s1 = (Inr w, s2) \<Longrightarrow> w = v"
  using put_done[of v s u s1] get_value[of "name v" s1 w s2] by simp

lemma found_after_put: "put v s = (Inr u, s1) \<Longrightarrow> get (name v) s1 \<noteq> (Inl missing, s2)"
  using put_done[of v s u s1] get_missing[of "name v" s1 s2] by auto

lemma get_after_del: "del n s = (Inr u, s1) \<Longrightarrow> get n s1 \<noteq> (Inr v, s2)"
  using del_done[of n s u s1] get_value[of n s1 v s2] by auto

lemma get_other_after_put:
  "put v s = (Inr u, s1) \<Longrightarrow> n \<noteq> name v \<Longrightarrow> get n s1 = (Inr w, s2) \<Longrightarrow> content s n = Some w"
  using put_done[of v s u s1] get_value[of n s1 w s2] by simp

lemma lst_after_put: "put v s = (Inr u, s1) \<Longrightarrow> lst s1 = (Inr vs, s2) \<Longrightarrow> v \<in> set vs"
  using put_done[of v s u s1] lst_values[of s1 vs s2] by (auto simp: ran_def)

lemma lst_after_del:
  assumes "del n s = (Inr u, s1)" and "lst s1 = (Inr vs, s2)"
    and "\<And>m v. content s m = Some v \<Longrightarrow> name v = m"
  shows "n \<notin> name ` set vs"
  using del_done[OF assms(1)] lst_values[OF assms(2)] assms(3)
  by (auto simp: ran_def split: if_splits)

text \<open>A run of updates that returns no error does to the collection what it does to the map.\<close>

lemma run_refines:
  "run_store put del ops s = (Inr u, s') \<Longrightarrow> content s' = fold (apply_op name) ops (content s)"
proof (induction ops arbitrary: s)
  case (Cons op ops)
  then show ?case
    by (cases op) (auto split: prod.splits sum.splits dest: put_done del_done)
qed simp

text \<open>
  Every entry is found under its own name: an invariant of any run, also one that fails on
  the way.
\<close>

lemma run_names:
  assumes "\<forall>m v. content s m = Some v \<longrightarrow> name v = m"
    and "run_store put del ops s = (r, s')"
  shows "\<forall>m v. content s' m = Some v \<longrightarrow> name v = m"
  using assms
proof (induction ops arbitrary: s)
  case (Cons op ops)
  let ?named = "\<lambda>s. \<forall>m v. content s m = Some v \<longrightarrow> name v = m"
  obtain r1 s1 where step: "(case op of OpPut v \<Rightarrow> put v s | OpDelete n \<Rightarrow> del n s) = (r1, s1)"
    by fastforce
  have "content s1 = content s \<or> content s1 = apply_op name op (content s)"
    using step by (cases op; cases r1) (auto dest: put_done put_failed del_done del_failed)
  then have named: "?named s1"
    using Cons.prems(1) by (cases op) (auto split: if_splits)
  show ?case
  proof (cases r1)
    case (Inl e)
    with step Cons.prems(2) named show ?thesis by simp
  next
    case (Inr u)
    with step Cons.prems(2) have "run_store put del ops s1 = (r, s')" by simp
    with named show ?thesis by (rule Cons.IH)
  qed
qed simp

end

text \<open>The same with a server that answers: the operations succeed.\<close>

locale live_store = named_store +
  fixes up :: "'s \<Rightarrow> bool"
    and admits :: "'v \<Rightarrow> bool"
  assumes up_put: "up s \<Longrightarrow> admits v \<Longrightarrow> \<exists>s'. put v s = (Inr (), s') \<and> up s'"
    and up_get: "up s \<Longrightarrow> \<exists>s'. up s' \<and>
      get n s = (case content s n of Some v \<Rightarrow> (Inr v, s') | None \<Rightarrow> (Inl missing, s'))"
    and up_del: "up s \<Longrightarrow> \<exists>s'. del n s = (Inr (), s') \<and> up s'"
    and up_lst: "up s \<Longrightarrow> \<exists>vs s'. lst s = (Inr vs, s') \<and> up s'"
begin

lemma put_get_live:
  assumes "up s" and "admits v"
  obtains s1 s2 where "put v s = (Inr (), s1)" and "get (name v) s1 = (Inr v, s2)" and "up s2"
proof -
  obtain s1 where s1: "put v s = (Inr (), s1)" "up s1" using up_put[OF assms] by blast
  obtain s2 where "up s2" "get (name v) s1 = (Inr v, s2)"
    using up_get[OF s1(2), of "name v"] put_done[OF s1(1)] by auto
  with s1 show ?thesis using that by blast
qed

lemma del_get_live:
  assumes "up s"
  obtains s1 s2 where "del n s = (Inr (), s1)" and "get n s1 = (Inl missing, s2)" and "up s2"
proof -
  obtain s1 where s1: "del n s = (Inr (), s1)" "up s1" using up_del[OF assms] by blast
  obtain s2 where "up s2" "get n s1 = (Inl missing, s2)"
    using up_get[OF s1(2), of n] del_done[OF s1(1)] by auto
  with s1 show ?thesis using that by blast
qed

text \<open>With admitted values a whole run succeeds.\<close>

lemma run_live:
  "up s \<Longrightarrow> \<forall>v. OpPut v \<in> set ops \<longrightarrow> admits v \<Longrightarrow>
     \<exists>s'. run_store put del ops s = (Inr (), s') \<and> up s'"
proof (induction ops arbitrary: s)
  case (Cons op ops)
  have "\<exists>s1. (case op of OpPut v \<Rightarrow> put v s | OpDelete n \<Rightarrow> del n s) = (Inr (), s1) \<and> up s1"
  proof (cases op)
    case (OpPut v)
    with Cons.prems show ?thesis using up_put[of s v] by simp
  next
    case (OpDelete n)
    with Cons.prems show ?thesis using up_del[of s n] by simp
  qed
  then obtain s1 where "(case op of OpPut v \<Rightarrow> put v s | OpDelete n \<Rightarrow> del n s) = (Inr (), s1)" "up s1"
    by blast
  moreover have "\<forall>v. OpPut v \<in> set ops \<longrightarrow> admits v" using Cons.prems(2) by simp
  ultimately show ?case using Cons.IH[of s1] by simp
qed simp

end

end
