(* ===== verification/KubeNamespace.thy ===== *)
theory KubeNamespace
  imports NamedStore
begin

text \<open>
  The objects of one type in one namespace, seen as a map from object names to the messages
  embedded in them: what the collections of \<open>Networking\<close> and \<open>RBAC\<close> keep.
\<close>

fun plain :: "content \<Rightarrow> payload" where
  "plain (Plain p) = p"
| "plain (SecretData _) = PSecret []"

definition named_content ::
    "(payload \<Rightarrow> 'v) \<Rightarrow> gvk \<Rightarrow> ('s \<Rightarrow> objkey \<Rightarrow> stored option) \<Rightarrow> string \<Rightarrow> 's \<Rightarrow> string \<Rightarrow> 'v option" where
  "named_content as t view ns s n = map_option (\<lambda>st. as (plain (snd st))) (view s (t, ns, n))"

lemma named_content_cong: "view s' = view s \<Longrightarrow> named_content as t view ns s' = named_content as t view ns s"
  by (simp add: named_content_def fun_eq_iff)

lemma named_content_update:
  "view s' = (view s)(key_of obj \<mapsto> shown obj) \<Longrightarrow> key_of obj = (t, ns, n) \<Longrightarrow> t \<noteq> SecretT \<Longrightarrow>
     named_content as t view ns s' = (named_content as t view ns s)(n \<mapsto> as (ko_payload obj))"
  by (auto simp: named_content_def fun_eq_iff shown_def key_of_def)

lemma named_content_delete:
  "view s' = (view s)(key_of obj := None) \<Longrightarrow> key_of obj = (t, ns, n) \<Longrightarrow>
     named_content as t view ns s' = (named_content as t view ns s)(n := None)"
  by (auto simp: named_content_def fun_eq_iff)

lemma key_of_named [simp]:
  "key_of \<lparr>ko_type = tm, ko_meta = m\<lparr>om_namespace := ns, om_name := n\<rparr>, ko_payload = p\<rparr>
     = (gvk_of p, ns, n)"
  by (simp add: key_of_def)

locale kube_ns = kube_api +
  fixes ns :: string
  assumes ns_nonempty: "ns \<noteq> []"
begin

lemma put_content:
  "PatchObject cli obj s = (Inr u, s') \<Longrightarrow> key_of obj = (t, ns, n) \<Longrightarrow> t \<noteq> SecretT \<Longrightarrow>
     named_content as t view ns s' = (named_content as t view ns s)(n \<mapsto> as (ko_payload obj))"
  by (rule named_content_update[OF PatchObject_done])

lemma put_content_failed:
  "PatchObject cli obj s = (Inl e, s') \<Longrightarrow> key_of obj = (t, ns, n) \<Longrightarrow> t \<noteq> SecretT \<Longrightarrow>
     named_content as t view ns s' = named_content as t view ns s \<or>
     named_content as t view ns s' = (named_content as t view ns s)(n \<mapsto> as (ko_payload obj))"
  using named_content_update[of view s' s obj t ns n as] named_content_cong[of view s' s as t ns]
    PatchObject_failed by blast

lemma del_content:
  "ignoring_not_found (api_delete cli obj) s = (Inr u, s') \<Longrightarrow> key_of obj = (t, ns, n) \<Longrightarrow>
     named_content as t view ns s' = (named_content as t view ns s)(n := None)"
  by (rule named_content_delete[OF delete_ignored_done])

lemma del_content_failed:
  "ignoring_not_found (api_delete cli obj) s = (Inl e, s') \<Longrightarrow> key_of obj = (t, ns, n) \<Longrightarrow>
     named_content as t view ns s' = named_content as t view ns s \<or>
     named_content as t view ns s' = (named_content as t view ns s)(n := None)"
  using named_content_delete[of view s' s obj t ns n as] named_content_cong[of view s' s as t ns]
    delete_ignored_failed by blast

lemma get_content:
  "api_get cli t ns n s = (Inr obj, s') \<Longrightarrow> t \<noteq> SecretT \<Longrightarrow>
     named_content as t view ns s n = Some (as (ko_payload obj))"
  by (auto dest!: get_found simp: named_content_def shown_def key_of_def)

lemma get_content_absent:
  "api_get cli t ns n s = (Inl e, s') \<Longrightarrow> is_not_found e \<Longrightarrow> named_content as t view ns s n = None"
  by (auto dest!: get_absent simp: named_content_def)

lemma get_content_keeps:
  "api_get cli t ns n s = (r, s') \<Longrightarrow> named_content as t view ns s' = named_content as t view ns s"
  by (rule named_content_cong) (rule get_frame)

lemma list_content_keeps:
  "api_list cli t ns sel s = (r, s') \<Longrightarrow> named_content as t' view ns s' = named_content as t' view ns s"
  by (rule named_content_cong) (rule list_frame)

lemma list_content:
  assumes "api_list cli t ns [] s = (Inr objs, s')" and "t \<noteq> SecretT"
  shows "set (map (\<lambda>obj. as (ko_payload obj)) objs) = ran (named_content as t view ns s)"
    and "length objs = card (dom (named_content as t view ns s))"
    and "finite (dom (named_content as t view ns s))"
proof -
  let ?C = "named_content as t view ns s" and ?name = "\<lambda>obj. om_name (ko_meta obj)"
  have key: "key_of obj = (t, ns, ?name obj) \<and> ?C (?name obj) = Some (as (ko_payload obj))"
    if "obj \<in> set objs" for obj
    using list_sound[OF assms(1) that] ns_nonempty assms(2)
    by (auto simp: selected_def key_of_def named_content_def shown_def)
  have found: "\<exists>obj \<in> set objs. ?name obj = n" if "?C n \<noteq> None" for n
  proof -
    from that obtain lbl c where "view s (t, ns, n) = Some (lbl, c)"
      by (auto simp: named_content_def)
    then have "(t, ns, n) \<in> key_of ` set objs"
      using list_complete[OF assms(1)] by (simp add: in_namespace_def)
    then show ?thesis by (auto simp: key_of_def)
  qed
  have dom: "dom ?C = ?name ` set objs"
    using key found by (auto simp: dom_def)
  have "inj_on ?name (set objs)"
    using key list_distinct[OF assms(1)] by (auto simp: distinct_map inj_on_def)
  then have "distinct (map ?name objs)"
    using list_distinct[OF assms(1)] by (simp add: distinct_map)
  then show "length objs = card (dom ?C)"
    unfolding dom using distinct_card by fastforce
  show "finite (dom ?C)" unfolding dom by simp
  show "set (map (\<lambda>obj. as (ko_payload obj)) objs) = ran ?C"
  proof (intro equalityI subsetI)
    fix x assume "x \<in> set (map (\<lambda>obj. as (ko_payload obj)) objs)"
    then show "x \<in> ran ?C" using key by (auto simp: ran_def)
  next
    fix x assume "x \<in> ran ?C"
    then obtain n where n: "?C n = Some x" by (auto simp: ran_def)
    with found obtain obj where "obj \<in> set objs" "?name obj = n" by blast
    with key n show "x \<in> set (map (\<lambda>obj. as (ko_payload obj)) objs)" by force
  qed
qed

lemma list_content_absent:
  "api_list cli t ns sel s = (Inl e, s') \<Longrightarrow> is_not_found e \<Longrightarrow>
     named_content as t view ns s = Map.empty"
  using list_absent by (auto simp: named_content_def fun_eq_iff)

text \<open>
  Every collection is a server-side apply, a get, a delete and a list of one type of object,
  up to the errors it reports: \<open>w\<close> and \<open>w'\<close> say how a failed get or list is reported.
\<close>

lemma named_storeI:
  assumes put: "\<And>v. put v = PatchObject cli (obj v)"
    and obj: "\<And>v. key_of (obj v) = (t, ns, name v)" "\<And>v. as (ko_payload (obj v)) = v"
    and t: "t \<noteq> SecretT"
    and get: "\<And>n s. get n s = (case api_get cli t ns n s of
        (Inl e, s') \<Rightarrow> (Inl (if is_not_found e then missing else w e), s')
      | (Inr x, s') \<Rightarrow> (Inr (as (ko_payload x)), s'))"
    and w: "\<And>e. from_api e \<Longrightarrow> w e \<noteq> missing"
    and del: "\<And>n. del n = ignoring_not_found (api_delete cli (dobj n))"
    and dobj: "\<And>n. key_of (dobj n) = (t, ns, n)"
    and lst: "\<And>s. lst s = (case api_list cli t ns [] s of
        (Inl e, s') \<Rightarrow> ((if is_not_found e then Inr [] else Inl (w' e)), s')
      | (Inr xs, s') \<Rightarrow> (Inr (map (\<lambda>x. as (ko_payload x)) xs), s'))"
  shows "named_store put get del lst name (named_content as t view ns) missing"
proof (unfold_locales, goal_cases)
  case (1 v s u s') then show ?case
    using put_content[OF _ obj(1) t, of v s u s' as] by (simp add: put obj)
next
  case (2 v s e s') then show ?case
    using put_content_failed[OF _ obj(1) t, of v s e s' as] by (simp add: put obj)
next
  case (3 n s v s') then show ?case
    using get_content[OF _ t, where as = as] by (auto simp: get split: prod.splits sum.splits)
next
  case (4 n s s') then show ?case
    using get_content_absent get_error w
    by (fastforce simp: get split: prod.splits sum.splits if_splits)
next
  case (5 n s r s') then show ?case
    using get_content_keeps by (auto simp: get split: prod.splits sum.splits)
next
  case (6 n s u s') then show ?case
    using del_content[OF _ dobj, of n s u s' as] by (simp add: del)
next
  case (7 n s e s') then show ?case
    using del_content_failed[OF _ dobj, of n s e s' as] by (simp add: del)
next
  case (8 s vs s') then show ?case
    using list_content[OF _ t, where as = as] list_content_absent[where as = as]
    by (auto simp: lst split: prod.splits sum.splits if_splits)
next
  case (9 s rs s') then show ?case
    using list_content_keeps by (auto simp: lst split: prod.splits sum.splits)
qed

end

locale kube_ns_server = kube_server + kube_ns
begin

lemma get_live:
  assumes "up s" and "t \<noteq> SecretT"
  obtains (found) obj s' where "api_get cli t ns n s = (Inr obj, s')" "up s'"
      "named_content as t view ns s n = Some (as (ko_payload obj))"
    | (absent) e s' where "api_get cli t ns n s = (Inl e, s')" "is_not_found e" "up s'"
      "named_content as t view ns s n = None"
proof (cases "view s (t, ns, n)")
  case None
  with up_get_absent[OF assms(1) None] show ?thesis
    using absent get_content_absent by blast
next
  case (Some st)
  with up_get[OF assms(1) Some] show ?thesis
    using found get_content[OF _ assms(2)] by blast
qed

lemma live_storeI:
  assumes store: "named_store put get del lst name (named_content as t view ns) missing"
    and put: "\<And>v. put v = PatchObject cli (obj v)"
    and t: "t \<noteq> SecretT"
    and get: "\<And>n s. get n s = (case api_get cli t ns n s of
        (Inl e, s') \<Rightarrow> (Inl (if is_not_found e then missing else w e), s')
      | (Inr x, s') \<Rightarrow> (Inr (as (ko_payload x)), s'))"
    and del: "\<And>n. del n = ignoring_not_found (api_delete cli (dobj n))"
    and lst: "\<And>s. lst s = (case api_list cli t ns [] s of
        (Inl e, s') \<Rightarrow> ((if is_not_found e then Inr [] else Inl (w' e)), s')
      | (Inr xs, s') \<Rightarrow> (Inr (map (\<lambda>x. as (ko_payload x)) xs), s'))"
  shows "live_store put get del lst name (named_content as t view ns) missing up
     (\<lambda>v. admissible (StripPatchMeta (obj v)))"
proof (intro live_store.intro live_store_axioms.intro store, goal_cases)
  case (1 s v)
  then obtain s' where "PatchObject cli (obj v) s = (Inr (), s')" "up s'"
    by (rule PatchObject_up)
  then show ?case by (auto simp: put)
next
  case (2 s n)
  then show ?case
    by (cases rule: get_live[OF _ t, of s n as]) (auto simp: get)
next
  case (3 s n)
  then obtain s' where "ignoring_not_found (api_delete cli (dobj n)) s = (Inr (), s')" "up s'"
    by (rule delete_ignored_up)
  then show ?case by (auto simp: del)
next
  case (4 s) then show ?case using up_list[of s t ns "[]"] by (auto simp: lst)
qed

end

end
