(* ===== verification/Base64.thy ===== *)
theory Base64
  imports GoStrings
begin

text \<open>
  \<open>base64.RawStdEncoding.EncodeToString\<close>: the standard alphabet, no padding. Three bytes give
  four digits of six bits, two bytes three digits, one byte two digits. The decoder exists
  for the round trip: no two byte strings have the same encoding.
\<close>

definition b64_alphabet :: string where
  "b64_alphabet = ''ABCDEFGHIJKLMNOPQRSTUVWXYZabcdefghijklmnopqrstuvwxyz0123456789+/''"

fun sextets :: "nat list \<Rightarrow> nat list" where
  "sextets [] = []"
| "sextets [a] = [a div 4, (a mod 4) * 16]"
| "sextets [a, b] = [a div 4, (a mod 4) * 16 + b div 16, (b mod 16) * 4]"
| "sextets (a # b # c # xs) =
     [a div 4, (a mod 4) * 16 + b div 16, (b mod 16) * 4 + c div 64, c mod 64] @ sextets xs"

fun unsextets :: "nat list \<Rightarrow> nat list" where
  "unsextets [p, q] = [p * 4 + q div 16]"
| "unsextets [p, q, r] = [p * 4 + q div 16, (q mod 16) * 16 + r div 4]"
| "unsextets (p # q # r # t # xs) =
     [p * 4 + q div 16, (q mod 16) * 16 + r div 4, (r mod 4) * 64 + t] @ unsextets xs"
| "unsextets _ = []"

definition bytes_of :: "string \<Rightarrow> nat list" where
  "bytes_of s = map of_char s"

definition b64_digit :: "nat \<Rightarrow> char" where
  "b64_digit i = b64_alphabet ! i"

definition RawStdEncoding :: "string \<Rightarrow> string" where
  "RawStdEncoding s = map b64_digit (sextets (bytes_of s))"

subsection \<open>Round trip\<close>

lemma bytes_of_bound: "b \<in> set (bytes_of s) \<Longrightarrow> b < 256"
  by (auto simp: bytes_of_def)

lemma bytes_of_inj: "bytes_of s = bytes_of t \<longleftrightarrow> s = t"
proof -
  have "inj (of_char :: char \<Rightarrow> nat)"
    by (auto simp: inj_def)
  then show ?thesis by (simp add: bytes_of_def inj_map_eq_map)
qed

lemma unsextets_sextets: "\<forall>b \<in> set bs. b < 256 \<Longrightarrow> unsextets (sextets bs) = bs"
proof (induction bs rule: sextets.induct)
  case (4 a b c xs)
  then have "c div 64 < 4" "b div 16 < 16" by auto
  moreover have "(b mod 16) * 4 + c div 64 < 64" and "(a mod 4) * 16 + b div 16 < 64"
    using calculation by auto
  ultimately show ?case using 4 by simp
qed auto

lemma sextets_bound: "\<forall>b \<in> set bs. b < 256 \<Longrightarrow> q \<in> set (sextets bs) \<Longrightarrow> q < 64"
proof (induction bs rule: sextets.induct)
  case (4 a b c xs)
  then have "a div 4 < 64" "c div 64 < 4" "b div 16 < 16" by auto
  then show ?case using 4 by auto
qed auto

lemma b64_alphabet_distinct: "distinct b64_alphabet" and b64_alphabet_length: "length b64_alphabet = 64"
  by (simp_all add: b64_alphabet_def)

lemma b64_digit_inj: "inj_on b64_digit {..<64}"
  using b64_alphabet_distinct b64_alphabet_length
  by (auto simp: inj_on_def b64_digit_def nth_eq_iff_index_eq)

lemma RawStdEncoding_inject [simp]: "RawStdEncoding s = RawStdEncoding t \<longleftrightarrow> s = t"
proof
  assume "RawStdEncoding s = RawStdEncoding t"
  moreover have "inj_on b64_digit (set (sextets (bytes_of s)) \<union> set (sextets (bytes_of t)))"
    by (rule inj_on_subset[OF b64_digit_inj]) (auto intro: sextets_bound bytes_of_bound)
  ultimately have "sextets (bytes_of s) = sextets (bytes_of t)"
    by (simp add: RawStdEncoding_def map_inj_on)
  then have "bytes_of s = bytes_of t"
    by (metis unsextets_sextets bytes_of_bound)
  then show "s = t" by (simp add: bytes_of_inj)
qed simp

subsection \<open>Length and characters\<close>

lemma length_sextets: "length (sextets bs) = (4 * length bs + 2) div 3"
  by (induction bs rule: sextets.induct) (auto simp: algebra_simps)

lemma length_RawStdEncoding: "length (RawStdEncoding s) = (4 * length s + 2) div 3"
  by (simp add: RawStdEncoding_def length_sextets bytes_of_def)

definition is_alnum :: "char \<Rightarrow> bool" where
  "is_alnum c \<longleftrightarrow> (let n = of_char c :: nat in
     48 \<le> n \<and> n \<le> 57 \<or> 65 \<le> n \<and> n \<le> 90 \<or> 97 \<le> n \<and> n \<le> 122)"

lemma b64_digit_alnum: "i < 62 \<Longrightarrow> is_alnum (b64_digit i)"
proof -
  have "\<forall>c \<in> set (take 62 b64_alphabet). is_alnum c"
    by (simp add: b64_alphabet_def is_alnum_def)
  moreover assume "i < 62"
  then have "b64_digit i \<in> set (take 62 b64_alphabet)"
    by (simp add: b64_digit_def in_set_conv_nth b64_alphabet_length) (metis nth_take)
  ultimately show ?thesis by blast
qed

text \<open>
  The digits 62 and 63 (\<open>+\<close> and \<open>/\<close>) need six set bits in a row: no byte below 128 gives them
  except in the last place of a group, where the low six bits of the byte are 62 or 63.
\<close>

definition b64_plain :: "nat \<Rightarrow> bool" where
  "b64_plain b \<longleftrightarrow> b < 128 \<and> b mod 64 < 62"

lemma b64_plain_bounds:
  assumes "b64_plain b"
  shows "b div 4 < 62" "b div 16 < 8" "b div 64 < 2" "b mod 64 < 62"
  using assms by (auto simp: b64_plain_def)

lemma b64_mid_bounds:
  "y < 8 \<Longrightarrow> (x mod 4) * 16 + y < (62::nat)"
  "z < 2 \<Longrightarrow> (x mod 16) * 4 + z < (62::nat)"
proof -
  have "x mod 4 \<le> 3" "x mod 16 \<le> 15" by simp_all
  then show "y < 8 \<Longrightarrow> (x mod 4) * 16 + y < 62" "z < 2 \<Longrightarrow> (x mod 16) * 4 + z < 62"
    by linarith+
qed

lemma sextets_plain: "\<forall>b \<in> set bs. b64_plain b \<Longrightarrow> q \<in> set (sextets bs) \<Longrightarrow> q < 62"
proof (induction bs rule: sextets.induct)
  case (4 a b c xs)
  then show ?case
    using b64_plain_bounds[of a] b64_plain_bounds[of b] b64_plain_bounds[of c]
      b64_mid_bounds(1)[of "b div 16" a] b64_mid_bounds(2)[of "c div 64" b]
    by (simp only: sextets.simps set_append list.set Un_iff insert_iff empty_iff ball_simps) blast
next
  case (3 a b)
  then show ?case
    using b64_plain_bounds[of a] b64_plain_bounds[of b]
      b64_mid_bounds(1)[of "b div 16" a] b64_mid_bounds(2)[of 0 b]
    by (simp only: sextets.simps list.set insert_iff empty_iff ball_simps add_0_right) force
next
  case (2 a)
  then show ?case
    using b64_plain_bounds[of a] b64_mid_bounds(1)[of 0 a] by auto
qed simp

lemma RawStdEncoding_alnum:
  assumes "\<forall>b \<in> set (bytes_of s). b64_plain b" and "c \<in> set (RawStdEncoding s)"
  shows "is_alnum c"
  using assms by (auto simp: RawStdEncoding_def intro: b64_digit_alnum sextets_plain)

end
