(* ===== verification/KubeNames.thy ===== *)
theory KubeNames
  imports KubeApi Base64
begin

text \<open>
  The documented syntax of names in the Kubernetes API: label values, object names (RFC 1123
  subdomains) and the keys of a Secret's data. The code derives names, labels and data keys
  from ids, addresses and keys of its own, and has to stay inside this syntax for the server
  to accept them.
\<close>

definition is_lower_alnum :: "char \<Rightarrow> bool" where
  "is_lower_alnum c \<longleftrightarrow> is_alnum c \<and> \<not> is_upper c"

definition valid_label_value :: "string \<Rightarrow> bool" where
  "valid_label_value s \<longleftrightarrow> length s \<le> 63 \<and>
     (s = [] \<or> is_alnum (hd s) \<and> is_alnum (last s)
        \<and> (\<forall>c \<in> set s. is_alnum c \<or> c \<in> set ''-_.''))"

definition dns1123_part :: "string \<Rightarrow> bool" where
  "dns1123_part s \<longleftrightarrow> s \<noteq> [] \<and> is_lower_alnum (hd s) \<and> is_lower_alnum (last s)
     \<and> (\<forall>c \<in> set s. is_lower_alnum c \<or> c = CHR ''-'')"

definition dns1123_subdomain :: "string \<Rightarrow> bool" where
  "dns1123_subdomain s \<longleftrightarrow> length s \<le> 253 \<and> (\<forall>p \<in> set (split_at CHR ''.'' s). dns1123_part p)"

definition valid_data_key :: "string \<Rightarrow> bool" where
  "valid_data_key s \<longleftrightarrow> s \<noteq> [] \<and> length s \<le> 253 \<and> s \<noteq> ''.'' \<and> \<not> HasPrefix s ''..''
     \<and> (\<forall>c \<in> set s. is_alnum c \<or> c \<in> set ''-_.'')"

text \<open>A name contains only lower-case letters, digits, dashes and dots.\<close>

lemma dns1123_subdomain_chars:
  assumes "dns1123_subdomain s" and "c \<in> set s"
  shows "is_lower_alnum c \<or> c = CHR ''-'' \<or> c = CHR ''.''"
proof -
  have "c \<in> set (join_with CHR ''.'' (split_at CHR ''.'' s))" using assms(2) by simp
  then have "c = CHR ''.'' \<or> (\<exists>p \<in> set (split_at CHR ''.'' s). c \<in> set p)"
    using set_join_with by fastforce
  with assms(1) show ?thesis by (auto simp: dns1123_subdomain_def dns1123_part_def)
qed

lemma dns1123_subdomainI:
  assumes "s \<noteq> []" "length s \<le> 253" "\<forall>c \<in> set s. is_lower_alnum c"
  shows "dns1123_subdomain s"
proof -
  have "CHR ''.'' \<notin> set s"
    using assms(3) by (auto simp: is_lower_alnum_def is_alnum_def)
  then have "split_at CHR ''.'' s = [s]" by (rule split_at_free)
  moreover have "dns1123_part s"
    using assms(1,3) by (auto simp: dns1123_part_def)
  ultimately show ?thesis using assms(2) by (simp add: dns1123_subdomain_def)
qed

lemma valid_label_valueI:
  "length s \<le> 63 \<Longrightarrow> \<forall>c \<in> set s. is_alnum c \<Longrightarrow> valid_label_value s"
  by (cases "s = []") (auto simp: valid_label_value_def)

lemma valid_data_keyI:
  assumes "s \<noteq> []" "length s \<le> 253" "\<forall>c \<in> set s. is_alnum c"
  shows "valid_data_key s"
proof -
  have "CHR ''.'' \<notin> set s" using assms(3) by (auto simp: is_alnum_def)
  then have "s \<noteq> ''.''" "\<not> HasPrefix s ''..''"
    by (auto simp: HasPrefix_def prefix_def)
  with assms show ?thesis by (simp add: valid_data_key_def)
qed

end
