(* ===== verification/MemApi.thy ===== *)
theory MemApi
  imports KubeNamespace KubeNames "HOL-Library.DAList"
begin

text \<open>
  A concrete API server that meets the contract of \<open>KubeApi\<close>, to show that the contract can be
  met and to run the program on: objects under distinct keys, validation of what is applied,
  and a script of failures. Each call consumes the next entry of the script: \<open>Some r\<close> makes the
  call fail with the reason \<open>r\<close>, \<open>None\<close> or an empty script lets it through. Like the typed,
  uncached client of controller-runtime, \<open>Get\<close> and \<open>List\<close> return objects without a type meta.
\<close>

record mem_state =
  mem_store :: "(objkey, (string \<rightharpoonup> string) \<times> payload) alist"
  mem_faults :: "string option list"
  mem_rev :: nat

definition mem_init :: mem_state where
  "mem_init = \<lparr>mem_store = DAList.empty, mem_faults = [], mem_rev = 0\<rparr>"

definition fault_of :: "mem_state \<Rightarrow> string option" where
  "fault_of s = (case mem_faults s of [] \<Rightarrow> None | f # _ \<Rightarrow> f)"

definition tick :: "mem_state \<Rightarrow> mem_state" where
  "tick s = s\<lparr>mem_faults := tl (mem_faults s), mem_rev := Suc (mem_rev s)\<rparr>"

definition mem_call :: "(mem_state \<Rightarrow> (goerr + 'a) \<times> mem_state) \<Rightarrow> mem_state \<Rightarrow> (goerr + 'a) \<times> mem_state" where
  "mem_call f s =
     (case fault_of s of
        Some r \<Rightarrow> (Inl (ApiStatus (OtherReason r)), tick s)
      | None \<Rightarrow> f (tick s))"

fun clear_dups :: "payload \<Rightarrow> payload" where
  "clear_dups (PSecret d) = PSecret (AList.clearjunk d)"
| "clear_dups p = p"

definition mem_object :: "objkey \<Rightarrow> (string \<rightharpoonup> string) \<times> payload \<Rightarrow> kobject" where
  "mem_object k v =
     \<lparr>ko_type = zero_type_meta,
      ko_meta = zero_object_meta\<lparr>om_namespace := fst (snd k), om_name := snd (snd k),
                  om_labels := fst v, om_resourceVersion := ''1'', om_uid := ''uid'',
                  om_generation := 1, om_managedFields := [FieldOwner]\<rparr>,
      ko_payload = clear_dups (snd v)\<rparr>"

definition mem_lookup :: "mem_state \<Rightarrow> objkey \<Rightarrow> ((string \<rightharpoonup> string) \<times> payload) option" where
  "mem_lookup s k =
     (case DAList.lookup (mem_store s) k of
        Some v \<Rightarrow> if gvk_of (snd v) = fst k then Some v else None
      | None \<Rightarrow> None)"

definition mem_view :: "mem_state \<Rightarrow> objkey \<Rightarrow> stored option" where
  "mem_view s k = map_option (\<lambda>v. (fst v, content_of (snd v))) (mem_lookup s k)"

definition mem_admits :: "kobject \<Rightarrow> bool" where
  "mem_admits obj \<longleftrightarrow> tm_apiVersion (ko_type obj) \<noteq> [] \<and> tm_kind (ko_type obj) \<noteq> []
     \<and> dns1123_subdomain (om_name (ko_meta obj))
     \<and> (\<forall>k \<in> fst ` set (as_secret (ko_payload obj)). valid_data_key k)"

definition mem_get :: "gvk \<Rightarrow> string \<Rightarrow> string \<Rightarrow> (mem_state, kobject) act" where
  "mem_get t ns n = mem_call (\<lambda>s.
     (case mem_lookup s (t, ns, n) of
        None \<Rightarrow> (Inl (ApiStatus NotFound), s)
      | Some v \<Rightarrow> (Inr (mem_object (t, ns, n) v), s)))"

definition mem_list :: "gvk \<Rightarrow> string \<Rightarrow> (string \<times> string) list \<Rightarrow> (mem_state, kobject list) act" where
  "mem_list t ns sel = mem_call (\<lambda>s.
     (Inr (map (\<lambda>(k, v). mem_object k v)
             (filter (\<lambda>(k, v). fst k = t \<and> gvk_of (snd v) = t \<and> in_namespace ns (fst (snd k))
                         \<and> matching_labels sel (fst v))
               (DAList.impl_of (mem_store s)))), s))"

definition mem_patch :: "kobject \<Rightarrow> patch_option list \<Rightarrow> (mem_state, unit) act" where
  "mem_patch obj opts = mem_call (\<lambda>s.
     (if mem_admits obj
      then (Inr (), s\<lparr>mem_store := DAList.update (key_of obj)
                       (om_labels (ko_meta obj), ko_payload obj) (mem_store s)\<rparr>)
      else (Inl (ApiStatus (OtherReason ''Invalid'')), s)))"

definition mem_delete :: "kobject \<Rightarrow> (mem_state, unit) act" where
  "mem_delete obj = mem_call (\<lambda>s.
     (case mem_lookup s (key_of obj) of
        None \<Rightarrow> (Inl (ApiStatus NotFound), s)
      | Some _ \<Rightarrow> (Inr (), s\<lparr>mem_store := DAList.delete (key_of obj) (mem_store s)\<rparr>)))"

definition mem_client :: "mem_state client" where
  "mem_client = \<lparr>api_get = mem_get, api_list = mem_list, api_patch = mem_patch, api_delete = mem_delete\<rparr>"

definition mem_up :: "mem_state \<Rightarrow> bool" where
  "mem_up s \<longleftrightarrow> mem_faults s = []"

lemmas mem_ops = mem_client_def mem_get_def mem_list_def mem_patch_def mem_delete_def mem_call_def

subsection \<open>The contract\<close>

lemma mem_lookup_tick [simp]: "mem_lookup (tick s) = mem_lookup s"
  by (simp add: mem_lookup_def tick_def fun_eq_iff)

lemma mem_view_tick [simp]: "mem_view (tick s) = mem_view s"
  by (simp add: mem_view_def fun_eq_iff)

lemma mem_store_tick [simp]: "mem_store (tick s) = mem_store s"
  by (simp add: tick_def)

lemma mem_up_simps [simp]:
  "mem_up s \<Longrightarrow> mem_up (tick s)" "mem_up s \<Longrightarrow> fault_of s = None"
  "mem_up (s\<lparr>mem_store := x\<rparr>) = mem_up s"
  by (simp_all add: mem_up_def tick_def fault_of_def)

lemma content_of_clear_dups [simp]: "content_of (clear_dups p) = content_of p"
  by (cases p) (auto simp: map_of_clearjunk)

lemma gvk_of_clear_dups [simp]: "gvk_of (clear_dups p) = gvk_of p"
  by (cases p) auto

lemma data_distinct_clear_dups [simp]: "data_distinct (clear_dups p)"
  by (cases p) (auto simp: distinct_clearjunk)

lemma shown_mem_object [simp]: "shown (mem_object k v) = (fst v, content_of (snd v))"
  by (simp add: shown_def mem_object_def)

lemma key_of_mem_object: "gvk_of (snd v) = fst k \<Longrightarrow> key_of (mem_object k v) = k"
  by (cases k) (simp add: key_of_def mem_object_def)

lemma mem_lookup_impl_of:
  "mem_lookup s k = Some v \<longleftrightarrow> (k, v) \<in> set (DAList.impl_of (mem_store s)) \<and> gvk_of (snd v) = fst k"
proof -
  have "distinct (map fst (DAList.impl_of (mem_store s)))"
    using DAList.impl_of by simp
  then have *: "(k, v) \<in> set (DAList.impl_of (mem_store s)) \<longleftrightarrow> DAList.lookup (mem_store s) k = Some v"
    for v by (simp add: DAList.lookup_def)
  show ?thesis
    unfolding * by (auto simp: mem_lookup_def split: option.splits)
qed

lemma mem_view_update:
  "mem_view (s\<lparr>mem_store := DAList.update (key_of obj) (om_labels (ko_meta obj), ko_payload obj) (mem_store s)\<rparr>)
   = (mem_view s)(key_of obj \<mapsto> shown obj)"
  by (auto simp: mem_view_def mem_lookup_def shown_def key_of_def fun_eq_iff)

lemma mem_view_delete:
  "mem_view (s\<lparr>mem_store := DAList.delete k (mem_store s)\<rparr>) = (mem_view s)(k := None)"
  by (auto simp: mem_view_def mem_lookup_def lookup_delete fun_eq_iff)

lemma mem_list_elem:
  assumes "mem_list t ns sel s = (Inr objs, s')"
  shows "obj \<in> set objs \<longleftrightarrow> (\<exists>k v. mem_lookup s k = Some v \<and> fst k = t \<and> obj = mem_object k v
     \<and> in_namespace ns (fst (snd k)) \<and> matching_labels sel (fst v))"
proof -
  have objs: "objs = map (\<lambda>(k, v). mem_object k v)
      (filter (\<lambda>(k, v). fst k = t \<and> gvk_of (snd v) = t \<and> in_namespace ns (fst (snd k))
                  \<and> matching_labels sel (fst v)) (DAList.impl_of (mem_store s)))"
    using assms by (auto simp: mem_list_def mem_call_def split: option.splits)
  have "obj \<in> set objs \<longleftrightarrow> (\<exists>k v. (k, v) \<in> set (DAList.impl_of (mem_store s)) \<and> fst k = t
      \<and> gvk_of (snd v) = t \<and> in_namespace ns (fst (snd k)) \<and> matching_labels sel (fst v)
      \<and> obj = mem_object k v)"
    unfolding objs by force
  also have "\<dots> \<longleftrightarrow> (\<exists>k v. mem_lookup s k = Some v \<and> fst k = t \<and> obj = mem_object k v
     \<and> in_namespace ns (fst (snd k)) \<and> matching_labels sel (fst v))"
    by (intro iff_exI) (auto simp: mem_lookup_impl_of)
  finally show ?thesis .
qed

lemma mem_list_distinct:
  assumes "mem_list t ns sel s = (Inr objs, s')"
  shows "distinct (map key_of objs)"
proof -
  let ?al = "filter (\<lambda>(k, v). fst k = t \<and> gvk_of (snd v) = t \<and> in_namespace ns (fst (snd k))
                         \<and> matching_labels sel (fst v)) (DAList.impl_of (mem_store s))"
  have objs: "objs = map (\<lambda>(k, v). mem_object k v) ?al"
    using assms by (auto simp: mem_list_def mem_call_def split: option.splits)
  have "map key_of objs = map fst ?al"
    unfolding objs by (auto simp: key_of_mem_object)
  moreover have "distinct (map fst (DAList.impl_of (mem_store s)))"
    using DAList.impl_of by simp
  ultimately show ?thesis by (simp add: distinct_map_filter)
qed

lemma mem_list_err:
  assumes "mem_list t ns sel s = (Inl e, s')"
  shows "from_api e \<and> \<not> is_not_found e"
  using assms by (auto simp: mem_list_def mem_call_def split: option.splits)

interpretation mem: kube_server mem_client mem_view mem_up mem_admits
proof (unfold_locales, goal_cases)
  case 1 then show ?case
    by (auto simp: mem_ops split: option.splits)
next
  case (2 t ns n s obj s')
  then obtain v where v: "mem_lookup s (t, ns, n) = Some v" "obj = mem_object (t, ns, n) v"
    by (auto simp: mem_ops split: option.splits)
  then have "gvk_of (snd v) = t" by (simp add: mem_lookup_impl_of)
  with v show ?case
    by (simp add: key_of_mem_object mem_view_def) (simp add: mem_object_def)
next
  case 3 then show ?case by (auto simp: mem_ops mem_view_def split: option.splits)
next
  case 4 then show ?case by (auto simp: mem_ops split: option.splits)
next
  case 5 then show ?case by (auto simp: mem_ops split: option.splits)
next
  case (6 t ns sel s objs s' obj)
  then obtain k v where kv: "mem_lookup s k = Some v" "fst k = t" "obj = mem_object k v"
    "in_namespace ns (fst (snd k))" "matching_labels sel (fst v)"
    using mem_list_elem[of t ns sel s objs s' obj] by (auto simp: mem_client_def)
  then have g: "gvk_of (snd v) = fst k" by (simp add: mem_lookup_impl_of)
  then have "key_of obj = k" using kv by (simp add: key_of_mem_object)
  with kv g show ?case
    by (simp add: mem_view_def) (simp add: selected_def mem_object_def zero_object_meta_def)
next
  case (7 t ns sel s objs s' ns' n lbl c)
  then obtain v where v: "mem_lookup s (t, ns', n) = Some v" "fst v = lbl"
    by (auto simp: mem_view_def)
  from 7(1) have "mem_list t ns sel s = (Inr objs, s')" by (simp add: mem_client_def)
  then have "mem_object (t, ns', n) v \<in> set objs"
    by (subst mem_list_elem, assumption)
      (intro exI[of _ "(t, ns', n)"] exI[of _ v], simp add: v 7)
  moreover have "key_of (mem_object (t, ns', n) v) = (t, ns', n)"
    using v by (simp add: key_of_mem_object mem_lookup_impl_of)
  ultimately show ?case by force
next
  case 8 then show ?case by (simp add: mem_client_def mem_list_distinct)
next
  case 9 then show ?case by (auto simp: mem_client_def dest: mem_list_err)
next
  case 10 then show ?case by (auto simp: mem_client_def dest: mem_list_err)
next
  case (11 obj s s')
  then have "s' = (tick s)\<lparr>mem_store := DAList.update (key_of obj)
      (om_labels (ko_meta obj), ko_payload obj) (mem_store (tick s))\<rparr>"
    by (simp add: mem_ops split: option.splits if_splits)
  then show ?case by (simp only: mem_view_update mem_view_tick)
next
  case 12 then show ?case by (auto simp: mem_ops split: option.splits if_splits)
next
  case (13 obj s s')
  then have "s' = (tick s)\<lparr>mem_store := DAList.delete (key_of obj) (mem_store (tick s))\<rparr>"
    by (simp add: mem_ops split: option.splits)
  then show ?case by (simp only: mem_view_delete mem_view_tick)
next
  case 14 then show ?case by (auto simp: mem_ops mem_view_def split: option.splits)
next
  case 15 then show ?case by (auto simp: mem_ops split: option.splits)
next
  case 16 then show ?case by (auto simp: mem_ops mem_view_def)
next
  case 17 then show ?case by (auto simp: mem_ops mem_view_def)
next
  case 18 then show ?case by (auto simp: mem_ops)
next
  case 19 then show ?case by (auto simp: mem_ops)
next
  case 20 then show ?case by (auto simp: mem_ops mem_view_def)
next
  case 21 then show ?case by (auto simp: mem_ops mem_view_def)
qed

interpretation mem_ns: kube_ns_server mem_client mem_view mem_up mem_admits "''default''"
  by unfold_locales simp

lemmas mem_kube_ns_server = mem_ns.kube_ns_server_axioms
lemmas mem_kube_ns = mem_ns.kube_ns_axioms

lemma mem_up_init [simp]: "mem_up mem_init"
  by (simp add: mem_up_def mem_init_def)

lemma mem_view_init [simp]: "mem_view mem_init = Map.empty"
  by (simp add: mem_view_def mem_lookup_def mem_init_def fun_eq_iff DAList.lookup_empty)

end
