(* ===== verification/Storage.thy ===== *)
theory Storage
  imports MemApi
begin

text \<open>
  \<open>provider/storage.go\<close>: the key-value store. The keys are kept in Secrets, one per \<^emph>\<open>bucket\<close>;
  the bucket of a key is the path before its last slash, joined with underscores and, for the
  name of the Secret, in lower case. Inside a bucket an entry is found under the base64 text
  of the whole key, and holds the gob encoding of the key, the value and the expiry time.

  Parameters of the model: the gob codec, webmesh's \<open>types.IsValidPathID\<close>, the clock and the
  leader elector of client-go. A point in time is a number of nanoseconds, the zero
  \<open>time.Time\<close> is 0. The elector is nil for a node that does not take part in the election,
  and calling it then panics. The mutex of the store makes every operation atomic; the
  goroutine that \<open>GetValue\<close> starts is a separate operation.
\<close>

definition MeshStorageLabel :: string where
  "MeshStorageLabel = ''webmesh.io/storage''"

definition BucketLabel :: string where
  "BucketLabel = ''webmesh.io/storage-bucket''"

record data_item =
  item_Key :: string
  item_Value :: string
  item_Expiry :: int

record 's storage =
  st_cli :: "'s client"
  st_Namespace :: string
  st_leaders :: "('s \<Rightarrow> bool \<times> 's) option"
  st_now :: "'s \<Rightarrow> int \<times> 's"
  st_Marshal :: "data_item \<Rightarrow> goerr + string"
  st_Unmarshal :: "string \<Rightarrow> goerr + data_item"
  st_IsValidPathID :: "string \<Rightarrow> bool"

subsection \<open>Buckets and hashes\<close>

text \<open>\<open>strings.Split\<close> never returns an empty slice for a separator that is not empty.\<close>

definition rawBucketForKey :: "string \<Rightarrow> string" where
  "rawBucketForKey key =
     (let spl = split_at CHR ''/'' key
      in if length spl = 0 then []
         else if length spl = 1 then spl ! 0
         else join_with CHR ''_'' (take (length spl - 1) spl))"

definition bucketForKey :: "string \<Rightarrow> string" where
  "bucketForKey key = ToLower (rawBucketForKey key)"

definition hashKey :: "string \<Rightarrow> string" where
  "hashKey key = RawStdEncoding key"

subsection \<open>Buckets on the server\<close>

definition SecretTypeMeta :: type_meta where
  "SecretTypeMeta = \<lparr>tm_apiVersion = ''v1'', tm_kind = ''Secret''\<rparr>"

definition bucket_labels :: "string \<Rightarrow> (string \<rightharpoonup> string)" where
  "bucket_labels rawBucketName = [MeshStorageLabel \<mapsto> ''true'', BucketLabel \<mapsto> rawBucketName]"

text \<open>A bucket that became empty is deleted, and then applied all the same.\<close>

definition patchBucket :: "'s storage \<Rightarrow> kobject \<Rightarrow> string \<Rightarrow> ('s, unit) act" where
  "patchBucket st bucket rawBucketName s =
     (let bucket' = bucket\<lparr>ko_type := SecretTypeMeta,
                           ko_meta := (ko_meta bucket)\<lparr>om_labels := bucket_labels rawBucketName\<rparr>\<rparr>
      in if length (as_secret (ko_payload bucket)) = 0 then
           (case api_delete (st_cli st) bucket s of
              (Inl err, s') \<Rightarrow>
                (if IgnoreNotFound err \<noteq> None then (Inl (Wrap ''delete bucket secret'' err), s')
                 else PatchObject (st_cli st) bucket' s')
            | (Inr _, s') \<Rightarrow> PatchObject (st_cli st) bucket' s')
         else PatchObject (st_cli st) bucket' s)"

text \<open>The list of all storage secrets: the code names no namespace.\<close>

definition bucketsForPrefix :: "'s storage \<Rightarrow> string \<Rightarrow> ('s, kobject list) act" where
  "bucketsForPrefix st pfx s =
     (case api_list (st_cli st) SecretT [] [(MeshStorageLabel, ''true'')] s of
        (Inl err, s') \<Rightarrow> (Inl err, s')
      | (Inr items, s') \<Rightarrow>
          (Inr (filter (\<lambda>b. if length pfx = 0 then True
                  else HasPrefix (case om_labels (ko_meta b) BucketLabel of None \<Rightarrow> [] | Some l \<Rightarrow> l)
                         (rawBucketForKey pfx)) items), s'))"

subsection \<open>The leader and the clock\<close>

text \<open>\<open>st.leaders.IsLeader()\<close>; \<open>NilDereference\<close> is the panic on a nil elector.\<close>

definition IsLeading :: "'s storage \<Rightarrow> ('s, bool) act" where
  "IsLeading st s =
     (case st_leaders st of
        None \<Rightarrow> (Inl NilDereference, s)
      | Some elector \<Rightarrow> (case elector s of (b, s') \<Rightarrow> (Inr b, s')))"

text \<open>\<open>!item.Expiry.IsZero() && item.Expiry.Before(time.Now().UTC())\<close>.\<close>

definition expired :: "'s storage \<Rightarrow> data_item \<Rightarrow> 's \<Rightarrow> bool \<times> 's" where
  "expired st item s =
     (if item_Expiry item = 0 then (False, s)
      else (case st_now st s of (now, s') \<Rightarrow> (item_Expiry item < now, s')))"

subsection \<open>GetValue\<close>

text \<open>
  What a get of an expired key starts on the leader: a goroutine with the Secret as it was
  read, and the key.
\<close>

record expired_delete =
  ed_secret :: kobject
  ed_key :: string

definition remove_entry :: "kobject \<Rightarrow> string \<Rightarrow> kobject" where
  "remove_entry secret keyHash =
     secret\<lparr>ko_payload := PSecret (AList.delete keyHash (as_secret (ko_payload secret)))\<rparr>"

definition GetValue ::
    "'s storage \<Rightarrow> string \<Rightarrow> 's \<Rightarrow> (goerr + string) \<times> expired_delete option \<times> 's" where
  "GetValue st key s =
     (if \<not> st_IsValidPathID st key then (Inl ErrInvalidKey, None, s)
      else
        (case api_get (st_cli st) SecretT (st_Namespace st) (bucketForKey key) s of
           (Inl err, s1) \<Rightarrow>
             (if IgnoreNotFound err = None then (Inl (ErrKeyNotFound key), None, s1)
              else (Inl err, None, s1))
         | (Inr secret, s1) \<Rightarrow>
             (case map_of (as_secret (ko_payload secret)) (hashKey key) of
                None \<Rightarrow> (Inl (ErrKeyNotFound key), None, s1)
              | Some data \<Rightarrow>
                  (case st_Unmarshal st data of
                     Inl err \<Rightarrow> (Inl (Wrap ''unmarshal data item'' err), None, s1)
                   | Inr item \<Rightarrow>
                       (case expired st item s1 of
                          (True, s2) \<Rightarrow>
                            (case IsLeading st s2 of
                               (Inl panic, s3) \<Rightarrow> (Inl panic, None, s3)
                             | (Inr True, s3) \<Rightarrow>
                                 (Inl (ErrKeyNotFound key), Some \<lparr>ed_secret = secret, ed_key = key\<rparr>, s3)
                             | (Inr False, s3) \<Rightarrow> (Inl (ErrKeyNotFound key), None, s3))
                        | (False, s2) \<Rightarrow>
                            (if length (item_Value item) = 0 then (Inl (ErrKeyNotFound key), None, s2)
                             else (Inr (item_Value item), None, s2)))))))"

text \<open>The goroutine, once it has the mutex; an error is only logged.\<close>

definition run_expired_delete :: "'s storage \<Rightarrow> expired_delete \<Rightarrow> 's \<Rightarrow> 's" where
  "run_expired_delete st ed s =
     snd (patchBucket st (remove_entry (ed_secret ed) (hashKey (ed_key ed)))
            (rawBucketForKey (ed_key ed)) s)"

subsection \<open>PutValue and Delete\<close>

definition new_bucket :: "string \<Rightarrow> string \<Rightarrow> kobject" where
  "new_bucket namespace key =
     \<lparr>ko_type = zero_type_meta,
      ko_meta = zero_object_meta\<lparr>om_namespace := namespace, om_name := bucketForKey key,
                                 om_labels := bucket_labels (rawBucketForKey key)\<rparr>,
      ko_payload = PSecret []\<rparr>"

definition store_entry :: "kobject \<Rightarrow> string \<Rightarrow> string \<Rightarrow> kobject" where
  "store_entry secret keyHash data =
     secret\<lparr>ko_payload := PSecret (AList.update keyHash data (as_secret (ko_payload secret)))\<rparr>"

definition expiry_of :: "'s storage \<Rightarrow> int \<Rightarrow> 's \<Rightarrow> int \<times> 's" where
  "expiry_of st ttl s =
     (if ttl = 0 then (0, s) else (case st_now st s of (now, s') \<Rightarrow> (now + ttl, s')))"

text \<open>The part of \<open>PutValue\<close> after the bucket was read or prepared.\<close>

definition put_entry :: "'s storage \<Rightarrow> string \<Rightarrow> string \<Rightarrow> int \<Rightarrow> kobject \<Rightarrow> ('s, unit) act" where
  "put_entry st key val ttl secret s =
     (case expiry_of st ttl s of
        (expiry, s') \<Rightarrow>
          (case st_Marshal st \<lparr>item_Key = key, item_Value = val, item_Expiry = expiry\<rparr> of
             Inl err \<Rightarrow> (Inl (Wrap ''marshal data item'' err), s')
           | Inr data \<Rightarrow> patchBucket st (store_entry secret (hashKey key) data) (rawBucketForKey key) s'))"

definition PutValue :: "'s storage \<Rightarrow> string \<Rightarrow> string \<Rightarrow> int \<Rightarrow> ('s, unit) act" where
  "PutValue st key val ttl s =
     (if \<not> st_IsValidPathID st key then (Inl ErrInvalidKey, s)
      else
        (case IsLeading st s of
           (Inl panic, s1) \<Rightarrow> (Inl panic, s1)
         | (Inr False, s1) \<Rightarrow> (Inl ErrNotLeader, s1)
         | (Inr True, s1) \<Rightarrow>
             (case api_get (st_cli st) SecretT (st_Namespace st) (bucketForKey key) s1 of
                (Inl err, s2) \<Rightarrow>
                  (if IgnoreNotFound err \<noteq> None then (Inl err, s2)
                   else put_entry st key val ttl (new_bucket (st_Namespace st) key) s2)
              | (Inr secret, s2) \<Rightarrow> put_entry st key val ttl secret s2)))"

definition DeleteKey :: "'s storage \<Rightarrow> string \<Rightarrow> ('s, unit) act" where
  "DeleteKey st key s =
     (if \<not> st_IsValidPathID st key then (Inl ErrInvalidKey, s)
      else
        (case IsLeading st s of
           (Inl panic, s1) \<Rightarrow> (Inl panic, s1)
         | (Inr False, s1) \<Rightarrow> (Inl ErrNotLeader, s1)
         | (Inr True, s1) \<Rightarrow>
             (case api_get (st_cli st) SecretT (st_Namespace st) (bucketForKey key) s1 of
                (Inl err, s2) \<Rightarrow>
                  (if IgnoreNotFound err = None then (Inl (ErrKeyNotFound key), s2) else (Inl err, s2))
              | (Inr secret, s2) \<Rightarrow>
                  patchBucket st (remove_entry secret (hashKey key)) (rawBucketForKey key) s2)))"

subsection \<open>ListKeys and IterPrefix\<close>

fun list_items :: "'s storage \<Rightarrow> string \<Rightarrow> string list \<Rightarrow> string list \<Rightarrow> ('s, string list) act" where
  "list_items st pfx [] keys s = (Inr keys, s)"
| "list_items st pfx (val # vals) keys s =
     (case st_Unmarshal st val of
        Inl err \<Rightarrow> (Inl (Wrap ''unmarshal data item'' err), s)
      | Inr item \<Rightarrow>
          (if \<not> HasPrefix (item_Key item) pfx then list_items st pfx vals keys s
           else (case expired st item s of
                   (True, s') \<Rightarrow> list_items st pfx vals keys s'
                 | (False, s') \<Rightarrow> list_items st pfx vals (keys @ [item_Key item]) s')))"

fun list_buckets :: "'s storage \<Rightarrow> string \<Rightarrow> kobject list \<Rightarrow> string list \<Rightarrow> ('s, string list) act" where
  "list_buckets st pfx [] keys s = (Inr keys, s)"
| "list_buckets st pfx (bucket # buckets) keys s =
     (case list_items st pfx (map snd (as_secret (ko_payload bucket))) keys s of
        (Inl err, s') \<Rightarrow> (Inl err, s')
      | (Inr keys', s') \<Rightarrow> list_buckets st pfx buckets keys' s')"

definition ListKeys :: "'s storage \<Rightarrow> string \<Rightarrow> ('s, string list) act" where
  "ListKeys st pfx s =
     (case bucketsForPrefix st pfx s of
        (Inl err, s') \<Rightarrow> (Inl err, s')
      | (Inr buckets, s') \<Rightarrow> list_buckets st pfx buckets [] s')"

text \<open>The iterator has a state of its own and stops the loop with an error.\<close>

type_synonym 'w iterator = "string \<Rightarrow> string \<Rightarrow> 'w \<Rightarrow> goerr option \<times> 'w"

fun iter_items ::
    "'s storage \<Rightarrow> string \<Rightarrow> 'w iterator \<Rightarrow> string list \<Rightarrow> 'w \<Rightarrow> 's \<Rightarrow> (goerr + unit) \<times> 'w \<times> 's" where
  "iter_items st pfx fn [] w s = (Inr (), w, s)"
| "iter_items st pfx fn (val # vals) w s =
     (case st_Unmarshal st val of
        Inl err \<Rightarrow> (Inl (Wrap ''unmarshal data item'' err), w, s)
      | Inr item \<Rightarrow>
          (if \<not> HasPrefix (item_Key item) pfx then iter_items st pfx fn vals w s
           else (case expired st item s of
                   (True, s') \<Rightarrow> iter_items st pfx fn vals w s'
                 | (False, s') \<Rightarrow>
                     (case fn (item_Key item) (item_Value item) w of
                        (Some err, w') \<Rightarrow> (Inl err, w', s')
                      | (None, w') \<Rightarrow> iter_items st pfx fn vals w' s'))))"

fun iter_buckets ::
    "'s storage \<Rightarrow> string \<Rightarrow> 'w iterator \<Rightarrow> kobject list \<Rightarrow> 'w \<Rightarrow> 's \<Rightarrow> (goerr + unit) \<times> 'w \<times> 's" where
  "iter_buckets st pfx fn [] w s = (Inr (), w, s)"
| "iter_buckets st pfx fn (bucket # buckets) w s =
     (case iter_items st pfx fn (map snd (as_secret (ko_payload bucket))) w s of
        (Inl err, w', s') \<Rightarrow> (Inl err, w', s')
      | (Inr _, w', s') \<Rightarrow> iter_buckets st pfx fn buckets w' s')"

definition IterPrefix ::
    "'s storage \<Rightarrow> string \<Rightarrow> 'w iterator \<Rightarrow> 'w \<Rightarrow> 's \<Rightarrow> (goerr + unit) \<times> 'w \<times> 's" where
  "IterPrefix st pfx fn w s =
     (case bucketsForPrefix st pfx s of
        (Inl err, s') \<Rightarrow> (Inl err, w, s')
      | (Inr buckets, s') \<Rightarrow> iter_buckets st pfx fn buckets w s')"

subsection \<open>What the store holds\<close>

text \<open>
  The data of a bucket of the namespace, the encoded entry of a key, and the entry itself: the
  abstract content of the store, a map from keys to items.
\<close>

definition bucket_data ::
    "('s \<Rightarrow> objkey \<Rightarrow> stored option) \<Rightarrow> string \<Rightarrow> 's \<Rightarrow> string \<Rightarrow> (string \<rightharpoonup> string)" where
  "bucket_data view ns s b =
     (case view s (SecretT, ns, b) of Some (_, SecretData m) \<Rightarrow> m | _ \<Rightarrow> Map.empty)"

definition kv_raw ::
    "('s \<Rightarrow> objkey \<Rightarrow> stored option) \<Rightarrow> string \<Rightarrow> 's \<Rightarrow> (string \<rightharpoonup> string)" where
  "kv_raw view ns s key = bucket_data view ns s (bucketForKey key) (hashKey key)"

definition kv_content ::
    "'s storage \<Rightarrow> ('s \<Rightarrow> objkey \<Rightarrow> stored option) \<Rightarrow> string \<Rightarrow> 's \<Rightarrow> (string \<rightharpoonup> data_item)" where
  "kv_content st view ns s key =
     (case kv_raw view ns s key of
        None \<Rightarrow> None
      | Some d \<Rightarrow> (case st_Unmarshal st d of Inl _ \<Rightarrow> None | Inr item \<Rightarrow> Some item))"

text \<open>The readings of the clock.\<close>

definition clock_reads :: "'s storage \<Rightarrow> int \<Rightarrow> bool" where
  "clock_reads st t \<longleftrightarrow> (\<exists>s s'. st_now st s = (t, s'))"

lemma clock_reads_now: "clock_reads st (fst (st_now st s))"
  unfolding clock_reads_def by (metis prod.collapse)

text \<open>The items a put can write: with the key and value given, and the expiry a clock reading gives.\<close>

definition put_item :: "'s storage \<Rightarrow> string \<Rightarrow> string \<Rightarrow> int \<Rightarrow> data_item \<Rightarrow> bool" where
  "put_item st key val ttl item \<longleftrightarrow> item_Key item = key \<and> item_Value item = val
     \<and> (if ttl = 0 then item_Expiry item = 0
        else \<exists>s t s'. st_now st s = (t, s') \<and> item_Expiry item = t + ttl)"

text \<open>What a reader at time \<open>t\<close> is told of an entry.\<close>

definition kv_read :: "int \<Rightarrow> data_item option \<Rightarrow> string option" where
  "kv_read t entry =
     (case entry of
        None \<Rightarrow> None
      | Some item \<Rightarrow>
          (if item_Expiry item \<noteq> 0 \<and> item_Expiry item < t \<or> item_Value item = [] then None
           else Some (item_Value item)))"

lemma hashKey_inject [simp]: "hashKey k = hashKey k' \<longleftrightarrow> k = k'"
  by (simp add: hashKey_def)

lemma bucket_data_cong: "view s' = view s \<Longrightarrow> bucket_data view ns s' = bucket_data view ns s"
  by (simp add: bucket_data_def fun_eq_iff)

lemma bucket_data_put:
  "view s' = (view s)((SecretT, ns, b) \<mapsto> (l, SecretData m)) \<Longrightarrow>
     bucket_data view ns s' = (bucket_data view ns s)(b := m)"
  by (simp add: bucket_data_def fun_eq_iff)

lemma bucket_data_delete:
  "view s' = (view s)((SecretT, ns, b) := None) \<Longrightarrow>
     bucket_data view ns s' = (bucket_data view ns s)(b := Map.empty)"
  by (simp add: bucket_data_def fun_eq_iff)

text \<open>Changing the entry of one hash in the bucket of a key changes that key only.\<close>

lemma kv_raw_update:
  "bucket_data view ns s' =
     (bucket_data view ns s)(bucketForKey key := (bucket_data view ns s (bucketForKey key))(hashKey key := x)) \<Longrightarrow>
   kv_raw view ns s' = (kv_raw view ns s)(key := x)"
  by (auto simp: kv_raw_def fun_eq_iff)

lemma secret_entry_simps [simp]:
  "key_of (store_entry secret h d) = (SecretT, om_namespace (ko_meta secret), om_name (ko_meta secret))"
  "key_of (remove_entry secret h) = (SecretT, om_namespace (ko_meta secret), om_name (ko_meta secret))"
  "map_of (as_secret (ko_payload (store_entry secret h d))) = (map_of (as_secret (ko_payload secret)))(h \<mapsto> d)"
  "map_of (as_secret (ko_payload (remove_entry secret h))) = (map_of (as_secret (ko_payload secret)))(h := None)"
  "gvk_of (ko_payload (store_entry secret h d)) = SecretT"
  "gvk_of (ko_payload (remove_entry secret h)) = SecretT"
  "as_secret (ko_payload (store_entry secret h d)) \<noteq> []"
  "ko_meta (store_entry secret h d) = ko_meta secret" "ko_meta (remove_entry secret h) = ko_meta secret"
  by (simp_all add: store_entry_def remove_entry_def key_of_def update_conv' delete_conv' update_nonempty)

lemma new_bucket_simps [simp]:
  "key_of (new_bucket ns key) = (SecretT, ns, bucketForKey key)"
  "as_secret (ko_payload (new_bucket ns key)) = []"
  by (simp_all add: new_bucket_def key_of_def)

text \<open>Sequences of writes, and what they do to a map of items at given readings of the clock.\<close>

datatype kv_op = KvPut string string int | KvDelete string

fun kv_step :: "'s storage \<Rightarrow> kv_op \<Rightarrow> ('s, unit) act" where
  "kv_step st (KvPut key val ttl) s = PutValue st key val ttl s"
| "kv_step st (KvDelete key) s = DeleteKey st key s"

fun kv_run :: "'s storage \<Rightarrow> kv_op list \<Rightarrow> ('s, unit) act" where
  "kv_run st [] s = (Inr (), s)"
| "kv_run st (op # ops) s =
     (case kv_step st op s of (Inl e, s') \<Rightarrow> (Inl e, s') | (Inr _, s') \<Rightarrow> kv_run st ops s')"

fun kv_apply :: "kv_op \<times> int \<Rightarrow> (string \<rightharpoonup> data_item) \<Rightarrow> (string \<rightharpoonup> data_item)" where
  "kv_apply (KvPut key val ttl, t) m =
     m(key \<mapsto> \<lparr>item_Key = key, item_Value = val, item_Expiry = (if ttl = 0 then 0 else t + ttl)\<rparr>)"
| "kv_apply (KvDelete key, t) m = m(key := None)"

text \<open>
  The environment of a store: its client, a clock and a leader elector that change nothing on
  the API server, and a codec that decodes what it encoded.
\<close>

locale kv_store = kube_ns cli view ns
  for cli :: "'s client" and view :: "'s \<Rightarrow> objkey \<Rightarrow> stored option" and ns :: string +
  fixes st :: "'s storage"
  assumes st_cli: "st_cli st = cli"
    and st_ns: "st_Namespace st = ns"
    and now_frame: "st_now st s = (t, s') \<Longrightarrow> view s' = view s"
    and leader_frame: "st_leaders st = Some elector \<Longrightarrow> elector s = (b, s') \<Longrightarrow> view s' = view s"
    and codec: "st_Marshal st item = Inr d \<Longrightarrow> st_Unmarshal st d = Inr item"
begin

lemma IsLeading_frame: "IsLeading st s = (r, s') \<Longrightarrow> view s' = view s"
  by (auto simp: IsLeading_def dest: leader_frame split: option.splits prod.splits)

lemma expired_frame: "expired st item s = (r, s') \<Longrightarrow> view s' = view s"
  by (auto simp: expired_def dest: now_frame split: if_splits prod.splits)

lemma expiry_of_frame: "expiry_of st ttl s = (r, s') \<Longrightarrow> view s' = view s"
  by (auto simp: expiry_of_def dest: now_frame split: if_splits prod.splits)

lemma get_bucket:
  assumes "api_get cli SecretT ns b s = (Inr secret, s')"
  shows "om_namespace (ko_meta secret) = ns" "om_name (ko_meta secret) = b"
    "gvk_of (ko_payload secret) = SecretT" "map_of (as_secret (ko_payload secret)) = bucket_data view ns s b"
    "view s' = view s"
proof -
  have g: "key_of secret = (SecretT, ns, b)" "view s (SecretT, ns, b) = Some (shown secret)"
    using get_found[OF assms] by blast+
  then show "om_namespace (ko_meta secret) = ns" "om_name (ko_meta secret) = b"
    "gvk_of (ko_payload secret) = SecretT" by (simp_all add: key_of_def)
  with g(2) show "map_of (as_secret (ko_payload secret)) = bucket_data view ns s b"
    by (cases "ko_payload secret") (auto simp: bucket_data_def shown_def)
  show "view s' = view s" by (rule get_frame[OF assms])
qed

lemma get_bucket_absent:
  "api_get cli SecretT ns b s = (Inl e, s') \<Longrightarrow> is_not_found e \<Longrightarrow> bucket_data view ns s b = Map.empty"
  using get_absent[of SecretT ns b s e s'] by (simp add: bucket_data_def)

lemma patchBucket_data:
  assumes "patchBucket st bucket raw s = (r, s')" and "key_of bucket = (SecretT, ns, b)"
  shows "r = Inr u \<Longrightarrow> bucket_data view ns s' = (bucket_data view ns s)(b := map_of (as_secret (ko_payload bucket)))"
    and "r = Inr u \<Longrightarrow> view s' = (view s)((SecretT, ns, b)
      \<mapsto> (bucket_labels raw, SecretData (map_of (as_secret (ko_payload bucket)))))"
    and "bucket_data view ns s' \<in>
      {bucket_data view ns s, (bucket_data view ns s)(b := map_of (as_secret (ko_payload bucket)))}"
proof -
  let ?m = "map_of (as_secret (ko_payload bucket))"
  let ?b = "bucket\<lparr>ko_type := SecretTypeMeta, ko_meta := (ko_meta bucket)\<lparr>om_labels := bucket_labels raw\<rparr>\<rparr>"
  have key: "key_of ?b = (SecretT, ns, b)" using assms(2) by (simp add: key_of_def)
  have shown: "shown ?b = (bucket_labels raw, SecretData ?m)"
    using assms(2) by (cases "ko_payload bucket") (auto simp: shown_def key_of_def)
  have put: "(r = Inr u \<longrightarrow> view s' = (view s1)((SecretT, ns, b) \<mapsto> (bucket_labels raw, SecretData ?m)))
      \<and> (view s' = view s1 \<or> view s' = (view s1)((SecretT, ns, b) \<mapsto> (bucket_labels raw, SecretData ?m)))"
    if "PatchObject cli ?b s1 = (r, s')" for s1
    using that PatchObject_done[of ?b s1 _ s'] PatchObject_failed[of ?b s1 _ s'] unfolding key shown
    by (cases r) auto
  have "(r = Inr u \<longrightarrow> view s' = (view s)((SecretT, ns, b) \<mapsto> (bucket_labels raw, SecretData ?m)))
    \<and> (bucket_data view ns s' = bucket_data view ns s \<or>
       bucket_data view ns s' = (bucket_data view ns s)(b := ?m))"
  proof (cases "as_secret (ko_payload bucket) = []")
    case False
    with assms(1) have "PatchObject cli ?b s = (r, s')" by (simp add: patchBucket_def st_cli)
    from put[OF this] show ?thesis
      using bucket_data_put[of view s' s ns b "bucket_labels raw" ?m] bucket_data_cong[of view s' s ns] by auto
  next
    case True
    obtain rd s1 where d: "api_delete cli bucket s = (rd, s1)" by fastforce
    have v1: "view s1 = view s \<or> view s1 = (view s)((SecretT, ns, b) := None)"
      using d delete_done[of bucket s s1] delete_failed[of bucket s _ s1] assms(2) by (cases rd) auto
    then have b1: "bucket_data view ns s1 = bucket_data view ns s \<or>
        bucket_data view ns s1 = (bucket_data view ns s)(b := ?m)"
      using bucket_data_delete[of view s1 s ns b] bucket_data_cong[of view s1 s ns] True by auto
    show ?thesis
    proof (cases "\<exists>e. rd = Inl e \<and> \<not> is_not_found e")
      case fail: True
      with assms(1) d True st_cli have "s' = s1" "r \<noteq> Inr u" by (auto simp: patchBucket_def)
      with b1 show ?thesis by simp
    next
      case False
      with assms(1) d True st_cli have "PatchObject cli ?b s1 = (r, s')"
        by (cases rd) (auto simp: patchBucket_def Let_def)
      note p = put[OF this]
      have "r = Inr u \<longrightarrow> view s' = (view s)((SecretT, ns, b) \<mapsto> (bucket_labels raw, SecretData ?m))"
        using p v1 by (metis fun_upd_upd)
      moreover have "bucket_data view ns s' = bucket_data view ns s1 \<or>
          bucket_data view ns s' = (bucket_data view ns s1)(b := ?m)"
        using p bucket_data_put[of view s' s1 ns b "bucket_labels raw" ?m] bucket_data_cong[of view s' s1 ns]
        by blast
      ultimately show ?thesis using b1 by (metis fun_upd_upd)
    qed
  qed
  then show "r = Inr u \<Longrightarrow> view s' = (view s)((SecretT, ns, b) \<mapsto> (bucket_labels raw, SecretData ?m))"
    and "bucket_data view ns s' \<in> {bucket_data view ns s, (bucket_data view ns s)(b := ?m)}" by blast+
  then show "r = Inr u \<Longrightarrow> bucket_data view ns s' = (bucket_data view ns s)(b := ?m)"
    using bucket_data_put[of view s' s ns b "bucket_labels raw" ?m] by blast
qed

text \<open>A write that goes through changes the entry of its key and of no other.\<close>

lemma put_entry_data:
  assumes "put_entry st key val ttl secret s = (r, s')" and "key_of secret = (SecretT, ns, bucketForKey key)"
    and "map_of (as_secret (ko_payload secret)) = bucket_data view ns s (bucketForKey key)"
  shows "r = Inr u \<Longrightarrow> \<exists>expiry s1 d. expiry_of st ttl s = (expiry, s1)
      \<and> st_Marshal st \<lparr>item_Key = key, item_Value = val, item_Expiry = expiry\<rparr> = Inr d
      \<and> kv_raw view ns s' = (kv_raw view ns s)(key \<mapsto> d)"
    and "kv_raw view ns s' = kv_raw view ns s \<or> (\<exists>expiry s1 d. expiry_of st ttl s = (expiry, s1)
      \<and> st_Marshal st \<lparr>item_Key = key, item_Value = val, item_Expiry = expiry\<rparr> = Inr d
      \<and> kv_raw view ns s' = (kv_raw view ns s)(key \<mapsto> d))"
proof -
  obtain expiry s1 where e: "expiry_of st ttl s = (expiry, s1)" by fastforce
  have b: "bucket_data view ns s1 = bucket_data view ns s"
    by (rule bucket_data_cong) (rule expiry_of_frame[OF e])
  let ?item = "\<lparr>item_Key = key, item_Value = val, item_Expiry = expiry\<rparr>"
  have "(r = Inr u \<longrightarrow> (\<exists>d. st_Marshal st ?item = Inr d \<and> kv_raw view ns s' = (kv_raw view ns s)(key \<mapsto> d)))
    \<and> (kv_raw view ns s' = kv_raw view ns s \<or>
       (\<exists>d. st_Marshal st ?item = Inr d \<and> kv_raw view ns s' = (kv_raw view ns s)(key \<mapsto> d)))"
  proof (cases "st_Marshal st ?item")
    case (Inl err)
    with assms(1) e have "s' = s1" "r \<noteq> Inr u" by (auto simp: put_entry_def)
    with b show ?thesis by (simp add: kv_raw_def fun_eq_iff)
  next
    case (Inr d)
    let ?b = "store_entry secret (hashKey key) d"
    from Inr assms(1) e have p: "patchBucket st ?b (rawBucketForKey key) s1 = (r, s')"
      by (simp add: put_entry_def)
    have k: "key_of ?b = (SecretT, ns, bucketForKey key)" using assms(2) by (simp add: key_of_def)
    have upd: "kv_raw view ns s' = (kv_raw view ns s)(key \<mapsto> d)"
      if "bucket_data view ns s' = (bucket_data view ns s1)(bucketForKey key := map_of (as_secret (ko_payload ?b)))"
      by (rule kv_raw_update) (simp add: that b assms(3))
    have same: "kv_raw view ns s' = kv_raw view ns s" if "bucket_data view ns s' = bucket_data view ns s1"
      using that b by (simp add: kv_raw_def fun_eq_iff)
    from patchBucket_data(1,3)[OF p k] upd same Inr show ?thesis by blast
  qed
  with e show "r = Inr u \<Longrightarrow> \<exists>expiry s1 d. expiry_of st ttl s = (expiry, s1)
      \<and> st_Marshal st \<lparr>item_Key = key, item_Value = val, item_Expiry = expiry\<rparr> = Inr d
      \<and> kv_raw view ns s' = (kv_raw view ns s)(key \<mapsto> d)"
    and "kv_raw view ns s' = kv_raw view ns s \<or> (\<exists>expiry s1 d. expiry_of st ttl s = (expiry, s1)
      \<and> st_Marshal st \<lparr>item_Key = key, item_Value = val, item_Expiry = expiry\<rparr> = Inr d
      \<and> kv_raw view ns s' = (kv_raw view ns s)(key \<mapsto> d))" by blast+
qed

lemma kv_raw_cong: "view s' = view s \<Longrightarrow> kv_raw view ns s' = kv_raw view ns s"
  by (simp add: kv_raw_def bucket_data_def fun_eq_iff)

text \<open>\<open>PutValue\<close> on its way to the write: the state before, and the Secret it writes to.\<close>

lemma PutValue_cases:
  assumes "PutValue st key val ttl s = (r, s')"
  obtains (untouched) "view s' = view s" "r \<noteq> Inr u"
    | (put) secret s1 where "put_entry st key val ttl secret s1 = (r, s')" "view s1 = view s"
        "key_of secret = (SecretT, ns, bucketForKey key)"
        "map_of (as_secret (ko_payload secret)) = bucket_data view ns s1 (bucketForKey key)"
        "st_IsValidPathID st key" "\<exists>s0. IsLeading st s = (Inr True, s0)"
proof (cases "st_IsValidPathID st key")
  case False
  with assms untouched show ?thesis by (auto simp: PutValue_def)
next
  case valid: True
  obtain lr s1 where l: "IsLeading st s = (lr, s1)" by fastforce
  note f1 = IsLeading_frame[OF l]
  show ?thesis
  proof (cases "lr = Inr True")
    case False
    with assms l valid f1 untouched show ?thesis
      by (cases lr) (auto simp: PutValue_def split: bool.splits)
  next
    case True
    obtain g s2 where g: "api_get cli SecretT ns (bucketForKey key) s1 = (g, s2)" by fastforce
    note f2 = get_frame[OF g]
    show ?thesis
    proof (cases g)
      case (Inr secret)
      note b = get_bucket[OF g[unfolded Inr]]
      have "key_of secret = (SecretT, ns, bucketForKey key)" using b by (simp add: key_of_def)
      moreover have "map_of (as_secret (ko_payload secret)) = bucket_data view ns s2 (bucketForKey key)"
        using b(4) bucket_data_cong[OF f2, of ns] by simp
      moreover have "put_entry st key val ttl secret s2 = (r, s')"
        using assms l valid True g Inr st_cli st_ns by (simp add: PutValue_def)
      ultimately show ?thesis using put[of secret s2] f1 f2 l True valid by auto
    next
      case (Inl e)
      show ?thesis
      proof (cases "is_not_found e")
        case False
        with assms l valid True g Inl st_cli st_ns f1 f2 untouched show ?thesis
          by (auto simp: PutValue_def)
      next
        case nf: True
        then have "put_entry st key val ttl (new_bucket ns key) s2 = (r, s')"
          using assms l valid True g Inl st_cli st_ns by (simp add: PutValue_def)
        moreover have "bucket_data view ns s2 (bucketForKey key) = Map.empty"
          using get_bucket_absent[OF g[unfolded Inl] nf] bucket_data_cong[OF f2, of ns] by simp
        ultimately show ?thesis using put[of "new_bucket ns key" s2] f1 f2 l True valid by auto
      qed
    qed
  qed
qed

lemma DeleteKey_cases:
  assumes "DeleteKey st key s = (r, s')"
  obtains (untouched) "view s' = view s" "r \<noteq> Inr u"
    | (delete) secret s1 where "patchBucket st (remove_entry secret (hashKey key)) (rawBucketForKey key) s1 = (r, s')"
        "view s1 = view s" "key_of secret = (SecretT, ns, bucketForKey key)"
        "map_of (as_secret (ko_payload secret)) = bucket_data view ns s1 (bucketForKey key)"
        "st_IsValidPathID st key" "\<exists>s0. IsLeading st s = (Inr True, s0)"
proof (cases "st_IsValidPathID st key")
  case False
  with assms untouched show ?thesis by (auto simp: DeleteKey_def)
next
  case valid: True
  obtain lr s1 where l: "IsLeading st s = (lr, s1)" by fastforce
  note f1 = IsLeading_frame[OF l]
  show ?thesis
  proof (cases "lr = Inr True")
    case False
    with assms l valid f1 untouched show ?thesis
      by (cases lr) (auto simp: DeleteKey_def split: bool.splits)
  next
    case True
    obtain g s2 where g: "api_get cli SecretT ns (bucketForKey key) s1 = (g, s2)" by fastforce
    note f2 = get_frame[OF g]
    show ?thesis
    proof (cases g)
      case (Inr secret)
      note b = get_bucket[OF g[unfolded Inr]]
      have "key_of secret = (SecretT, ns, bucketForKey key)" using b by (simp add: key_of_def)
      moreover have "map_of (as_secret (ko_payload secret)) = bucket_data view ns s2 (bucketForKey key)"
        using b(4) bucket_data_cong[OF f2, of ns] by simp
      moreover have "patchBucket st (remove_entry secret (hashKey key)) (rawBucketForKey key) s2 = (r, s')"
        using assms l valid True g Inr st_cli st_ns by (simp add: DeleteKey_def)
      ultimately show ?thesis using delete[of secret s2] f1 f2 l True valid by auto
    next
      case (Inl e)
      with assms l valid True g st_cli st_ns f1 f2 untouched show ?thesis
        by (auto simp: DeleteKey_def split: if_splits)
    qed
  qed
qed

lemma remove_entry_data:
  assumes "patchBucket st (remove_entry secret (hashKey key)) raw s = (r, s')"
    and "key_of secret = (SecretT, ns, bucketForKey key)"
    and "map_of (as_secret (ko_payload secret)) = bucket_data view ns s (bucketForKey key)"
  shows "r = Inr u \<Longrightarrow> kv_raw view ns s' = (kv_raw view ns s)(key := None)"
    and "kv_raw view ns s' \<in> {kv_raw view ns s, (kv_raw view ns s)(key := None)}"
proof -
  let ?b = "remove_entry secret (hashKey key)"
  have k: "key_of ?b = (SecretT, ns, bucketForKey key)" using assms(2) by (simp add: key_of_def)
  have upd: "kv_raw view ns s' = (kv_raw view ns s)(key := None)"
    if "bucket_data view ns s' = (bucket_data view ns s)(bucketForKey key := map_of (as_secret (ko_payload ?b)))"
    by (rule kv_raw_update) (simp add: that assms(3))
  have same: "kv_raw view ns s' = kv_raw view ns s" if "bucket_data view ns s' = bucket_data view ns s"
    using that by (simp add: kv_raw_def fun_eq_iff)
  from patchBucket_data(1,3)[OF assms(1) k] upd same
  show "r = Inr u \<Longrightarrow> kv_raw view ns s' = (kv_raw view ns s)(key := None)"
    and "kv_raw view ns s' \<in> {kv_raw view ns s, (kv_raw view ns s)(key := None)}" by blast+
qed

text \<open>The same for the decoded content.\<close>

abbreviation content :: "'s \<Rightarrow> string \<Rightarrow> data_item option" where
  "content \<equiv> kv_content st view ns"

lemma content_cong: "view s' = view s \<Longrightarrow> content s' = content s"
  unfolding kv_content_def[abs_def] by (drule kv_raw_cong) simp

lemma content_update:
  "kv_raw view ns s' = (kv_raw view ns s)(key \<mapsto> d) \<Longrightarrow> st_Marshal st item = Inr d \<Longrightarrow>
     content s' = (content s)(key \<mapsto> item)"
  by (auto simp: kv_content_def fun_eq_iff dest: codec)

lemma content_delete:
  "kv_raw view ns s' = (kv_raw view ns s)(key := None) \<Longrightarrow> content s' = (content s)(key := None)"
  by (auto simp: kv_content_def fun_eq_iff)

lemma content_same: "kv_raw view ns s' = kv_raw view ns s \<Longrightarrow> content s' = content s"
  by (simp add: kv_content_def fun_eq_iff)

lemma expiry_of_put_item:
  "expiry_of st ttl s = (expiry, s') \<Longrightarrow>
     put_item st key val ttl \<lparr>item_Key = key, item_Value = val, item_Expiry = expiry\<rparr>"
  by (auto simp: put_item_def expiry_of_def split: if_splits prod.splits)

lemma PutValue_content:
  assumes "PutValue st key val ttl s = (r, s')"
  shows "r = Inr u \<Longrightarrow> \<exists>item. put_item st key val ttl item \<and> content s' = (content s)(key \<mapsto> item)"
    and "content s' = content s \<or> (\<exists>item. put_item st key val ttl item \<and> content s' = (content s)(key \<mapsto> item))"
proof -
  have "(r = Inr u \<longrightarrow> (\<exists>item. put_item st key val ttl item \<and> content s' = (content s)(key \<mapsto> item)))
    \<and> (content s' = content s \<or> (\<exists>item. put_item st key val ttl item \<and> content s' = (content s)(key \<mapsto> item)))"
    using assms
  proof (cases rule: PutValue_cases[where u = u])
    case untouched
    then show ?thesis using content_cong by blast
  next
    case (put secret s1)
    note d = put_entry_data[OF put(1,3,4)]
    have wr: "\<exists>item. put_item st key val ttl item \<and> content s' = (content s)(key \<mapsto> item)"
      if "\<exists>expiry s2 d. expiry_of st ttl s1 = (expiry, s2)
        \<and> st_Marshal st \<lparr>item_Key = key, item_Value = val, item_Expiry = expiry\<rparr> = Inr d
        \<and> kv_raw view ns s' = (kv_raw view ns s1)(key \<mapsto> d)"
      using that content_update[of s' s1] expiry_of_put_item content_cong[OF put(2)] by metis
    have "content s' = content s" if "kv_raw view ns s' = kv_raw view ns s1"
      using content_same[OF that] content_cong[OF put(2)] by simp
    with d wr show ?thesis by blast
  qed
  then show "r = Inr u \<Longrightarrow> \<exists>item. put_item st key val ttl item \<and> content s' = (content s)(key \<mapsto> item)"
    and "content s' = content s \<or> (\<exists>item. put_item st key val ttl item \<and> content s' = (content s)(key \<mapsto> item))"
    by blast+
qed

lemma DeleteKey_content:
  assumes "DeleteKey st key s = (r, s')"
  shows "r = Inr u \<Longrightarrow> content s' = (content s)(key := None)"
    and "content s' \<in> {content s, (content s)(key := None)}"
proof -
  have "(r = Inr u \<longrightarrow> content s' = (content s)(key := None)) \<and> content s' \<in> {content s, (content s)(key := None)}"
    using assms
  proof (cases rule: DeleteKey_cases[where u = u])
    case untouched
    then show ?thesis using content_cong by blast
  next
    case (delete secret s1)
    have c: "content s1 = content s" by (rule content_cong[OF delete(2)])
    from remove_entry_data[OF delete(1,3,4)] content_delete[of s' s1 key] content_same[of s' s1]
    show ?thesis unfolding c by blast
  qed
  then show "r = Inr u \<Longrightarrow> content s' = (content s)(key := None)"
    and "content s' \<in> {content s, (content s)(key := None)}" by blast+
qed

lemma put_item_apply:
  assumes "put_item st key val ttl item"
  obtains t where "clock_reads st t" and "m(key \<mapsto> item) = kv_apply (KvPut key val ttl, t) m"
proof -
  obtain t where t: "clock_reads st t" "item_Expiry item = (if ttl = 0 then 0 else t + ttl)"
  proof (cases "ttl = 0")
    case True
    with assms that[OF clock_reads_now] show ?thesis by (simp add: put_item_def)
  next
    case False
    with assms obtain s t s' where "st_now st s = (t, s')" "item_Expiry item = t + ttl"
      by (auto simp: put_item_def)
    with False that[of t] show ?thesis unfolding clock_reads_def by auto
  qed
  from t(2) assms have "item = \<lparr>item_Key = key, item_Value = val, item_Expiry = (if ttl = 0 then 0 else t + ttl)\<rparr>"
    by (cases item) (simp add: put_item_def)
  with that[OF t(1)] show ?thesis by simp
qed

lemma kv_run_refines:
  "kv_run st ops s = (Inr u, s') \<Longrightarrow>
     \<exists>ts. length ts = length ops \<and> (\<forall>t \<in> set ts. clock_reads st t)
       \<and> content s' = fold kv_apply (zip ops ts) (content s)"
proof (induction ops arbitrary: s)
  case Nil then show ?case by simp
next
  case (Cons op ops)
  obtain s1 where step: "kv_step st op s = (Inr (), s1)" and rest: "kv_run st ops s1 = (Inr u, s')"
    using Cons.prems by (auto split: prod.splits sum.splits)
  obtain t where t: "clock_reads st t" "content s1 = kv_apply (op, t) (content s)"
  proof (cases op)
    case (KvPut key val ttl)
    with step obtain item where i: "put_item st key val ttl item" "content s1 = (content s)(key \<mapsto> item)"
      using PutValue_content(1)[of key val ttl s "Inr ()" s1 "()"] by auto
    then show ?thesis using that KvPut by (metis put_item_apply)
  next
    case (KvDelete key)
    with step show ?thesis
      using DeleteKey_content(1)[of key s "Inr ()" s1 "()"] that[OF clock_reads_now] by simp
  qed
  obtain ts where ts: "length ts = length ops" "\<forall>t \<in> set ts. clock_reads st t" "content s' = fold kv_apply (zip ops ts) (content s1)"
    using Cons.IH[OF rest] by blast
  show ?case by (rule exI[of _ "t # ts"]) (simp add: ts t)
qed

text \<open>A delete always leaves the Secret of the bucket behind, with or without entries.\<close>

lemma delete_leaves_bucket:
  assumes "DeleteKey st key s = (Inr u, s')"
  shows "view s' (SecretT, ns, bucketForKey key) = Some (bucket_labels (rawBucketForKey key),
    SecretData ((bucket_data view ns s (bucketForKey key))(hashKey key := None)))"
  using assms
proof (cases rule: DeleteKey_cases[where u = u])
  case (delete secret s1)
  have k: "key_of (remove_entry secret (hashKey key)) = (SecretT, ns, bucketForKey key)"
    using delete(3) by (simp add: key_of_def)
  from patchBucket_data(2)[OF delete(1) k refl] delete(4) bucket_data_cong[OF delete(2), of ns]
  show ?thesis by simp
qed simp

text \<open>A put labels the bucket with the directory of its own key.\<close>

lemma PutValue_relabels:
  assumes "PutValue st key val ttl s = (Inr u, s')"
  shows "\<exists>m. view s' (SecretT, ns, bucketForKey key) = Some (bucket_labels (rawBucketForKey key), m)"
  using assms
proof (cases rule: PutValue_cases[where u = u])
  case (put secret s1)
  obtain expiry s2 where e: "expiry_of st ttl s1 = (expiry, s2)" by fastforce
  with put(1) obtain d where
    w: "patchBucket st (store_entry secret (hashKey key) d) (rawBucketForKey key) s2 = (Inr u, s')"
    by (auto simp: put_entry_def split: sum.splits)
  have "key_of (store_entry secret (hashKey key) d) = (SecretT, ns, bucketForKey key)"
    using put(3) by (simp add: key_of_def)
  from patchBucket_data(2)[OF w this refl] show ?thesis by simp
qed simp

text \<open>A put that succeeds has applied an object with the name of the bucket.\<close>

lemma PutValue_name:
  assumes "PutValue st key val ttl s = (Inr (), s')"
    and "\<And>obj opts s s'. api_patch cli obj opts s = (Inr (), s') \<Longrightarrow> Q (om_name (ko_meta obj))"
  shows "Q (bucketForKey key)"
  using assms(1)
proof (cases rule: PutValue_cases[where u = "()"])
  case (put secret s1)
  obtain expiry s2 where e: "expiry_of st ttl s1 = (expiry, s2)" by fastforce
  with put(1) obtain d where
    w: "patchBucket st (store_entry secret (hashKey key) d) (rawBucketForKey key) s2 = (Inr (), s')"
    by (auto simp: put_entry_def split: sum.splits)
  let ?b = "(store_entry secret (hashKey key) d)\<lparr>ko_type := SecretTypeMeta,
      ko_meta := (ko_meta secret)\<lparr>om_labels := bucket_labels (rawBucketForKey key)\<rparr>\<rparr>"
  from w have "PatchObject cli ?b s2 = (Inr (), s')" by (simp add: patchBucket_def st_cli)
  then have "api_patch cli (StripPatchMeta ?b) [ApplyPatch, ForceOwnership, FieldOwnerOpt FieldOwner] s2 = (Inr (), s')"
    by (auto simp: PatchObject_def Let_def split: prod.splits sum.splits)
  from assms(2)[OF this] put(3) show ?thesis by (simp add: StripPatchMeta_def key_of_def)
qed simp

text \<open>A node that does not lead changes nothing.\<close>

lemma non_leader_writes:
  assumes "IsLeading st s = (Inr False, s1)" and "st_IsValidPathID st key"
  shows "PutValue st key val ttl s = (Inl ErrNotLeader, s1)" "DeleteKey st key s = (Inl ErrNotLeader, s1)"
    and "view s1 = view s"
  using assms IsLeading_frame[OF assms(1)] by (simp_all add: PutValue_def DeleteKey_def)

text \<open>A get changes nothing on the server, and what it returns is in the store.\<close>

lemma GetValue_frame: "GetValue st key s = (r, ed, s') \<Longrightarrow> view s' = view s"
proof -
  assume g: "GetValue st key s = (r, ed, s')"
  obtain rg s1 where a: "api_get cli SecretT ns (bucketForKey key) s = (rg, s1)" by fastforce
  note f = get_frame[OF a]
  show ?thesis
  proof (cases "st_IsValidPathID st key")
    case False
    with g show ?thesis by (simp add: GetValue_def)
  next
    case True
    with f g a st_cli st_ns show ?thesis
      by (auto simp: GetValue_def dest!: expired_frame IsLeading_frame
          split: sum.splits option.splits prod.splits bool.splits if_splits)
  qed
qed

lemma GetValue_value:
  assumes "GetValue st key s = (Inr v, ed, s')"
  shows "\<exists>t. kv_read t (content s key) = Some v" and "v \<noteq> []" and "ed = None"
proof -
  have valid: "st_IsValidPathID st key" using assms by (auto simp: GetValue_def split: if_splits)
  obtain rg s1 where a: "api_get cli SecretT ns (bucketForKey key) s = (rg, s1)" by fastforce
  with assms valid st_cli st_ns obtain secret where rg: "rg = Inr secret"
    by (cases rg) (auto simp: GetValue_def split: if_splits)
  note b = get_bucket[OF a[unfolded rg]]
  obtain d where d: "map_of (as_secret (ko_payload secret)) (hashKey key) = Some d"
    using assms valid a rg st_cli st_ns by (auto simp: GetValue_def split: option.splits)
  obtain item where i: "st_Unmarshal st d = Inr item"
    using assms valid a rg d st_cli st_ns by (auto simp: GetValue_def split: sum.splits)
  obtain x s2 where x: "expired st item s1 = (x, s2)" by fastforce
  have r: "\<not> x" "item_Value item = v" "v \<noteq> []" "ed = None"
    using assms valid a rg d i x st_cli st_ns
    by (auto simp: GetValue_def split: if_splits sum.splits prod.splits bool.splits)
  have c: "content s key = Some item"
    using b(4) d i by (simp add: kv_content_def kv_raw_def)
  obtain t where "\<not> (item_Expiry item \<noteq> 0 \<and> item_Expiry item < t)"
    using x r(1) by (auto simp: expired_def split: if_splits prod.splits)
  then have "kv_read t (content s key) = Some v" using c r by (auto simp: kv_read_def)
  then show "\<exists>t. kv_read t (content s key) = Some v" ..
  show "v \<noteq> []" "ed = None" by (rule r)+
qed

end

text \<open>The same with a server that answers, and for the node that leads, with a codec that encodes every item.\<close>

locale kv_server = kv_store cli view ns st + kube_ns_server cli view up admissible ns
  for cli :: "'s client" and view :: "'s \<Rightarrow> objkey \<Rightarrow> stored option" and ns :: string
    and st :: "'s storage" and up :: "'s \<Rightarrow> bool" and admissible :: "kobject \<Rightarrow> bool"

locale kv_live = kv_server cli view ns st up admissible
  for cli :: "'s client" and view :: "'s \<Rightarrow> objkey \<Rightarrow> stored option" and ns :: string
    and st :: "'s storage" and up :: "'s \<Rightarrow> bool" and admissible :: "kobject \<Rightarrow> bool" +
  assumes now_up: "up s \<Longrightarrow> st_now st s = (t, s') \<Longrightarrow> up s'"
    and leads: "up s \<Longrightarrow> \<exists>elector s'. st_leaders st = Some elector \<and> elector s = (True, s') \<and> up s'"
    and marshals: "\<exists>d. st_Marshal st item = Inr d"
begin

lemma IsLeading_up: "up s \<Longrightarrow> \<exists>s'. IsLeading st s = (Inr True, s') \<and> up s'"
  using leads[of s] by (auto simp: IsLeading_def)

lemma expired_up: "up s \<Longrightarrow> expired st item s = (x, s') \<Longrightarrow> up s'"
  using now_up by (auto simp: expired_def split: if_splits prod.splits)

lemma expiry_of_up: "up s \<Longrightarrow> expiry_of st ttl s = (x, s') \<Longrightarrow> up s'"
  using now_up by (auto simp: expiry_of_def split: if_splits prod.splits)

lemma get_bucket_up:
  assumes "up s"
  obtains (found) secret s' where "api_get cli SecretT ns b s = (Inr secret, s')" "up s'"
    | (absent) e s' where "api_get cli SecretT ns b s = (Inl e, s')" "is_not_found e" "up s'"
        "bucket_data view ns s b = Map.empty"
  using up_get[OF assms, of SecretT ns b] up_get_absent[OF assms, of SecretT ns b] get_bucket_absent
  by (cases "view s (SecretT, ns, b)") blast+

text \<open>A get answers what the abstract content says at some reading of the clock.\<close>

lemma GetValue_live:
  assumes "up s" and "st_IsValidPathID st key"
    and "kv_raw view ns s key = None \<or> content s key \<noteq> None"
  shows "\<exists>t ed s'. GetValue st key s =
      ((case kv_read t (content s key) of None \<Rightarrow> Inl (ErrKeyNotFound key) | Some v \<Rightarrow> Inr v), ed, s')
    \<and> up s' \<and> (\<exists>sa sb. st_now st sa = (t, sb))"
proof (cases rule: get_bucket_up[OF assms(1), of "bucketForKey key"])
  case (2 e s1)
  obtain t sb where t: "st_now st s = (t, sb)" by fastforce
  have "content s key = None" using 2(4) by (simp add: kv_content_def kv_raw_def)
  with 2 assms(2) st_cli st_ns t show ?thesis by (auto simp: GetValue_def kv_read_def)
next
  case (1 secret s1)
  note b = get_bucket[OF 1(1)]
  have raw: "kv_raw view ns s key = map_of (as_secret (ko_payload secret)) (hashKey key)"
    using b(4) by (simp add: kv_raw_def)
  show ?thesis
  proof (cases "kv_raw view ns s key")
    case None
    obtain t sb where t: "st_now st s = (t, sb)" by fastforce
    from None have "content s key = None" by (simp add: kv_content_def)
    with 1 assms(2) st_cli st_ns t None raw show ?thesis by (auto simp: GetValue_def kv_read_def)
  next
    case (Some d)
    with assms(3) obtain item where i: "st_Unmarshal st d = Inr item" "content s key = Some item"
      by (auto simp: kv_content_def split: sum.splits)
    obtain x s2 where x: "expired st item s1 = (x, s2)" by fastforce
    have u2: "up s2" by (rule expired_up[OF 1(2) x])
    obtain t sa sb where t: "st_now st sa = (t, sb)" "x = (item_Expiry item \<noteq> 0 \<and> item_Expiry item < t)"
    proof (cases "item_Expiry item = 0")
      case True
      obtain t sb where "st_now st s = (t, sb)" by fastforce
      with x True that show ?thesis by (auto simp: expired_def)
    next
      case False
      with x that show ?thesis by (auto simp: expired_def split: prod.splits)
    qed
    obtain s3 where l: "IsLeading st s2 = (Inr True, s3)" "up s3" using IsLeading_up[OF u2] by blast
    have "\<exists>ed s'. GetValue st key s =
        ((case kv_read t (content s key) of None \<Rightarrow> Inl (ErrKeyNotFound key) | Some v \<Rightarrow> Inr v), ed, s') \<and> up s'"
      using 1 assms(2) st_cli st_ns Some raw i x t(2) u2 l
      by (cases x) (auto simp: GetValue_def kv_read_def)
    with t(1) show ?thesis by blast
  qed
qed

text \<open>What the server has to admit for a write of a key to go through.\<close>

abbreviation bucket_admitted :: "'s \<Rightarrow> string \<Rightarrow> bool" where
  "bucket_admitted s key \<equiv> (\<forall>obj. key_of obj = (SecretT, ns, bucketForKey key) \<and> ko_type obj = SecretTypeMeta
     \<and> om_labels (ko_meta obj) = bucket_labels (rawBucketForKey key)
     \<and> dom (map_of (as_secret (ko_payload obj))) \<subseteq> insert (hashKey key) (dom (bucket_data view ns s (bucketForKey key)))
     \<longrightarrow> admissible obj)"

lemma patchBucket_up:
  assumes "up s" and "key_of bucket = (SecretT, ns, b)"
    and "\<And>obj. key_of obj = (SecretT, ns, b) \<Longrightarrow> ko_type obj = SecretTypeMeta \<Longrightarrow>
      om_labels (ko_meta obj) = bucket_labels raw \<Longrightarrow> ko_payload obj = ko_payload bucket \<Longrightarrow> admissible obj"
  shows "\<exists>s'. patchBucket st bucket raw s = (Inr (), s') \<and> up s'"
proof -
  let ?b = "bucket\<lparr>ko_type := SecretTypeMeta, ko_meta := (ko_meta bucket)\<lparr>om_labels := bucket_labels raw\<rparr>\<rparr>"
  have "key_of (StripPatchMeta ?b) = (SecretT, ns, b)"
    unfolding StripPatchMeta_simps(1) using assms(2) by (simp add: key_of_def)
  then have adm: "admissible (StripPatchMeta ?b)"
    by (rule assms(3)) (simp_all add: StripPatchMeta_def)
  have put: "\<exists>s'. PatchObject cli ?b s1 = (Inr (), s') \<and> up s'" if "up s1" for s1
    using PatchObject_up[OF that adm] by blast
  show ?thesis
  proof (cases "as_secret (ko_payload bucket) = []")
    case False
    with put[OF assms(1)] show ?thesis by (simp add: patchBucket_def st_cli)
  next
    case True
    obtain rd s1 where d: "api_delete cli bucket s = (rd, s1)" "up s1" "\<forall>e. rd = Inl e \<longrightarrow> is_not_found e"
      using up_delete[OF assms(1), of bucket] up_delete_absent[OF assms(1), of bucket]
      by (cases "view s (key_of bucket)") fastforce+
    with put[OF d(2)] True show ?thesis
      by (cases rd) (auto simp: patchBucket_def Let_def st_cli)
  qed
qed

lemma put_entry_up:
  assumes "up s" and "key_of secret = (SecretT, ns, bucketForKey key)"
    and "map_of (as_secret (ko_payload secret)) = bucket_data view ns s (bucketForKey key)"
    and "bucket_admitted s key"
  shows "\<exists>s'. put_entry st key val ttl secret s = (Inr (), s') \<and> up s'"
proof -
  obtain expiry s1 where e: "expiry_of st ttl s = (expiry, s1)" by fastforce
  obtain d where d: "st_Marshal st \<lparr>item_Key = key, item_Value = val, item_Expiry = expiry\<rparr> = Inr d"
    using marshals by blast
  let ?b = "store_entry secret (hashKey key) d"
  have k: "key_of ?b = (SecretT, ns, bucketForKey key)" using assms(2) by (simp add: key_of_def)
  have "\<exists>s'. patchBucket st ?b (rawBucketForKey key) s1 = (Inr (), s') \<and> up s'"
  proof (rule patchBucket_up[OF expiry_of_up[OF assms(1) e] k])
    fix obj assume o: "key_of obj = (SecretT, ns, bucketForKey key)" "ko_type obj = SecretTypeMeta"
      "om_labels (ko_meta obj) = bucket_labels (rawBucketForKey key)" "ko_payload obj = ko_payload ?b"
    have "dom (map_of (as_secret (ko_payload obj))) \<subseteq> insert (hashKey key) (dom (bucket_data view ns s (bucketForKey key)))"
      unfolding o(4) secret_entry_simps(3) assms(3) by auto
    with o assms(4) show "admissible obj" by blast
  qed
  with e d show ?thesis by (simp add: put_entry_def)
qed

lemma bucket_admitted_cong: "view s' = view s \<Longrightarrow> bucket_admitted s' key \<longleftrightarrow> bucket_admitted s key"
  by (simp add: bucket_data_cong[of view s' s ns])

lemma PutValue_live:
  assumes "up s" and "st_IsValidPathID st key" and "bucket_admitted s key"
  shows "\<exists>s'. PutValue st key val ttl s = (Inr (), s') \<and> up s'"
proof -
  obtain s1 where l: "IsLeading st s = (Inr True, s1)" "up s1" using IsLeading_up[OF assms(1)] by blast
  note f1 = IsLeading_frame[OF l(1)]
  show ?thesis
  proof (cases rule: get_bucket_up[OF l(2), of "bucketForKey key"])
    case (1 secret s2)
    note b = get_bucket[OF 1(1)]
    have "map_of (as_secret (ko_payload secret)) = bucket_data view ns s2 (bucketForKey key)"
      using b(4) bucket_data_cong[OF b(5), of ns] by simp
    moreover have "bucket_admitted s2 key" using assms(3) bucket_admitted_cong[of s2 s key] b(5) f1 by simp
    ultimately have "\<exists>s'. put_entry st key val ttl secret s2 = (Inr (), s') \<and> up s'"
      using b by (intro put_entry_up[OF 1(2)]) (simp_all add: key_of_def)
    with l 1 assms(2) st_cli st_ns show ?thesis by (simp add: PutValue_def)
  next
    case (2 e s2)
    note f2 = get_frame[OF 2(1)]
    have "bucket_data view ns s2 (bucketForKey key) = Map.empty"
      using 2(4) bucket_data_cong[OF f2, of ns] by simp
    moreover have "bucket_admitted s2 key" using assms(3) bucket_admitted_cong[of s2 s key] f2 f1 by simp
    ultimately have "\<exists>s'. put_entry st key val ttl (new_bucket ns key) s2 = (Inr (), s') \<and> up s'"
      by (intro put_entry_up[OF 2(3)]) simp_all
    with l 2 assms(2) st_cli st_ns show ?thesis by (simp add: PutValue_def)
  qed
qed

text \<open>What was put is what a get returns, until it expires.\<close>

lemma put_get_live:
  assumes "up s" and "st_IsValidPathID st key" and "bucket_admitted s key"
  shows "\<exists>item s1 t ed s2. put_item st key val ttl item \<and> PutValue st key val ttl s = (Inr (), s1)
    \<and> GetValue st key s1 =
        ((case kv_read t (Some item) of None \<Rightarrow> Inl (ErrKeyNotFound key) | Some v \<Rightarrow> Inr v), ed, s2)
    \<and> (\<exists>sa sb. st_now st sa = (t, sb))"
proof -
  obtain s1 where s1: "PutValue st key val ttl s = (Inr (), s1)" "up s1"
    using PutValue_live[OF assms] by blast
  obtain item where i: "put_item st key val ttl item" "content s1 = (content s)(key \<mapsto> item)"
    using PutValue_content(1)[OF s1(1) refl] by blast
  then have "content s1 key = Some item" by simp
  with GetValue_live[OF s1(2) assms(2)] i(1) s1(1) show ?thesis by auto
qed

lemma DeleteKey_live:
  assumes "up s" and "st_IsValidPathID st key" and "bucket_admitted s key"
  shows "\<exists>s'. DeleteKey st key s =
      (if view s (SecretT, ns, bucketForKey key) = None then Inl (ErrKeyNotFound key) else Inr (), s') \<and> up s'"
proof -
  obtain s1 where l: "IsLeading st s = (Inr True, s1)" "up s1" using IsLeading_up[OF assms(1)] by blast
  note f1 = IsLeading_frame[OF l(1)]
  show ?thesis
  proof (cases "view s (SecretT, ns, bucketForKey key)")
    case None
    with up_get_absent[OF l(2), of SecretT ns "bucketForKey key"] f1 l assms(2) st_cli st_ns
    show ?thesis by (auto simp: DeleteKey_def)
  next
    case (Some x)
    with up_get[OF l(2), of SecretT ns "bucketForKey key"] f1 obtain secret s2 where
      g: "api_get cli SecretT ns (bucketForKey key) s1 = (Inr secret, s2)" "up s2" by auto
    note b = get_bucket[OF g(1)]
    have m: "map_of (as_secret (ko_payload secret)) = bucket_data view ns s (bucketForKey key)"
      using b(4) bucket_data_cong[OF f1, of ns] by simp
    let ?b = "remove_entry secret (hashKey key)"
    have k: "key_of ?b = (SecretT, ns, bucketForKey key)" using b by simp
    have "\<exists>s'. patchBucket st ?b (rawBucketForKey key) s2 = (Inr (), s') \<and> up s'"
    proof (rule patchBucket_up[OF g(2) k])
      fix obj assume o: "key_of obj = (SecretT, ns, bucketForKey key)" "ko_type obj = SecretTypeMeta"
        "om_labels (ko_meta obj) = bucket_labels (rawBucketForKey key)" "ko_payload obj = ko_payload ?b"
      have "dom (map_of (as_secret (ko_payload obj))) \<subseteq> insert (hashKey key) (dom (bucket_data view ns s (bucketForKey key)))"
        unfolding o(4) secret_entry_simps(4) m by auto
      with o assms(3) show "admissible obj" by blast
    qed
    with l g assms(2) st_cli st_ns Some show ?thesis by (auto simp: DeleteKey_def)
  qed
qed

text \<open>After a delete a get finds nothing.\<close>

lemma delete_get_live:
  assumes "up s" and "st_IsValidPathID st key" and "bucket_admitted s key"
  shows "\<exists>r s1 ed s2. DeleteKey st key s = (r, s1) \<and> GetValue st key s1 = (Inl (ErrKeyNotFound key), ed, s2)"
proof -
  obtain r s1 where d: "DeleteKey st key s = (r, s1)" "up s1"
    "r = (if view s (SecretT, ns, bucketForKey key) = None then Inl (ErrKeyNotFound key) else Inr ())"
    using DeleteKey_live[OF assms] by blast
  have raw: "kv_raw view ns s1 key = None"
    using d(1)
  proof (cases rule: DeleteKey_cases[where u = "()"])
    case untouched
    with d(3) have "view s (SecretT, ns, bucketForKey key) = None" by (auto split: if_splits)
    with untouched(1) show ?thesis by (simp add: kv_raw_def bucket_data_def)
  next
    case (delete secret s2)
    have "r = Inr ()"
    proof (rule ccontr)
      assume "r \<noteq> Inr ()"
      with d(3) have none: "view s (SecretT, ns, bucketForKey key) = None" and
        r: "r = Inl (ErrKeyNotFound key)" by (auto split: if_splits)
      from delete(1) r patchBucket_data[OF delete(1), of "bucketForKey key"] show False
        using st_cli by (auto simp: patchBucket_def PatchObject_def Let_def split: if_splits sum.splits prod.splits)
    qed
    with remove_entry_data(1)[OF delete(1,3,4)] show ?thesis by simp
  qed
  then have "content s1 key = None" by (simp add: kv_content_def)
  with GetValue_live[OF d(2) assms(2)] raw d(1) show ?thesis by (auto simp: kv_read_def)
qed

text \<open>
  The goroutine of an expired key writes back the Secret as the get read it: whatever was put
  into the bucket since is gone.
\<close>

lemma GetValue_expired:
  assumes "up s" and "st_IsValidPathID st key" and "content s key = Some item" and "item_Expiry item \<noteq> 0"
    and "\<And>sa t sb. st_now st sa = (t, sb) \<Longrightarrow> item_Expiry item < t"
  obtains secret s' where "GetValue st key s = (Inl (ErrKeyNotFound key), Some \<lparr>ed_secret = secret, ed_key = key\<rparr>, s')"
    and "up s'" and "key_of secret = (SecretT, ns, bucketForKey key)"
    and "map_of (as_secret (ko_payload secret)) = bucket_data view ns s (bucketForKey key)"
proof -
  obtain d where d: "kv_raw view ns s key = Some d" "st_Unmarshal st d = Inr item"
    using assms(3) by (auto simp: kv_content_def split: option.splits sum.splits)
  show ?thesis
  proof (cases rule: get_bucket_up[OF assms(1), of "bucketForKey key"])
    case (2 e s1)
    with d(1) show ?thesis by (simp add: kv_raw_def)
  next
    case (1 secret s1)
    note b = get_bucket[OF 1(1)]
    obtain x s2 where x: "expired st item s1 = (x, s2)" by fastforce
    have "x" using x assms(4,5) by (auto simp: expired_def split: prod.splits)
    moreover have u2: "up s2" by (rule expired_up[OF 1(2) x])
    moreover obtain s3 where l: "IsLeading st s2 = (Inr True, s3)" "up s3" using IsLeading_up[OF u2] by blast
    ultimately have "GetValue st key s =
        (Inl (ErrKeyNotFound key), Some \<lparr>ed_secret = secret, ed_key = key\<rparr>, s3)"
      using 1 assms(2) st_cli st_ns d b(4) x by (simp add: GetValue_def kv_raw_def)
    then show ?thesis using b l(2) by (intro that[of secret s3]) (simp_all add: key_of_def)
  qed
qed

lemma stale_delete_live:
  assumes "up s" and "st_IsValidPathID st key" and "content s key = Some item" and "item_Expiry item \<noteq> 0"
    and "\<And>sa t sb. st_now st sa = (t, sb) \<Longrightarrow> item_Expiry item < t"
    and "st_IsValidPathID st key'" and "bucketForKey key' = bucketForKey key"
    and "key' = key \<or> kv_raw view ns s key' = None" and "bucket_admitted s key" and "bucket_admitted s key'"
  shows "\<exists>ed s1 s2. GetValue st key s = (Inl (ErrKeyNotFound key), Some ed, s1)
    \<and> PutValue st key' val 0 s1 = (Inr (), s2)
    \<and> content s2 key' = Some \<lparr>item_Key = key', item_Value = val, item_Expiry = 0\<rparr>
    \<and> content (run_expired_delete st ed s2) key' = None"
proof -
  obtain secret s1 where g: "GetValue st key s = (Inl (ErrKeyNotFound key), Some \<lparr>ed_secret = secret, ed_key = key\<rparr>, s1)"
    "up s1" and k: "key_of secret = (SecretT, ns, bucketForKey key)"
    and m: "map_of (as_secret (ko_payload secret)) = bucket_data view ns s (bucketForKey key)"
    by (rule GetValue_expired[OF assms(1-5)])
  note f = GetValue_frame[OF g(1)]
  have "bucket_admitted s1 key'" using assms(10) bucket_admitted_cong[OF f, of key'] by blast
  then obtain s2 where p: "PutValue st key' val 0 s1 = (Inr (), s2)" "up s2"
    using PutValue_live[OF g(2) assms(6)] by blast
  obtain item' where i': "put_item st key' val 0 item'" "content s2 = (content s1)(key' \<mapsto> item')"
    using PutValue_content(1)[OF p(1) refl] by blast
  from i'(1) have item': "item' = \<lparr>item_Key = key', item_Value = val, item_Expiry = 0\<rparr>"
    by (cases item') (simp add: put_item_def)
  let ?b = "remove_entry secret (hashKey key)"
  have kb: "key_of ?b = (SecretT, ns, bucketForKey key)" using k by (simp add: key_of_def)
  obtain s3 where w: "patchBucket st ?b (rawBucketForKey key) s2 = (Inr (), s3)"
  proof -
    have "\<exists>s'. patchBucket st ?b (rawBucketForKey key) s2 = (Inr (), s') \<and> up s'"
    proof (rule patchBucket_up[OF p(2) kb])
      fix obj assume o: "key_of obj = (SecretT, ns, bucketForKey key)" "ko_type obj = SecretTypeMeta"
        "om_labels (ko_meta obj) = bucket_labels (rawBucketForKey key)" "ko_payload obj = ko_payload ?b"
      have "dom (map_of (as_secret (ko_payload obj))) \<subseteq> insert (hashKey key) (dom (bucket_data view ns s (bucketForKey key)))"
        unfolding o(4) secret_entry_simps(4) m by auto
      with o assms(9) show "admissible obj" by blast
    qed
    with that show ?thesis by blast
  qed
  have "bucket_data view ns s3 (bucketForKey key) = (bucket_data view ns s (bucketForKey key))(hashKey key := None)"
    using patchBucket_data(1)[OF w kb refl] m by simp
  then have "kv_raw view ns s3 key' = None"
    using assms(7,8) by (auto simp: kv_raw_def)
  moreover have "run_expired_delete st \<lparr>ed_secret = secret, ed_key = key\<rparr> s2 = s3"
    using w by (simp add: run_expired_delete_def)
  ultimately have "content (run_expired_delete st \<lparr>ed_secret = secret, ed_key = key\<rparr> s2) key' = None"
    by (simp add: kv_content_def)
  with g(1) p(1) i'(2) item' show ?thesis by auto
qed

end

end
