(* ===== verification/StorageKeys.thy ===== *)
theory StorageKeys
  imports Storage
begin

text \<open>
  Listing and iterating keys: the buckets that can hold a key with a given prefix, the
  invariant of the storage Secrets, and when \<open>ListKeys\<close> returns exactly the keys it should.
\<close>

subsection \<open>The bucket of a prefix\<close>

lemma rawBucketForKey_alt:
  "rawBucketForKey key =
     (case split_at CHR ''/'' key of [x] \<Rightarrow> x | xs \<Rightarrow> join_with CHR ''_'' (butlast xs))"
proof -
  obtain y ys where "split_at CHR ''/'' key = y # ys" by (rule split_at_cons)
  then show ?thesis
    by (cases ys) (simp_all add: rawBucketForKey_def Let_def butlast_conv_take)
qed

lemma HasPrefix_append [simp]: "HasPrefix (p @ t) p"
  by (simp add: HasPrefix_def)

lemma HasPrefix_join_cons: "HasPrefix (join_with c ((p @ x) # xs)) p"
  by (cases xs) (simp_all add: HasPrefix_def)

text \<open>A key with a prefix is kept in a bucket whose name starts with the bucket of the prefix.\<close>

lemma rawBucketForKey_prefix:
  assumes "HasPrefix key p"
  shows "HasPrefix (rawBucketForKey key) (rawBucketForKey p)"
proof -
  let ?c = "CHR ''/''" and ?u = "CHR ''_''"
  obtain t where key: "key = p @ t" using assms by (auto simp: HasPrefix_def prefix_def)
  obtain x xs where p: "split_at ?c p = x # xs" by (rule split_at_cons)
  obtain z zs where t: "split_at ?c t = z # zs" by (rule split_at_cons)
  have k: "split_at ?c key = butlast (x # xs) @ (last (x # xs) @ z) # zs"
    by (simp add: key split_at_append p t)
  show ?thesis
  proof (cases xs)
    case Nil
    with p have "p = x" using join_split[of ?c p] by simp
    have rp: "rawBucketForKey p = x" using p Nil by (simp add: rawBucketForKey_alt)
    show ?thesis
    proof (cases zs)
      case Nil
      with k \<open>xs = []\<close> have "rawBucketForKey key = x @ z" by (simp add: rawBucketForKey_alt)
      with rp show ?thesis by simp
    next
      case (Cons w ws)
      with k \<open>xs = []\<close> have "rawBucketForKey key = join_with ?u ((x @ z) # butlast (w # ws))"
        by (simp add: rawBucketForKey_alt)
      with rp show ?thesis by (simp only: HasPrefix_join_cons)
    qed
  next
    case (Cons y ys)
    have rp: "rawBucketForKey p = join_with ?u (butlast (x # xs))"
      using p Cons by (simp add: rawBucketForKey_alt)
    have "rawBucketForKey key = join_with ?u (butlast (x # xs) @ butlast ((last (x # xs) @ z) # zs))"
      using k Cons by (cases "split_at ?c key"; cases "tl (split_at ?c key)")
        (auto simp: rawBucketForKey_alt butlast_append)
    moreover have "butlast (x # xs) \<noteq> []" using Cons by simp
    then have "HasPrefix (join_with ?u (butlast (x # xs) @ rest)) (join_with ?u (butlast (x # xs)))" for rest
      by (cases "rest = []") (simp_all add: join_with_append HasPrefix_def del: butlast.simps)
    ultimately show ?thesis unfolding rp by (simp only:)
  qed
qed

subsection \<open>ListKeys collects what IterPrefix visits\<close>

lemma list_items_iter:
  "list_items st p vals keys s =
     (case iter_items st p (\<lambda>k v w. (None, w @ [k])) vals keys s of
        (Inl e, w, s') \<Rightarrow> (Inl e, s') | (Inr _, w, s') \<Rightarrow> (Inr w, s'))"
  by (induction st p vals keys s rule: list_items.induct) (auto split: sum.splits prod.splits bool.splits)

lemma list_buckets_iter:
  "list_buckets st p buckets keys s =
     (case iter_buckets st p (\<lambda>k v w. (None, w @ [k])) buckets keys s of
        (Inl e, w, s') \<Rightarrow> (Inl e, s') | (Inr _, w, s') \<Rightarrow> (Inr w, s'))"
  by (induction st p buckets keys s rule: list_buckets.induct)
    (auto simp: list_items_iter split: sum.splits prod.splits)

subsection \<open>What a listing contains\<close>

text \<open>Alive at some, and at every, reading of the clock.\<close>

definition maybe_alive :: "'s storage \<Rightarrow> data_item \<Rightarrow> bool" where
  "maybe_alive st item \<longleftrightarrow> item_Expiry item = 0 \<or> (\<exists>t. clock_reads st t \<and> t \<le> item_Expiry item)"

definition surely_alive :: "'s storage \<Rightarrow> data_item \<Rightarrow> bool" where
  "surely_alive st item \<longleftrightarrow> item_Expiry item = 0 \<or> (\<forall>t. clock_reads st t \<longrightarrow> t \<le> item_Expiry item)"

lemma expired_alive:
  "expired st item s = (True, s') \<Longrightarrow> \<not> surely_alive st item"
  "expired st item s = (False, s') \<Longrightarrow> maybe_alive st item"
  by (auto simp: expired_def surely_alive_def maybe_alive_def clock_reads_def not_less
      split: if_splits prod.splits) (metis linorder_not_le)

lemma list_items_done:
  "list_items st p vals keys s = (Inr keys', s') \<Longrightarrow>
     (\<forall>val \<in> set vals. \<exists>item. st_Unmarshal st val = Inr item
        \<and> (HasPrefix (item_Key item) p \<and> surely_alive st item \<longrightarrow> item_Key item \<in> set keys'))
   \<and> set keys \<subseteq> set keys'
   \<and> (\<forall>k \<in> set keys' - set keys. \<exists>val item. val \<in> set vals \<and> st_Unmarshal st val = Inr item
        \<and> item_Key item = k \<and> HasPrefix k p \<and> maybe_alive st item)"
proof (induction st p vals keys s arbitrary: keys' s' rule: list_items.induct)
  case (2 st p val vals keys s)
  then obtain item where i: "st_Unmarshal st val = Inr item" by (auto split: sum.splits)
  show ?case
  proof (cases "HasPrefix (item_Key item) p")
    case False
    with "2.prems" i have "list_items st p vals keys s = (Inr keys', s')" by simp
    from "2.IH"(1)[OF i _ this] False i show ?thesis by (simp; blast)
  next
    case True
    obtain x s1 where x: "expired st item s = (x, s1)" by fastforce
    show ?thesis
    proof (cases x)
      case True
      with x have e: "expired st item s = (True, s1)" by simp
      from "2.prems" i \<open>HasPrefix _ _\<close> e have "list_items st p vals keys s1 = (Inr keys', s')" by simp
      from "2.IH"(2)[OF i _ e[symmetric] _ this] \<open>HasPrefix _ _\<close> expired_alive(1)[OF e] i
      show ?thesis by (simp; blast)
    next
      case False
      with x have e: "expired st item s = (False, s1)" by simp
      from "2.prems" i \<open>HasPrefix _ _\<close> e
      have "list_items st p vals (keys @ [item_Key item]) s1 = (Inr keys', s')" by simp
      from "2.IH"(3)[OF i _ e[symmetric] _ this] \<open>HasPrefix _ _\<close> expired_alive(2)[OF e] i
      show ?thesis by (simp; blast)
    qed
  qed
qed simp

definition bucket_values :: "kobject \<Rightarrow> string set" where
  "bucket_values b = snd ` set (as_secret (ko_payload b))"

lemma list_buckets_done:
  "list_buckets st p buckets keys s = (Inr keys', s') \<Longrightarrow>
     (\<forall>b \<in> set buckets. \<forall>val \<in> bucket_values b. \<exists>item. st_Unmarshal st val = Inr item
        \<and> (HasPrefix (item_Key item) p \<and> surely_alive st item \<longrightarrow> item_Key item \<in> set keys'))
   \<and> set keys \<subseteq> set keys'
   \<and> (\<forall>k \<in> set keys' - set keys. \<exists>b val item. b \<in> set buckets \<and> val \<in> bucket_values b
        \<and> st_Unmarshal st val = Inr item \<and> item_Key item = k \<and> HasPrefix k p \<and> maybe_alive st item)"
proof (induction buckets arbitrary: keys s)
  case (Cons b buckets)
  then obtain keys1 s1 where l: "list_items st p (map snd (as_secret (ko_payload b))) keys s = (Inr keys1, s1)"
    "list_buckets st p buckets keys1 s1 = (Inr keys', s')"
    by (auto split: prod.splits sum.splits)
  note items = list_items_done[OF l(1)] and rest = Cons.IH[OF l(2)]
  have "\<exists>item. st_Unmarshal st val = Inr item
      \<and> (HasPrefix (item_Key item) p \<and> surely_alive st item \<longrightarrow> item_Key item \<in> set keys')"
    if "b' \<in> set (b # buckets)" "val \<in> bucket_values b'" for b' val
  proof (cases "b' = b")
    case True
    with that items rest show ?thesis unfolding bucket_values_def by simp blast
  next
    case False
    with that rest show ?thesis by auto
  qed
  moreover have "set keys \<subseteq> set keys'" using items rest by blast
  moreover have "\<exists>b' val item. b' \<in> set (b # buckets) \<and> val \<in> bucket_values b'
      \<and> st_Unmarshal st val = Inr item \<and> item_Key item = k \<and> HasPrefix k p \<and> maybe_alive st item"
    if "k \<in> set keys' - set keys" for k
  proof (cases "k \<in> set keys1")
    case True
    with that items obtain val item where "val \<in> bucket_values b" "st_Unmarshal st val = Inr item"
      "item_Key item = k" "HasPrefix k p" "maybe_alive st item"
      unfolding bucket_values_def by (simp; blast)
    then show ?thesis by auto
  next
    case False
    with that rest show ?thesis by (simp; blast)
  qed
  ultimately show ?case by blast
qed simp

subsection \<open>The invariant of the storage Secrets\<close>

text \<open>
  For the keys \<open>K\<close> that are written: the storage Secrets are all in the namespace and are the
  buckets of keys of \<open>K\<close>; each is labelled with the bucket of one of them, and holds, under the
  hash of its key, entries of keys of \<open>K\<close> that belong there.
\<close>

definition entry_placed :: "'s storage \<Rightarrow> string set \<Rightarrow> string \<Rightarrow> string \<Rightarrow> string \<Rightarrow> bool" where
  "entry_placed st K b h d \<longleftrightarrow>
     (\<exists>item. st_Unmarshal st d = Inr item \<and> item_Key item \<in> K \<and> b = bucketForKey (item_Key item)
        \<and> h = hashKey (item_Key item))"

definition bucket_ok :: "'s storage \<Rightarrow> string set \<Rightarrow> string \<Rightarrow> stored \<Rightarrow> bool" where
  "bucket_ok st K b x \<longleftrightarrow>
     (\<exists>k m. k \<in> K \<and> b = bucketForKey k \<and> x = (bucket_labels (rawBucketForKey k), SecretData m)
        \<and> (\<forall>h d. m h = Some d \<longrightarrow> entry_placed st K b h d))"

definition kv_inv ::
    "'s storage \<Rightarrow> string set \<Rightarrow> ('s \<Rightarrow> objkey \<Rightarrow> stored option) \<Rightarrow> string \<Rightarrow> 's \<Rightarrow> bool" where
  "kv_inv st K view ns s \<longleftrightarrow>
     (\<forall>b x. view s (SecretT, ns, b) = Some x \<and> b \<in> bucketForKey ` K \<longrightarrow> bucket_ok st K b x)
   \<and> (\<forall>ns' b l c. view s (SecretT, ns', b) = Some (l, c) \<and> l MeshStorageLabel = Some ''true''
        \<longrightarrow> ns' = ns \<and> b \<in> bucketForKey ` K)"

lemma kv_inv_cong: "kv_inv st K view ns s \<Longrightarrow> view s' = view s \<Longrightarrow> kv_inv st K view ns s'"
  by (simp add: kv_inv_def)

lemma kv_inv_delete:
  "kv_inv st K view ns s \<Longrightarrow> view s' = (view s)(k := None) \<Longrightarrow> kv_inv st K view ns s'"
  unfolding kv_inv_def by auto

lemma kv_inv_put:
  assumes "kv_inv st K view ns s" and "key \<in> K"
    and "view s' = (view s)((SecretT, ns, bucketForKey key) \<mapsto> (bucket_labels (rawBucketForKey key), SecretData m))"
    and "\<And>h d. m h = Some d \<Longrightarrow> entry_placed st K (bucketForKey key) h d"
  shows "kv_inv st K view ns s'"
proof -
  have "bucket_ok st K (bucketForKey key) (bucket_labels (rawBucketForKey key), SecretData m)"
    unfolding bucket_ok_def using assms(2,4) by blast
  with assms(1,2) show ?thesis unfolding kv_inv_def assms(3) by auto
qed

text \<open>The entries a bucket of the invariant holds.\<close>

lemma kv_inv_bucket_data:
  assumes "kv_inv st K view ns s" and "key \<in> K"
    and "bucket_data view ns s (bucketForKey key) h = Some d"
  shows "entry_placed st K (bucketForKey key) h d"
proof -
  obtain l m where v: "view s (SecretT, ns, bucketForKey key) = Some (l, SecretData m)" "m h = Some d"
    using assms(3) by (auto simp: bucket_data_def split: option.splits prod.splits content.splits)
  with assms(1,2) have "bucket_ok st K (bucketForKey key) (l, SecretData m)"
    unfolding kv_inv_def by blast
  with v(2) show ?thesis by (auto simp: bucket_ok_def)
qed

context kv_store begin

lemma patchBucket_view:
  assumes "patchBucket st bucket raw s = (r, s')" and "key_of bucket = (SecretT, ns, b)"
  shows "view s' = view s \<or> view s' = (view s)((SecretT, ns, b) := None) \<or>
    view s' = (view s)((SecretT, ns, b) \<mapsto> (bucket_labels raw, SecretData (map_of (as_secret (ko_payload bucket)))))"
proof -
  let ?m = "map_of (as_secret (ko_payload bucket))"
  let ?b = "bucket\<lparr>ko_type := SecretTypeMeta, ko_meta := (ko_meta bucket)\<lparr>om_labels := bucket_labels raw\<rparr>\<rparr>"
  have key: "key_of ?b = (SecretT, ns, b)" using assms(2) by (simp add: key_of_def)
  have shown: "shown ?b = (bucket_labels raw, SecretData ?m)"
    using assms(2) by (cases "ko_payload bucket") (auto simp: shown_def key_of_def)
  have put: "view s' = view s1 \<or> view s' = (view s1)((SecretT, ns, b) \<mapsto> (bucket_labels raw, SecretData ?m))"
    if "PatchObject cli ?b s1 = (r, s')" for s1
    using that PatchObject_done[of ?b s1 _ s'] PatchObject_failed[of ?b s1 _ s'] unfolding key shown
    by (cases r) blast+
  show ?thesis
  proof (cases "as_secret (ko_payload bucket) = []")
    case False
    with assms(1) have "PatchObject cli ?b s = (r, s')" by (simp add: patchBucket_def st_cli)
    from put[OF this] show ?thesis by blast
  next
    case True
    obtain rd s1 where d: "api_delete cli bucket s = (rd, s1)" by fastforce
    have v1: "view s1 = view s \<or> view s1 = (view s)((SecretT, ns, b) := None)"
      using d delete_done[of bucket s s1] delete_failed[of bucket s _ s1] assms(2) by (cases rd) auto
    have "s' = s1 \<or> PatchObject cli ?b s1 = (r, s')"
      using assms(1) d True st_cli by (cases rd) (auto simp: patchBucket_def Let_def split: if_splits)
    with put[of s1] v1 show ?thesis by (metis fun_upd_upd)
  qed
qed

lemma patchBucket_inv:
  assumes "kv_inv st K view ns s" and "key \<in> K"
    and "patchBucket st bucket (rawBucketForKey key) s = (r, s')"
    and "key_of bucket = (SecretT, ns, bucketForKey key)"
    and "\<And>h d. map_of (as_secret (ko_payload bucket)) h = Some d \<Longrightarrow> entry_placed st K (bucketForKey key) h d"
  shows "kv_inv st K view ns s'"
  using patchBucket_view[OF assms(3,4)] kv_inv_cong[OF assms(1)] kv_inv_delete[OF assms(1)]
    kv_inv_put[OF assms(1,2) _ assms(5)] by blast

lemma kv_step_inv:
  assumes "kv_inv st K view ns s" and "kv_step st op s = (r, s')"
    and "case op of KvPut key _ _ \<Rightarrow> key \<in> K | KvDelete key \<Rightarrow> key \<in> K"
  shows "kv_inv st K view ns s'"
proof (cases op)
  case (KvPut key val ttl)
  with assms have K: "key \<in> K" and p: "PutValue st key val ttl s = (r, s')" by simp_all
  from p show ?thesis
  proof (cases rule: PutValue_cases[where u = "()"])
    case untouched
    with kv_inv_cong[OF assms(1)] show ?thesis by blast
  next
    case (put secret s1)
    obtain expiry s2 where e: "expiry_of st ttl s1 = (expiry, s2)" by fastforce
    let ?item = "\<lparr>item_Key = key, item_Value = val, item_Expiry = expiry\<rparr>"
    have f: "view s2 = view s" using expiry_of_frame[OF e] put(2) by simp
    have inv: "kv_inv st K view ns s2" by (rule kv_inv_cong[OF assms(1) f])
    show ?thesis
    proof (cases "st_Marshal st ?item")
      case (Inl err)
      with put(1) e have "s' = s2" by (simp add: put_entry_def)
      with inv show ?thesis by simp
    next
      case (Inr d)
      with put(1) e have w: "patchBucket st (store_entry secret (hashKey key) d) (rawBucketForKey key) s2 = (r, s')"
        by (simp add: put_entry_def)
      have "entry_placed st K (bucketForKey key) h x"
        if "map_of (as_secret (ko_payload (store_entry secret (hashKey key) d))) h = Some x" for h x
      proof (cases "h = hashKey key")
        case True
        with that codec[OF Inr] K show ?thesis unfolding entry_placed_def by (intro exI[of _ ?item]) simp
      next
        case False
        with that put(2,4) bucket_data_cong[of view s1 s ns]
        have "bucket_data view ns s (bucketForKey key) h = Some x" by simp
        then show ?thesis by (rule kv_inv_bucket_data[OF assms(1) K])
      qed
      then show ?thesis using put(3) by (intro patchBucket_inv[OF inv K w]) (auto simp: key_of_def)
    qed
  qed
next
  case (KvDelete key)
  with assms have K: "key \<in> K" and d: "DeleteKey st key s = (r, s')" by simp_all
  from d show ?thesis
  proof (cases rule: DeleteKey_cases[where u = "()"])
    case untouched
    with kv_inv_cong[OF assms(1)] show ?thesis by blast
  next
    case (delete secret s1)
    have inv: "kv_inv st K view ns s1" by (rule kv_inv_cong[OF assms(1) delete(2)])
    have "entry_placed st K (bucketForKey key) h x"
      if "map_of (as_secret (ko_payload (remove_entry secret (hashKey key)))) h = Some x" for h x
      using that delete(4) by (intro kv_inv_bucket_data[OF inv K]) (auto split: if_splits)
    then show ?thesis using delete(3) by (intro patchBucket_inv[OF inv K delete(1)]) (auto simp: key_of_def)
  qed
qed

text \<open>The Secrets a listing returns, and the entries in them.\<close>

lemma listed_bucket:
  assumes "kv_inv st K view ns s" and "api_list cli SecretT [] [(MeshStorageLabel, ''true'')] s = (Inr objs, s')"
    and "b \<in> set objs"
  obtains k0 where "k0 \<in> K" and "key_of b = (SecretT, ns, bucketForKey k0)"
    and "om_labels (ko_meta b) = bucket_labels (rawBucketForKey k0)"
    and "view s (SecretT, ns, bucketForKey k0) = Some (shown b)"
    and "\<And>val. val \<in> bucket_values b \<Longrightarrow> \<exists>item. st_Unmarshal st val = Inr item
      \<and> item_Key item \<in> K \<and> content s (item_Key item) = Some item"
proof -
  let ?bn = "om_name (ko_meta b)"
  have g: "gvk_of (ko_payload b) = SecretT" "om_labels (ko_meta b) MeshStorageLabel = Some ''true''"
    and v: "view s (key_of b) = Some (shown b)" and dd: "data_distinct (ko_payload b)"
    using list_sound[OF assms(2,3)] unfolding selected_def by auto
  have v': "view s (SecretT, om_namespace (ko_meta b), ?bn) = Some (om_labels (ko_meta b), content_of (ko_payload b))"
    using v by (simp only: key_of_def g shown_def)
  with assms(1) g(2) have nsb: "om_namespace (ko_meta b) = ns" "?bn \<in> bucketForKey ` K"
    unfolding kv_inv_def by blast+
  with v' assms(1) have "bucket_ok st K ?bn (om_labels (ko_meta b), content_of (ko_payload b))"
    unfolding kv_inv_def by blast
  then obtain k0 m where k0: "k0 \<in> K" "?bn = bucketForKey k0" "om_labels (ko_meta b) = bucket_labels (rawBucketForKey k0)"
    "content_of (ko_payload b) = SecretData m" "\<forall>h d. m h = Some d \<longrightarrow> entry_placed st K ?bn h d"
    unfolding bucket_ok_def by auto
  have m: "map_of (as_secret (ko_payload b)) = m" using k0(4) by simp
  have entry: "\<exists>item. st_Unmarshal st val = Inr item \<and> item_Key item \<in> K \<and> content s (item_Key item) = Some item"
    if val: "val \<in> bucket_values b" for val
  proof -
    obtain h where h: "(h, val) \<in> set (as_secret (ko_payload b))" using val by (auto simp: bucket_values_def)
    have "distinct (map fst (as_secret (ko_payload b)))" using dd g(1) by (cases "ko_payload b") auto
    with h m have mh: "m h = Some val" by (auto intro: map_of_is_SomeI)
    with k0(5) obtain item where i: "st_Unmarshal st val = Inr item" "item_Key item \<in> K"
      "?bn = bucketForKey (item_Key item)" "h = hashKey (item_Key item)"
      unfolding entry_placed_def by blast
    have "kv_raw view ns s (item_Key item) = Some val"
      using v' nsb(1) k0(4) mh unfolding i(3,4) by (simp add: kv_raw_def bucket_data_def)
    with i show ?thesis by (auto simp: kv_content_def)
  qed
  show ?thesis
  proof (rule that[OF k0(1) _ k0(3) _ entry])
    show "key_of b = (SecretT, ns, bucketForKey k0)" by (simp only: key_of_def g nsb k0(2))
    then show "view s (SecretT, ns, bucketForKey k0) = Some (shown b)" using v by simp
  qed
qed

lemma stored_listed:
  assumes "kv_inv st K view ns s" and "api_list cli SecretT [] [(MeshStorageLabel, ''true'')] s = (Inr objs, s')"
    and "key \<in> K" and "content s key = Some item"
  obtains b val where "b \<in> set objs" and "key_of b = (SecretT, ns, bucketForKey key)"
    and "val \<in> bucket_values b" and "st_Unmarshal st val = Inr item"
proof -
  obtain d where d: "kv_raw view ns s key = Some d" "st_Unmarshal st d = Inr item"
    using assms(4) by (auto simp: kv_content_def split: option.splits sum.splits)
  then obtain l m where v: "view s (SecretT, ns, bucketForKey key) = Some (l, SecretData m)" "m (hashKey key) = Some d"
    by (auto simp: kv_raw_def bucket_data_def split: option.splits prod.splits content.splits)
  with assms(1,3) have "bucket_ok st K (bucketForKey key) (l, SecretData m)"
    unfolding kv_inv_def by blast
  then have "matching_labels [(MeshStorageLabel, ''true'')] l"
    by (auto simp: bucket_ok_def bucket_labels_def MeshStorageLabel_def BucketLabel_def)
  from list_complete[OF assms(2) v(1) in_namespace_simps(1) this] obtain b where
    b: "b \<in> set objs" "key_of b = (SecretT, ns, bucketForKey key)" by auto
  have "shown b = (l, SecretData m)"
    using list_sound[OF assms(2) b(1)] v(1) b(2) by (metis option.inject)
  then have "map_of (as_secret (ko_payload b)) = m" by (simp add: shown_def)
  with v(2) have "(hashKey key, d) \<in> set (as_secret (ko_payload b))" by (auto dest: map_of_SomeD)
  then have "d \<in> bucket_values b" unfolding bucket_values_def by force
  with that b d(2) show ?thesis by blast
qed

lemma bucketsForPrefix_done:
  assumes "bucketsForPrefix st p s = (Inr buckets, s')"
  obtains objs where "api_list cli SecretT [] [(MeshStorageLabel, ''true'')] s = (Inr objs, s')"
    and "set buckets = {b \<in> set objs. p = [] \<or> HasPrefix
      (case om_labels (ko_meta b) BucketLabel of None \<Rightarrow> [] | Some l \<Rightarrow> l) (rawBucketForKey p)}"
proof -
  obtain objs where "api_list cli SecretT [] [(MeshStorageLabel, ''true'')] s = (Inr objs, s')"
    "buckets = filter (\<lambda>b. if length p = 0 then True
        else HasPrefix (case om_labels (ko_meta b) BucketLabel of None \<Rightarrow> [] | Some l \<Rightarrow> l)
               (rawBucketForKey p)) objs"
    using assms st_cli by (auto simp: bucketsForPrefix_def split: prod.splits sum.splits)
  then show ?thesis by (intro that[of objs]) auto
qed

lemma ListKeys_sound:
  assumes "kv_inv st K view ns s" and "ListKeys st p s = (Inr keys, s')" and "k \<in> set keys"
  shows "\<exists>item. k \<in> K \<and> content s k = Some item \<and> HasPrefix k p \<and> maybe_alive st item"
proof -
  obtain buckets s1 where b: "bucketsForPrefix st p s = (Inr buckets, s1)"
    "list_buckets st p buckets [] s1 = (Inr keys, s')"
    using assms(2) by (auto simp: ListKeys_def split: prod.splits sum.splits)
  obtain objs where o: "api_list cli SecretT [] [(MeshStorageLabel, ''true'')] s = (Inr objs, s1)"
    "set buckets \<subseteq> set objs"
    by (rule bucketsForPrefix_done[OF b(1)]) (auto intro: that)
  obtain b' val item where i: "b' \<in> set buckets" "val \<in> bucket_values b'" "st_Unmarshal st val = Inr item"
    "item_Key item = k" "HasPrefix k p" "maybe_alive st item"
    using list_buckets_done[OF b(2)] assms(3) by (simp; blast)
  from i(1) o(2) have "b' \<in> set objs" by blast
  then obtain item' where "st_Unmarshal st val = Inr item'" "item_Key item' \<in> K" "content s (item_Key item') = Some item'"
    by (rule listed_bucket[OF assms(1) o(1)]) (use i(2) in blast)
  with i show ?thesis by auto
qed

text \<open>The buckets of two keys of \<open>K\<close> with the same name have the same label.\<close>

lemma ListKeys_complete:
  assumes "kv_inv st K view ns s" and "ListKeys st p s = (Inr keys, s')"
    and "\<And>k1 k2. k1 \<in> K \<Longrightarrow> k2 \<in> K \<Longrightarrow> bucketForKey k1 = bucketForKey k2 \<Longrightarrow> rawBucketForKey k1 = rawBucketForKey k2"
    and "k \<in> K" and "content s k = Some item" and "HasPrefix k p" and "surely_alive st item"
  shows "k \<in> set keys"
proof -
  obtain buckets s1 where b: "bucketsForPrefix st p s = (Inr buckets, s1)"
    "list_buckets st p buckets [] s1 = (Inr keys, s')"
    using assms(2) by (auto simp: ListKeys_def split: prod.splits sum.splits)
  obtain objs where o: "api_list cli SecretT [] [(MeshStorageLabel, ''true'')] s = (Inr objs, s1)"
    "set buckets = {b \<in> set objs. p = [] \<or> HasPrefix
      (case om_labels (ko_meta b) BucketLabel of None \<Rightarrow> [] | Some l \<Rightarrow> l) (rawBucketForKey p)}"
    by (rule bucketsForPrefix_done[OF b(1)])
  obtain b' val where b': "b' \<in> set objs" "key_of b' = (SecretT, ns, bucketForKey k)" "val \<in> bucket_values b'"
    "st_Unmarshal st val = Inr item"
    by (rule stored_listed[OF assms(1) o(1) assms(4,5)])
  obtain k0 where k0: "k0 \<in> K" "key_of b' = (SecretT, ns, bucketForKey k0)"
    "om_labels (ko_meta b') = bucket_labels (rawBucketForKey k0)"
    by (rule listed_bucket[OF assms(1) o(1) b'(1)])
  from k0(2) b'(2) have "bucketForKey k0 = bucketForKey k" by simp
  then have "rawBucketForKey k0 = rawBucketForKey k" by (rule assms(3)[OF k0(1) assms(4)])
  with k0(3) have "om_labels (ko_meta b') BucketLabel = Some (rawBucketForKey k)"
    by (simp add: bucket_labels_def MeshStorageLabel_def BucketLabel_def)
  with o(2) b'(1) rawBucketForKey_prefix[OF assms(6)] have "b' \<in> set buckets" by simp
  with list_buckets_done[OF b(2)] b'(3) obtain item' where "st_Unmarshal st val = Inr item'"
    "HasPrefix (item_Key item') p \<and> surely_alive st item' \<longrightarrow> item_Key item' \<in> set keys" by blast
  moreover have "item_Key item = k"
  proof -
    obtain item' where "st_Unmarshal st val = Inr item'" "item_Key item' \<in> K" "content s (item_Key item') = Some item'"
      by (rule listed_bucket[OF assms(1) o(1) b'(1)]) (use b'(3) in blast)
    moreover obtain d where d: "kv_raw view ns s k = Some d" "st_Unmarshal st d = Inr item"
      using assms(5) by (auto simp: kv_content_def split: option.splits sum.splits)
    from d(1) have "entry_placed st K (bucketForKey k) (hashKey k) d"
      by (intro kv_inv_bucket_data[OF assms(1,4)]) (simp add: kv_raw_def)
    with d(2) show ?thesis by (auto simp: entry_placed_def)
  qed
  ultimately show ?thesis using b'(4) assms(6,7) by auto
qed

text \<open>A bucket whose label does not fit the prefix hides all its keys.\<close>

lemma ListKeys_hidden:
  assumes "kv_inv st K view ns s" and "ListKeys st p s = (Inr keys, s')" and "k \<in> set keys" and "p \<noteq> []"
    and "view s (SecretT, ns, bucketForKey k) = Some (bucket_labels raw, c)"
  shows "HasPrefix raw (rawBucketForKey p)"
proof -
  obtain buckets s1 where b: "bucketsForPrefix st p s = (Inr buckets, s1)"
    "list_buckets st p buckets [] s1 = (Inr keys, s')"
    using assms(2) by (auto simp: ListKeys_def split: prod.splits sum.splits)
  obtain objs where o: "api_list cli SecretT [] [(MeshStorageLabel, ''true'')] s = (Inr objs, s1)"
    "set buckets = {b \<in> set objs. p = [] \<or> HasPrefix
      (case om_labels (ko_meta b) BucketLabel of None \<Rightarrow> [] | Some l \<Rightarrow> l) (rawBucketForKey p)}"
    by (rule bucketsForPrefix_done[OF b(1)])
  obtain b' val item where i: "b' \<in> set buckets" "val \<in> bucket_values b'" "st_Unmarshal st val = Inr item"
    "item_Key item = k"
    using list_buckets_done[OF b(2)] assms(3) by (simp; blast)
  have "b' \<in> set objs" using i(1) o(2) by blast
  then obtain h where h: "entry_placed st K (om_name (ko_meta b')) h val" "om_namespace (ko_meta b') = ns"
      "view s (SecretT, ns, om_name (ko_meta b')) = Some (shown b')"
  proof (rule listed_bucket[OF assms(1) o(1)])
    fix k0 assume k0: "k0 \<in> K" "key_of b' = (SecretT, ns, bucketForKey k0)"
      "view s (SecretT, ns, bucketForKey k0) = Some (shown b')"
    have n: "om_name (ko_meta b') = bucketForKey k0" "om_namespace (ko_meta b') = ns"
      "gvk_of (ko_payload b') = SecretT" using k0(2) by (simp_all add: key_of_def)
    obtain h where "(h, val) \<in> set (as_secret (ko_payload b'))" using i(2) by (auto simp: bucket_values_def)
    moreover have "distinct (map fst (as_secret (ko_payload b')))"
      using list_sound[OF o(1) \<open>b' \<in> set objs\<close>] n(3) by (cases "ko_payload b'") auto
    ultimately have "map_of (as_secret (ko_payload b')) h = Some val" by (rule map_of_is_SomeI[rotated])
    then have "bucket_data view ns s (bucketForKey k0) h = Some val"
      using k0(3) n(3) by (cases "ko_payload b'") (auto simp: bucket_data_def shown_def)
    then have "entry_placed st K (bucketForKey k0) h val" by (rule kv_inv_bucket_data[OF assms(1) k0(1)])
    with that n k0(3) show ?thesis by simp
  qed
  from h(1) i(3,4) have "om_name (ko_meta b') = bucketForKey k" by (auto simp: entry_placed_def)
  with h(3) assms(5) have "om_labels (ko_meta b') = bucket_labels raw" by (simp add: shown_def)
  with o(2) i(1) assms(4) show ?thesis
    by (simp add: bucket_labels_def MeshStorageLabel_def BucketLabel_def)
qed

end

subsection \<open>The namespace plays no part in a listing\<close>

lemma list_items_namespace: "list_items (st\<lparr>st_Namespace := n\<rparr>) p vals keys s = list_items st p vals keys s"
proof (induction vals arbitrary: keys s)
  case (Cons val vals)
  have "expired (st\<lparr>st_Namespace := n\<rparr>) item t = expired st item t" for item t
    by (simp add: expired_def)
  with Cons show ?case by (auto split: sum.split prod.split bool.split)
qed simp

lemma list_buckets_namespace: "list_buckets (st\<lparr>st_Namespace := n\<rparr>) p bs keys s = list_buckets st p bs keys s"
  by (induction st p bs keys s rule: list_buckets.induct)
    (auto simp: list_items_namespace split: sum.split prod.split)

lemma ListKeys_namespace: "ListKeys (st\<lparr>st_Namespace := n\<rparr>) p s = ListKeys st p s"
proof -
  have "bucketsForPrefix (st\<lparr>st_Namespace := n\<rparr>) p s = bucketsForPrefix st p s"
    by (simp add: bucketsForPrefix_def)
  then show ?thesis by (simp add: ListKeys_def list_buckets_namespace split: prod.split sum.split)
qed

context kube_api begin

lemma ListKeys_all_namespaces:
  assumes "st_cli st = cli" and "ListKeys st [] s = (Inr keys, s')"
    and "view s (SecretT, other, b) = Some (bucket_labels raw, SecretData m)" and "m h = Some d"
    and "st_Unmarshal st d = Inr item" and "item_Expiry item = 0"
  shows "item_Key item \<in> set keys"
proof -
  obtain objs s1 where o: "api_list cli SecretT [] [(MeshStorageLabel, ''true'')] s = (Inr objs, s1)"
    "list_buckets st [] objs [] s1 = (Inr keys, s')"
    using assms(1,2) by (auto simp: ListKeys_def bucketsForPrefix_def split: prod.splits sum.splits)
  have "matching_labels [(MeshStorageLabel, ''true'')] (bucket_labels raw)"
    by (simp add: bucket_labels_def MeshStorageLabel_def BucketLabel_def)
  from list_complete[OF o(1) assms(3) in_namespace_simps(1) this] obtain x where
    x: "x \<in> set objs" "key_of x = (SecretT, other, b)" by auto
  have "view s (key_of x) = Some (shown x)" using list_sound[OF o(1) x(1)] by blast
  then have "shown x = (bucket_labels raw, SecretData m)" using assms(3) x(2) by simp
  then have "map_of (as_secret (ko_payload x)) = m" by (simp add: shown_def)
  with assms(4) have "(h, d) \<in> set (as_secret (ko_payload x))" by (auto dest: map_of_SomeD)
  then have "d \<in> bucket_values x" unfolding bucket_values_def by force
  with list_buckets_done[OF o(2)] x(1) obtain item' where "st_Unmarshal st d = Inr item'"
    "HasPrefix (item_Key item') [] \<and> surely_alive st item' \<longrightarrow> item_Key item' \<in> set keys" by blast
  with assms(5,6) show ?thesis by (simp add: surely_alive_def)
qed

end

end
