(* ===== verification/StorageEnv.thy ===== *)
theory StorageEnv
  imports StorageKeys
begin

text \<open>
  A concrete environment for the key-value store: the API server of \<open>MemApi\<close>, a clock that
  stands still, an elector that always leads, and a codec that writes lengths and
  numbers in unary. It shows that the contract of \<open>kv_live\<close> can be met; the properties use it
  in their witnesses. The second part is which names and hashes the API server admits.
\<close>

subsection \<open>A codec\<close>

definition enc_nat :: "nat \<Rightarrow> string" where
  "enc_nat n = replicate n CHR ''1'' @ ''0''"

definition dec_nat :: "string \<Rightarrow> nat \<times> string" where
  "dec_nat s = (length (takeWhile (\<lambda>c. c = CHR ''1'') s), tl (dropWhile (\<lambda>c. c = CHR ''1'') s))"

definition enc_str :: "string \<Rightarrow> string" where
  "enc_str s = enc_nat (length s) @ s"

definition dec_str :: "string \<Rightarrow> string \<times> string" where
  "dec_str s = (case dec_nat s of (n, rest) \<Rightarrow> (take n rest, drop n rest))"

definition unary_marshal :: "data_item \<Rightarrow> goerr + string" where
  "unary_marshal item = Inr (enc_str (item_Key item) @ enc_str (item_Value item)
     @ (if item_Expiry item < 0 then ''-'' else ''+'') @ enc_nat (nat \<bar>item_Expiry item\<bar>))"

definition unary_unmarshal :: "string \<Rightarrow> goerr + data_item" where
  "unary_unmarshal s =
     (case dec_str s of (k, s1) \<Rightarrow>
        (case dec_str s1 of (v, s2) \<Rightarrow>
           (case s2 of
              [] \<Rightarrow> Inl (ErrGob ''unexpected end'')
            | c # s3 \<Rightarrow>
                Inr \<lparr>item_Key = k, item_Value = v,
                     item_Expiry = (if c = CHR ''-'' then - int (fst (dec_nat s3)) else int (fst (dec_nat s3)))\<rparr>)))"

lemma dec_enc_nat [simp]: "dec_nat (enc_nat n @ rest) = (n, rest)"
proof -
  have "takeWhile (\<lambda>c. c = CHR ''1'') (replicate n CHR ''1'' @ CHR ''0'' # rest) = replicate n CHR ''1''"
    "dropWhile (\<lambda>c. c = CHR ''1'') (replicate n CHR ''1'' @ CHR ''0'' # rest) = CHR ''0'' # rest"
    by (induction n) auto
  then show ?thesis by (simp add: dec_nat_def enc_nat_def)
qed

lemma dec_enc_str [simp]: "dec_str (enc_str s @ rest) = (s, rest)"
  by (simp add: dec_str_def enc_str_def)

lemma unary_codec: "unary_marshal item = Inr d \<Longrightarrow> unary_unmarshal d = Inr item"
  using dec_enc_nat[of "nat \<bar>item_Expiry item\<bar>" "[]"]
  by (cases item) (auto simp: unary_marshal_def unary_unmarshal_def)

definition mem_storage :: "mem_state storage" where
  "mem_storage =
     \<lparr>st_cli = mem_client, st_Namespace = ''default'', st_leaders = Some (\<lambda>s. (True, s)),
      st_now = (\<lambda>s. (1000, s)), st_Marshal = unary_marshal,
      st_Unmarshal = unary_unmarshal, st_IsValidPathID = (\<lambda>key. key \<noteq> [])\<rparr>"

lemma mem_storage_simps [simp]:
  "st_IsValidPathID mem_storage key \<longleftrightarrow> key \<noteq> []" "st_Namespace mem_storage = ''default''"
  "st_now mem_storage s = (1000, s)"
  by (simp_all add: mem_storage_def)

interpretation mem_kv: kv_live mem_client mem_view "''default''" mem_storage mem_up mem_admits
  by unfold_locales (auto simp: mem_storage_def unary_codec, simp add: unary_marshal_def)

lemmas mem_kv_live = mem_kv.kv_live_axioms
lemmas mem_kv_store = mem_kv.kv_store_axioms
lemmas mem_kv_server = mem_kv.kv_server_axioms

subsection \<open>Admitted names\<close>

lemma fst_set_map_of: "fst ` set al = dom (map_of al)"
  by (simp add: dom_map_of_conv_image_fst)

lemma mem_bucket_admitted:
  assumes "dns1123_subdomain (bucketForKey key)" and "valid_data_key (hashKey key)"
    and "\<forall>h \<in> dom (bucket_data mem_view ''default'' s (bucketForKey key)). valid_data_key h"
  shows "\<forall>obj. key_of obj = (SecretT, ''default'', bucketForKey key) \<and> ko_type obj = SecretTypeMeta
     \<and> om_labels (ko_meta obj) = bucket_labels (rawBucketForKey key)
     \<and> dom (map_of (as_secret (ko_payload obj))) \<subseteq>
         insert (hashKey key) (dom (bucket_data mem_view ''default'' s (bucketForKey key)))
     \<longrightarrow> mem_admits obj"
proof (intro allI impI, elim conjE)
  fix obj
  assume o: "key_of obj = (SecretT, ''default'', bucketForKey key)" "ko_type obj = SecretTypeMeta"
    and d: "dom (map_of (as_secret (ko_payload obj)))
      \<subseteq> insert (hashKey key) (dom (bucket_data mem_view ''default'' s (bucketForKey key)))"
  have "\<forall>h \<in> fst ` set (as_secret (ko_payload obj)). valid_data_key h"
    unfolding fst_set_map_of using d assms(2,3) by blast
  with o assms(1) show "mem_admits obj" by (simp add: mem_admits_def key_of_def SecretTypeMeta_def)
qed

text \<open>The hash of a key of ordinary path characters is a valid key of a Secret's data.\<close>

lemma hashKey_valid:
  assumes "key \<noteq> []" and "length key \<le> 189" and "\<forall>b \<in> set (bytes_of key). b64_plain b"
  shows "valid_data_key (hashKey key)"
proof (rule valid_data_keyI)
  have l: "length (hashKey key) = (4 * length key + 2) div 3"
    by (simp add: hashKey_def length_RawStdEncoding)
  show "length (hashKey key) \<le> 253" using assms(2) unfolding l by linarith
  have "0 < length key" using assms(1) by simp
  then have "0 < length (hashKey key)" unfolding l by linarith
  then show "hashKey key \<noteq> []" by auto
  show "\<forall>c \<in> set (hashKey key). is_alnum c"
    using RawStdEncoding_alnum[OF assms(3)] by (simp add: hashKey_def)
qed

text \<open>The bucket of a key in one directory, and of a key in two.\<close>

lemma rawBucketForKey_dir:
  assumes "CHR ''/'' \<notin> set d" and "CHR ''/'' \<notin> set n"
  shows "rawBucketForKey (d @ ''/'' @ n) = d"
  using assms by (simp add: rawBucketForKey_alt split_at_append_sep split_at_free)

lemma bucketForKey_underscore:
  assumes "2 < length (split_at CHR ''/'' key)"
  shows "CHR ''_'' \<in> set (bucketForKey key)"
proof -
  obtain x y z zs where s: "split_at CHR ''/'' key = x # y # z # zs"
    using assms by (cases "split_at CHR ''/'' key"; cases "tl (split_at CHR ''/'' key)";
        cases "tl (tl (split_at CHR ''/'' key))") auto
  have "CHR ''_'' \<in> set (rawBucketForKey key)"
    using sep_in_join[of "butlast (x # y # z # zs)"] by (simp add: rawBucketForKey_alt s)
  then have "lower_char CHR ''_'' \<in> set (bucketForKey key)"
    by (simp add: bucketForKey_def ToLower_def)
  then show ?thesis by (simp add: lower_char_def is_upper_def)
qed

lemma underscore_not_dns: "CHR ''_'' \<in> set s \<Longrightarrow> \<not> dns1123_subdomain s"
  using dns1123_subdomain_chars[of s "CHR ''_''"] by (auto simp: is_lower_alnum_def is_alnum_def)

end
