(* ===== verification/StorageProps.thy ===== *)
theory StorageProps
  imports StorageEnv
begin

text \<open>
  The properties of the key-value store, each with a run of the store on the environment of
  \<open>StorageEnv\<close> that meets its hypotheses.
\<close>

text \<open>What the server has to admit for a write of a key to go through.\<close>

definition kv_admitted ::
    "(kobject \<Rightarrow> bool) \<Rightarrow> ('s \<Rightarrow> objkey \<Rightarrow> stored option) \<Rightarrow> string \<Rightarrow> 's \<Rightarrow> string \<Rightarrow> bool" where
  "kv_admitted admissible view ns s key \<longleftrightarrow>
     (\<forall>obj. key_of obj = (SecretT, ns, bucketForKey key) \<and> ko_type obj = SecretTypeMeta
        \<and> om_labels (ko_meta obj) = bucket_labels (rawBucketForKey key)
        \<and> dom (map_of (as_secret (ko_payload obj))) \<subseteq>
            insert (hashKey key) (dom (bucket_data view ns s (bucketForKey key)))
        \<longrightarrow> admissible obj)"

subsection \<open>An example store\<close>

definition example_keys :: "string set" where
  "example_keys = {''a/x'', ''A/y''}"

lemma lower_A: "lower_char CHR ''A'' = CHR ''a''" "lower_char CHR ''a'' = CHR ''a''"
  by code_simp+

lemma example_bucket: "key \<in> example_keys \<Longrightarrow> bucketForKey key = ''a''"
  by (auto simp: example_keys_def bucketForKey_def rawBucketForKey_alt ToLower_def lower_A)

lemma example_hash: "key \<in> example_keys \<Longrightarrow> valid_data_key (hashKey key)"
  by (rule hashKey_valid) (auto simp: example_keys_def bytes_of_def b64_plain_def)

lemma example_inv_init: "kv_inv mem_storage example_keys mem_view ''default'' mem_init"
  by (simp add: kv_inv_def)

lemma example_admitted:
  assumes "kv_inv mem_storage example_keys mem_view ''default'' s" and "key \<in> example_keys"
  shows "kv_admitted mem_admits mem_view ''default'' s key"
  unfolding kv_admitted_def
proof (rule mem_bucket_admitted[OF _ example_hash[OF assms(2)]])
  show "dns1123_subdomain (bucketForKey key)"
    unfolding example_bucket[OF assms(2)]
    by (simp add: dns1123_subdomain_def dns1123_part_def is_lower_alnum_def is_alnum_def is_upper_def)
  show "\<forall>h \<in> dom (bucket_data mem_view ''default'' s (bucketForKey key)). valid_data_key h"
    using kv_inv_bucket_data[OF assms] example_hash by (fastforce simp: entry_placed_def)
qed

lemma example_stored:
  assumes "key \<in> example_keys"
  obtains s where "mem_up s" and "kv_inv mem_storage example_keys mem_view ''default'' s"
    and "kv_content mem_storage mem_view ''default'' s =
      [key \<mapsto> \<lparr>item_Key = key, item_Value = ''v'', item_Expiry = (if ttl = 0 then 0 else 1000 + ttl)\<rparr>]"
proof -
  have "key \<noteq> []" using assms by (auto simp: example_keys_def)
  then obtain s where s: "PutValue mem_storage key ''v'' ttl mem_init = (Inr (), s)" "mem_up s"
    using mem_kv.PutValue_live[OF mem_up_init, of key "''v''" ttl]
      example_admitted[OF example_inv_init assms, unfolded kv_admitted_def] by auto
  obtain item where i: "put_item mem_storage key ''v'' ttl item"
    "kv_content mem_storage mem_view ''default'' s = (kv_content mem_storage mem_view ''default'' mem_init)(key \<mapsto> item)"
    using mem_kv.PutValue_content(1)[OF s(1) refl] by blast
  have "kv_content mem_storage mem_view ''default'' mem_init = Map.empty"
    by (simp add: kv_content_def kv_raw_def bucket_data_def fun_eq_iff)
  moreover have "item = \<lparr>item_Key = key, item_Value = ''v'', item_Expiry = (if ttl = 0 then 0 else 1000 + ttl)\<rparr>"
    using i(1) by (cases item) (auto simp: put_item_def split: if_splits)
  moreover have "kv_inv mem_storage example_keys mem_view ''default'' s"
    by (rule mem_kv.kv_step_inv[OF example_inv_init, of "KvPut key ''v'' ttl"]) (simp_all add: s(1) assms)
  ultimately show ?thesis using that s(2) i(2) by simp
qed

lemma example_key: "''a/x'' \<in> example_keys" "''A/y'' \<in> example_keys"
  by (simp_all add: example_keys_def)

subsection \<open>Reading back\<close>

text \<open>
  C1. On the leader and with a server that answers, a value that was put is what a get
  returns until its time to live has passed, and no value at all after that; without a time to
  live it never expires. An empty value reads as a missing key.
\<close>

theorem kv_put_get:
  assumes "kv_live cli view ns st up admissible" and "up s" and "st_IsValidPathID st key"
    and "kv_admitted admissible view ns s key"
  shows "\<exists>expiry s1 t ed s2. PutValue st key val ttl s = (Inr (), s1)
    \<and> (if ttl = 0 then expiry = 0 else \<exists>t0. clock_reads st t0 \<and> expiry = t0 + ttl) \<and> clock_reads st t
    \<and> GetValue st key s1 =
        (if expiry \<noteq> 0 \<and> expiry < t \<or> val = [] then Inl (ErrKeyNotFound key) else Inr val, ed, s2)"
proof -
  obtain item s1 t ed s2 where i: "put_item st key val ttl item" "PutValue st key val ttl s = (Inr (), s1)"
    "GetValue st key s1 = ((case kv_read t (Some item) of None \<Rightarrow> Inl (ErrKeyNotFound key) | Some v \<Rightarrow> Inr v), ed, s2)"
    "clock_reads st t"
    using kv_live.put_get_live[OF assms(1-3) assms(4)[unfolded kv_admitted_def]]
    unfolding clock_reads_def by blast
  have "if ttl = 0 then item_Expiry item = 0 else \<exists>t0. clock_reads st t0 \<and> item_Expiry item = t0 + ttl"
    using i(1) unfolding put_item_def clock_reads_def by metis
  moreover have "item_Value item = val" using i(1) by (simp add: put_item_def)
  then have "(case kv_read t (Some item) of None \<Rightarrow> Inl (ErrKeyNotFound key) | Some v \<Rightarrow> Inr v)
      = (if item_Expiry item \<noteq> 0 \<and> item_Expiry item < t \<or> val = [] then Inl (ErrKeyNotFound key) else Inr val)"
    by (simp add: kv_read_def)
  ultimately show ?thesis using i(2-4)
    by (intro exI[of _ "item_Expiry item"] exI[of _ s1] exI[of _ t] exI[of _ ed] exI[of _ s2]) simp
qed

theorem kv_put_get_witness:
  "\<exists>s1 ed s2. PutValue mem_storage ''a/x'' ''v'' 60 mem_init = (Inr (), s1)
    \<and> GetValue mem_storage ''a/x'' s1 = (Inr ''v'', ed, s2)"
proof -
  have "clock_reads mem_storage t \<longleftrightarrow> t = 1000" for t by (auto simp: clock_reads_def)
  with kv_put_get[OF mem_kv_live mem_up_init _ example_admitted[OF example_inv_init example_key(1)], of "''v''" 60]
  show ?thesis by auto
qed

text \<open>
  After a delete, of a key that was there or not, a get reports the key as not found.
\<close>

theorem kv_delete_get:
  assumes "kv_live cli view ns st up admissible" and "up s" and "st_IsValidPathID st key"
    and "kv_admitted admissible view ns s key"
  shows "\<exists>r s1 ed s2. DeleteKey st key s = (r, s1) \<and> GetValue st key s1 = (Inl (ErrKeyNotFound key), ed, s2)"
  by (rule kv_live.delete_get_live[OF assms(1-3) assms(4)[unfolded kv_admitted_def]])

theorem kv_delete_get_witness:
  "\<exists>s r s1 ed s2. kv_content mem_storage mem_view ''default'' s ''a/x'' \<noteq> None
    \<and> DeleteKey mem_storage ''a/x'' s = (r, s1)
    \<and> GetValue mem_storage ''a/x'' s1 = (Inl (ErrKeyNotFound ''a/x''), ed, s2)"
proof -
  obtain s where s: "mem_up s" "kv_inv mem_storage example_keys mem_view ''default'' s"
    "kv_content mem_storage mem_view ''default'' s =
      [''a/x'' \<mapsto> \<lparr>item_Key = ''a/x'', item_Value = ''v'', item_Expiry = (if (0::int) = 0 then 0 else 1000 + 0)\<rparr>]"
    by (rule example_stored[OF example_key(1)])
  have "\<exists>r s1 ed s2. DeleteKey mem_storage ''a/x'' s = (r, s1)
    \<and> GetValue mem_storage ''a/x'' s1 = (Inl (ErrKeyNotFound ''a/x''), ed, s2)"
    by (rule kv_delete_get[OF mem_kv_live s(1) _ example_admitted[OF s(2) example_key(1)]]) simp
  moreover have "kv_content mem_storage mem_view ''default'' s ''a/x'' \<noteq> None" using s(3) by simp
  ultimately show ?thesis by blast
qed

text \<open>
  C2. A sequence of puts and deletes that all succeed does to the content of the store, over
  whatever buckets the keys fall into, what it does to a map from keys to items; the expiry of an
  item is a reading of the clock plus its time to live, or 0 when it has none.
\<close>

theorem kv_refines_map:
  assumes "kv_store cli view ns st" and "kv_run st ops s = (Inr u, s')"
  shows "\<exists>ts. length ts = length ops \<and> (\<forall>t \<in> set ts. clock_reads st t)
    \<and> kv_content st view ns s' = fold kv_apply (zip ops ts) (kv_content st view ns s)"
  by (rule kv_store.kv_run_refines[OF assms])

theorem kv_refines_map_witness:
  "\<exists>s'. kv_run mem_storage [KvPut ''a/x'' ''v'' 60, KvDelete ''A/y''] mem_init = (Inr (), s')
    \<and> kv_content mem_storage mem_view ''default'' s' =
       [''a/x'' \<mapsto> \<lparr>item_Key = ''a/x'', item_Value = ''v'', item_Expiry = 1060\<rparr>]"
proof -
  obtain s1 where s1: "PutValue mem_storage ''a/x'' ''v'' 60 mem_init = (Inr (), s1)" "mem_up s1"
    using mem_kv.PutValue_live[OF mem_up_init, of "''a/x''" "''v''" 60]
      example_admitted[OF example_inv_init example_key(1), unfolded kv_admitted_def] by auto
  have "kv_inv mem_storage example_keys mem_view ''default'' s1"
    by (rule mem_kv.kv_step_inv[OF example_inv_init, of "KvPut ''a/x'' ''v'' 60"]) (simp_all add: s1(1) example_key(1))
  note adm = example_admitted[OF this example_key(2), unfolded kv_admitted_def]
  have "bucketForKey ''A/y'' = bucketForKey ''a/x''" using example_bucket example_key by simp
  moreover obtain item where "kv_content mem_storage mem_view ''default'' s1 = (kv_content mem_storage mem_view ''default'' mem_init)(''a/x'' \<mapsto> item)"
    using mem_kv.PutValue_content(1)[OF s1(1) refl] by blast
  then have "kv_content mem_storage mem_view ''default'' s1 ''a/x'' = Some item" by simp
  then have "kv_raw mem_view ''default'' s1 ''a/x'' \<noteq> None"
    by (cases "kv_raw mem_view ''default'' s1 ''a/x''") (simp_all add: kv_content_def)
  ultimately have "mem_view s1 (SecretT, ''default'', bucketForKey ''A/y'') \<noteq> None"
    by (auto simp: kv_raw_def bucket_data_def split: option.splits)
  then obtain s2 where "DeleteKey mem_storage ''A/y'' s1 = (Inr (), s2)"
    using mem_kv.DeleteKey_live[OF s1(2) _ adm] by auto
  with s1(1) have r: "kv_run mem_storage [KvPut ''a/x'' ''v'' 60, KvDelete ''A/y''] mem_init = (Inr (), s2)" by simp
  have "kv_content mem_storage mem_view ''default'' mem_init = Map.empty"
    by (simp add: kv_content_def kv_raw_def bucket_data_def fun_eq_iff)
  moreover have "clock_reads mem_storage t \<longleftrightarrow> t = 1000" for t by (auto simp: clock_reads_def)
  ultimately show ?thesis
    using kv_refines_map[OF mem_kv_store r] r by (auto simp: length_Suc_conv fun_eq_iff)
qed

text \<open>
  C18. A put or a delete, also one that fails on the way, changes the entry of its own key at
  most: the content is as before, or as after the write.
\<close>

theorem kv_writes_are_local:
  assumes "kv_store cli view ns st"
    and "PutValue st key val ttl s = (r1, s1)" and "DeleteKey st key s = (r2, s2)"
  shows "(kv_content st view ns s1 = kv_content st view ns s
        \<or> (\<exists>item. put_item st key val ttl item \<and> kv_content st view ns s1 = (kv_content st view ns s)(key \<mapsto> item)))
    \<and> kv_content st view ns s2 \<in> {kv_content st view ns s, (kv_content st view ns s)(key := None)}"
  using kv_store.PutValue_content(2)[OF assms(1,2)] kv_store.DeleteKey_content(2)[OF assms(1,3)] by blast

theorem kv_writes_are_local_witness:
  "let s = mem_init\<lparr>mem_faults := [None, Some ''Timeout'']\<rparr>
   in kv_content mem_storage mem_view ''default'' (snd (DeleteKey mem_storage ''a/x'' s)) ''b''
        = kv_content mem_storage mem_view ''default'' s ''b''"
proof -
  let ?s = "mem_init\<lparr>mem_faults := [None, Some ''Timeout'']\<rparr>"
  obtain r1 s1 r2 s2 where p: "PutValue mem_storage ''a/x'' ''v'' 0 ?s = (r1, s1)"
    "DeleteKey mem_storage ''a/x'' ?s = (r2, s2)" by fastforce
  from kv_writes_are_local[OF mem_kv_store p] p(2) show ?thesis by (auto simp: Let_def)
qed

subsection \<open>Listing keys\<close>

text \<open>
  C10. Every put and delete of keys in \<open>K\<close>, and any failure of one, keeps the storage Secrets
  well formed: in the namespace, named and labelled by a key of \<open>K\<close>, with every entry decoding to
  an item whose key it is filed under.
\<close>

theorem kv_secrets_well_formed:
  assumes "kv_store cli view ns st" and "kv_inv st K view ns s" and "key \<in> K"
    and "PutValue st key val ttl s = (r1, s1)" and "DeleteKey st key s = (r2, s2)"
  shows "kv_inv st K view ns s1 \<and> kv_inv st K view ns s2"
  using kv_store.kv_step_inv[OF assms(1,2), of "KvPut key val ttl" r1 s1]
    kv_store.kv_step_inv[OF assms(1,2), of "KvDelete key" r2 s2] assms(3-5) by simp

theorem kv_secrets_well_formed_witness:
  "kv_inv mem_storage example_keys mem_view ''default'' (snd (PutValue mem_storage ''A/y'' ''v'' 0 mem_init))"
proof -
  obtain r1 s1 r2 s2 where p: "PutValue mem_storage ''A/y'' ''v'' 0 mem_init = (r1, s1)"
    "DeleteKey mem_storage ''A/y'' mem_init = (r2, s2)" by fastforce
  from kv_secrets_well_formed[OF mem_kv_store example_inv_init example_key(2) p] p show ?thesis by simp
qed

text \<open>
  C11. When no two keys of \<open>K\<close> fall into one bucket with differently written directories, a
  listing returns exactly the stored keys with the prefix that have not expired: all it returns
  are such keys, and it misses none that is alive at every reading of the clock.
\<close>

theorem list_keys_exact:
  assumes "kv_store cli view ns st" and "kv_inv st K view ns s" and "ListKeys st p s = (Inr keys, s')"
    and "\<And>k1 k2. k1 \<in> K \<Longrightarrow> k2 \<in> K \<Longrightarrow> bucketForKey k1 = bucketForKey k2 \<Longrightarrow>
      rawBucketForKey k1 = rawBucketForKey k2"
  shows "(\<forall>k \<in> set keys. \<exists>item. kv_content st view ns s k = Some item \<and> HasPrefix k p \<and> maybe_alive st item)
    \<and> (\<forall>k \<in> K. \<forall>item. kv_content st view ns s k = Some item \<and> HasPrefix k p \<and> surely_alive st item
         \<longrightarrow> k \<in> set keys)"
proof (intro conjI ballI allI impI)
  fix k assume "k \<in> set keys"
  from kv_store.ListKeys_sound[OF assms(1-3) this]
  show "\<exists>item. kv_content st view ns s k = Some item \<and> HasPrefix k p \<and> maybe_alive st item" by blast
next
  fix k item
  assume k: "k \<in> K" "kv_content st view ns s k = Some item \<and> HasPrefix k p \<and> surely_alive st item"
  then show "k \<in> set keys"
    using kv_store.ListKeys_complete[OF assms(1-4) k(1), of item] by blast
qed

lemma mem_list_buckets_Inr:
  assumes "kv_inv mem_storage K mem_view ''default'' s" and "mem_up s"
  obtains keys s' where "ListKeys mem_storage p s = (Inr keys, s')"
proof -
  obtain objs s1 where o: "api_list mem_client SecretT [] [(MeshStorageLabel, ''true'')] s = (Inr objs, s1)"
    using mem.up_list[OF assms(2)] by blast
  define buckets where "buckets = filter (\<lambda>b. if length p = 0 then True
      else HasPrefix (case om_labels (ko_meta b) BucketLabel of None \<Rightarrow> [] | Some l \<Rightarrow> l)
             (rawBucketForKey p)) objs"
  have b: "bucketsForPrefix mem_storage p s = (Inr buckets, s1)"
    using o by (simp add: bucketsForPrefix_def mem_storage_def buckets_def)
  have dec: "\<exists>item. st_Unmarshal mem_storage val = Inr item" if "b' \<in> set buckets" "val \<in> bucket_values b'" for b' val
  proof -
    have "b' \<in> set objs" using that(1) by (auto simp: buckets_def split: if_splits)
    then show ?thesis by (rule mem_kv.listed_bucket[OF assms(1) o]) (use that(2) in blast)
  qed
  have items: "\<exists>keys' s'. list_items mem_storage p vals keys t = (Inr keys', s')"
    if "\<forall>val \<in> set vals. \<exists>item. st_Unmarshal mem_storage val = Inr item" for vals keys t
    using that
  proof (induction vals arbitrary: keys t)
    case (Cons val vals)
    then obtain item where "st_Unmarshal mem_storage val = Inr item" by auto
    with Cons show ?case by (auto split: prod.split bool.split)
  qed simp
  have "\<exists>keys' s'. list_buckets mem_storage p bs keys t = (Inr keys', s')"
    if "\<forall>b' \<in> set bs. \<forall>val \<in> bucket_values b'. \<exists>item. st_Unmarshal mem_storage val = Inr item" for bs keys t
    using that
  proof (induction bs arbitrary: keys t)
    case (Cons b' bs)
    then obtain keys' t' where
      "list_items mem_storage p (map snd (as_secret (ko_payload b'))) keys t = (Inr keys', t')"
      using items[of "map snd (as_secret (ko_payload b'))" keys t] by (auto simp: bucket_values_def)
    with Cons show ?case by auto
  qed simp
  then obtain keys s' where "list_buckets mem_storage p buckets [] s1 = (Inr keys, s')" using dec by blast
  with b that show ?thesis by (simp add: ListKeys_def)
qed

theorem list_keys_exact_witness:
  "\<exists>s keys s'. ListKeys mem_storage ''a/'' s = (Inr keys, s') \<and> ''a/x'' \<in> set keys"
proof -
  let ?K = "{''a/x''}"
  obtain s where s: "PutValue mem_storage ''a/x'' ''v'' 0 mem_init = (Inr (), s)" "mem_up s"
    using mem_kv.PutValue_live[OF mem_up_init, of "''a/x''" "''v''" 0]
      example_admitted[OF example_inv_init example_key(1), unfolded kv_admitted_def] by auto
  have "kv_inv mem_storage ?K mem_view ''default'' mem_init" by (simp add: kv_inv_def)
  from mem_kv.kv_step_inv[OF this, of "KvPut ''a/x'' ''v'' 0"] s(1)
  have inv: "kv_inv mem_storage ?K mem_view ''default'' s" by simp
  obtain item where i: "put_item mem_storage ''a/x'' ''v'' 0 item"
    "kv_content mem_storage mem_view ''default'' s ''a/x'' = Some item"
    using mem_kv.PutValue_content(1)[OF s(1) refl] by auto
  obtain keys s' where l: "ListKeys mem_storage ''a/'' s = (Inr keys, s')"
    by (rule mem_list_buckets_Inr[OF inv s(2)])
  from list_keys_exact[OF mem_kv_store inv l] i
  have "HasPrefix ''a/x'' ''a/'' \<longrightarrow> ''a/x'' \<in> set keys" by (simp add: surely_alive_def put_item_def)
  with l show ?thesis by (auto simp: HasPrefix_def)
qed

text \<open>
  C26. A put into a directory that differs from a stored key's only in the case of its letters
  relabels their common bucket: a listing by the first directory no longer returns the first
  key, although a get still finds it.
\<close>

theorem case_variant_hides_keys:
  assumes "kv_live cli view ns st up admissible" and "up s" and "kv_inv st K view ns s"
    and "kv_content st view ns s k = Some \<lparr>item_Key = k, item_Value = v, item_Expiry = 0\<rparr>" and "v \<noteq> []"
    and "k \<in> K" "k' \<in> K" "k' \<noteq> k" "st_IsValidPathID st k" "st_IsValidPathID st k'"
    and "bucketForKey k' = bucketForKey k" and "\<not> HasPrefix (rawBucketForKey k') (rawBucketForKey p)" "p \<noteq> []"
    and "kv_admitted admissible view ns s k'"
  shows "\<exists>s1. PutValue st k' v' 0 s = (Inr (), s1)
    \<and> (\<exists>ed s2. GetValue st k s1 = (Inr v, ed, s2))
    \<and> (\<forall>keys s2. ListKeys st p s1 = (Inr keys, s2) \<longrightarrow> k \<notin> set keys)"
proof -
  note store = kv_server.axioms(1)[OF kv_live.axioms(1)[OF assms(1)]]
  obtain s1 where s1: "PutValue st k' v' 0 s = (Inr (), s1)" "up s1"
    using kv_live.PutValue_live[OF assms(1,2,10) assms(14)[unfolded kv_admitted_def]] by blast
  have inv: "kv_inv st K view ns s1"
    using kv_store.kv_step_inv[OF store assms(3), of "KvPut k' v' 0"] s1(1) assms(7) by simp
  have c: "kv_content st view ns s1 k = Some \<lparr>item_Key = k, item_Value = v, item_Expiry = 0\<rparr>"
    using kv_store.PutValue_content(1)[OF store s1(1) refl] assms(4,8) by auto
  then obtain ed s2 where "GetValue st k s1 = (Inr v, ed, s2)"
    using kv_live.GetValue_live[OF assms(1) s1(2) assms(9)] assms(5) by (auto simp: kv_read_def)
  moreover obtain m where "view s1 (SecretT, ns, bucketForKey k) = Some (bucket_labels (rawBucketForKey k'), m)"
    using kv_store.PutValue_relabels[OF store s1(1)] assms(11) by auto
  then have "k \<notin> set keys" if "ListKeys st p s1 = (Inr keys, s2)" for keys s2
    using kv_store.ListKeys_hidden[OF store inv that _ assms(13)] assms(12) by blast
  ultimately show ?thesis using s1(1) by blast
qed

theorem case_variant_hides_keys_witness:
  "\<exists>s s1. PutValue mem_storage ''A/y'' ''w'' 0 s = (Inr (), s1)
    \<and> (\<exists>ed s2. GetValue mem_storage ''a/x'' s1 = (Inr ''v'', ed, s2))
    \<and> (\<forall>keys s2. ListKeys mem_storage ''a/'' s1 = (Inr keys, s2) \<longrightarrow> ''a/x'' \<notin> set keys)"
proof -
  obtain s where s: "mem_up s" "kv_inv mem_storage example_keys mem_view ''default'' s"
    "kv_content mem_storage mem_view ''default'' s =
      [''a/x'' \<mapsto> \<lparr>item_Key = ''a/x'', item_Value = ''v'', item_Expiry = (if (0::int) = 0 then 0 else 1000 + 0)\<rparr>]"
    by (rule example_stored[OF example_key(1)])
  have c: "kv_content mem_storage mem_view ''default'' s ''a/x'' =
      Some \<lparr>item_Key = ''a/x'', item_Value = ''v'', item_Expiry = 0\<rparr>" using s(3) by simp
  have "\<exists>s1. PutValue mem_storage ''A/y'' ''w'' 0 s = (Inr (), s1)
    \<and> (\<exists>ed s2. GetValue mem_storage ''a/x'' s1 = (Inr ''v'', ed, s2))
    \<and> (\<forall>keys s2. ListKeys mem_storage ''a/'' s1 = (Inr keys, s2) \<longrightarrow> ''a/x'' \<notin> set keys)"
    by (rule case_variant_hides_keys[OF mem_kv_live s(1,2) c _ example_key])
      (simp_all add: example_bucket example_key example_admitted[OF s(2) example_key(2)]
        rawBucketForKey_alt HasPrefix_def)
  then show ?thesis by blast
qed

text \<open>
  C39. A listing returns what an iteration over the same prefix visits, in the same order, and
  fails where it fails.
\<close>

theorem list_keys_is_iteration:
  "ListKeys st p s =
     (case IterPrefix st p (\<lambda>k v w. (None, w @ [k])) [] s of
        (Inl err, w, s') \<Rightarrow> (Inl err, s') | (Inr _, w, s') \<Rightarrow> (Inr w, s'))"
  by (auto simp: ListKeys_def IterPrefix_def list_buckets_iter split: prod.split sum.split)

text \<open>
  A listing asks the server for the storage Secrets of all namespaces: with an empty
  prefix, every key that any such Secret holds without expiry is returned, also those of a
  store in another namespace.
\<close>

theorem list_keys_crosses_namespaces:
  assumes "kube_api cli view" and "st_cli st = cli" and "ListKeys st [] s = (Inr keys, s')"
    and "view s (SecretT, other, b) = Some (bucket_labels raw, SecretData m)" and "m h = Some d"
    and "st_Unmarshal st d = Inr item" and "item_Expiry item = 0"
  shows "item_Key item \<in> set keys"
  by (rule kube_api.ListKeys_all_namespaces[OF assms])

theorem list_keys_crosses_namespaces_witness:
  "\<exists>s keys s'. kv_content mem_storage mem_view ''default'' s ''a/x'' \<noteq> None
    \<and> ListKeys (mem_storage\<lparr>st_Namespace := ''elsewhere''\<rparr>) [] s = (Inr keys, s') \<and> ''a/x'' \<in> set keys"
proof -
  let ?item = "\<lparr>item_Key = ''a/x'', item_Value = ''v'', item_Expiry = (if (0::int) = 0 then 0 else 1000 + 0)\<rparr>"
  obtain s where s: "mem_up s" "kv_inv mem_storage example_keys mem_view ''default'' s"
    "kv_content mem_storage mem_view ''default'' s = [''a/x'' \<mapsto> ?item]"
    by (rule example_stored[OF example_key(1)])
  let ?st = "mem_storage\<lparr>st_Namespace := ''elsewhere''\<rparr>"
  obtain keys s' where l: "ListKeys mem_storage [] s = (Inr keys, s')"
    by (rule mem_list_buckets_Inr[OF s(2,1)])
  then have l': "ListKeys ?st [] s = (Inr keys, s')" by (simp only: ListKeys_namespace)
  have c: "kv_content mem_storage mem_view ''default'' s ''a/x'' = Some ?item" using s(3) by simp
  then obtain d where d: "kv_raw mem_view ''default'' s ''a/x'' = Some d" "st_Unmarshal mem_storage d = Inr ?item"
    by (auto simp: kv_content_def split: option.splits sum.splits)
  then obtain l m where v: "mem_view s (SecretT, ''default'', bucketForKey ''a/x'') = Some (l, SecretData m)"
    "m (hashKey ''a/x'') = Some d"
    by (auto simp: kv_raw_def bucket_data_def split: option.splits prod.splits content.splits)
  have "bucket_ok mem_storage example_keys (bucketForKey ''a/x'') (l, SecretData m)"
    using s(2) v(1) example_key(1) unfolding kv_inv_def by blast
  then obtain raw where raw: "l = bucket_labels raw" by (auto simp: bucket_ok_def)
  have "item_Key ?item \<in> set keys"
    by (rule list_keys_crosses_namespaces[where view = mem_view and h = "hashKey ''a/x''" and item = ?item,
          OF mem.kube_api_axioms _ l' v(1)[unfolded raw] v(2)])
      (use d(2) in \<open>simp_all add: mem_storage_def\<close>)
  with l' c show ?thesis by auto
qed

subsection \<open>Leaders and observers\<close>

text \<open>
  Only the leader writes. On a node that takes part in the election without leading, both
  writes report that it is not the leader and the server is unchanged; on a node that takes no
  part the elector is nil, and both writes panic.
\<close>

theorem writes_need_the_leader:
  assumes "kv_store cli view ns st" and "st_IsValidPathID st key"
  shows "(\<forall>s s1. IsLeading st s = (Inr False, s1) \<longrightarrow>
      PutValue st key val ttl s = (Inl ErrNotLeader, s1) \<and> DeleteKey st key s = (Inl ErrNotLeader, s1)
      \<and> view s1 = view s)
    \<and> (st_leaders st = None \<longrightarrow>
      (\<forall>s. PutValue st key val ttl s = (Inl NilDereference, s) \<and> DeleteKey st key s = (Inl NilDereference, s)))"
  using kv_store.non_leader_writes[OF assms(1) _ assms(2)] assms(2)
  by (auto simp: PutValue_def DeleteKey_def IsLeading_def)

theorem writes_need_the_leader_witness:
  "PutValue (mem_storage\<lparr>st_leaders := None\<rparr>) ''a/x'' ''v'' 0 mem_init = (Inl NilDereference, mem_init)"
proof -
  have "kv_store mem_client mem_view ''default'' (mem_storage\<lparr>st_leaders := None\<rparr>)"
    by unfold_locales (auto simp: mem_storage_def unary_codec)
  from writes_need_the_leader[OF this, of "''a/x''" "''v''" 0] show ?thesis by simp
qed

subsection \<open>Buckets\<close>

text \<open>
  A delete never removes the Secret of a bucket: with the last entry gone the Secret is
  deleted and at once applied again, without data.
\<close>

theorem delete_leaves_empty_bucket:
  assumes "kv_store cli view ns st" and "DeleteKey st key s = (Inr (), s')"
    and "dom (bucket_data view ns s (bucketForKey key)) \<subseteq> {hashKey key}"
  shows "view s' (SecretT, ns, bucketForKey key) = Some (bucket_labels (rawBucketForKey key), SecretData Map.empty)"
proof -
  have "(bucket_data view ns s (bucketForKey key))(hashKey key := None) = Map.empty"
    using assms(3) by (auto simp: fun_eq_iff dom_def)
  then show ?thesis using kv_store.delete_leaves_bucket[OF assms(1,2)] by simp
qed

theorem delete_leaves_empty_bucket_witness:
  "\<exists>s s'. DeleteKey mem_storage ''a/x'' s = (Inr (), s')
    \<and> mem_view s' (SecretT, ''default'', ''a'') = Some (bucket_labels ''a'', SecretData Map.empty)"
proof -
  let ?item = "\<lparr>item_Key = ''a/x'', item_Value = ''v'', item_Expiry = (if (0::int) = 0 then 0 else 1000 + 0)\<rparr>"
  obtain s where s: "mem_up s" "kv_inv mem_storage example_keys mem_view ''default'' s"
    "kv_content mem_storage mem_view ''default'' s = [''a/x'' \<mapsto> ?item]"
    by (rule example_stored[OF example_key(1)])
  note b = example_bucket[OF example_key(1)]
  have data: "h = hashKey ''a/x''" if "bucket_data mem_view ''default'' s (bucketForKey ''a/x'') h = Some d" for h d
  proof -
    from kv_inv_bucket_data[OF s(2) example_key(1) that] obtain item where
      i: "st_Unmarshal mem_storage d = Inr item" "item_Key item \<in> example_keys" "h = hashKey (item_Key item)"
      by (auto simp: entry_placed_def)
    with that example_bucket[OF i(2)] b have "kv_content mem_storage mem_view ''default'' s (item_Key item) = Some item"
      by (simp add: kv_content_def kv_raw_def)
    with s(3) i(3) show ?thesis by (auto split: if_splits)
  qed
  have "kv_raw mem_view ''default'' s ''a/x'' \<noteq> None"
    using fun_cong[OF s(3), of "''a/x''"] by (auto simp: kv_content_def split: option.splits)
  then have "mem_view s (SecretT, ''default'', bucketForKey ''a/x'') \<noteq> None"
    by (auto simp: kv_raw_def bucket_data_def split: option.splits)
  then obtain s' where d: "DeleteKey mem_storage ''a/x'' s = (Inr (), s')"
    using mem_kv.DeleteKey_live[OF s(1), of "''a/x''"]
      example_admitted[OF s(2) example_key(1), unfolded kv_admitted_def] by auto
  have "dom (bucket_data mem_view ''default'' s (bucketForKey ''a/x'')) \<subseteq> {hashKey ''a/x''}"
    using data by auto
  from delete_leaves_empty_bucket[OF mem_kv_store d this] d show ?thesis
    unfolding b by (auto simp: rawBucketForKey_alt)
qed

text \<open>
  C25. The goroutine that a get of an expired key starts writes back the Secret the get had
  read: a put of that key, or of a new key of the same bucket, that came in between and was
  reported as done is lost.
\<close>

theorem expired_get_loses_later_put:
  assumes "kv_live cli view ns st up admissible" and "up s" and "st_IsValidPathID st key"
    and "kv_content st view ns s key = Some item" and "item_Expiry item \<noteq> 0"
    and "\<And>t. clock_reads st t \<Longrightarrow> item_Expiry item < t"
    and "st_IsValidPathID st key'" and "bucketForKey key' = bucketForKey key"
    and "key' = key \<or> kv_raw view ns s key' = None"
    and "kv_admitted admissible view ns s key" and "kv_admitted admissible view ns s key'"
  shows "\<exists>ed s1 s2. GetValue st key s = (Inl (ErrKeyNotFound key), Some ed, s1)
    \<and> PutValue st key' val 0 s1 = (Inr (), s2)
    \<and> kv_content st view ns s2 key' = Some \<lparr>item_Key = key', item_Value = val, item_Expiry = 0\<rparr>
    \<and> kv_content st view ns (run_expired_delete st ed s2) key' = None"
proof -
  have "item_Expiry item < t" if "st_now st sa = (t, sb)" for sa t sb
    using assms(6)[of t] that by (auto simp: clock_reads_def)
  from kv_live.stale_delete_live[OF assms(1-5) this assms(7-9)
      assms(10)[unfolded kv_admitted_def] assms(11)[unfolded kv_admitted_def]]
  show ?thesis .
qed

theorem expired_get_loses_later_put_witness:
  "\<exists>s ed s1 s2. GetValue mem_storage ''a/x'' s = (Inl (ErrKeyNotFound ''a/x''), Some ed, s1)
    \<and> PutValue mem_storage ''a/x'' ''new'' 0 s1 = (Inr (), s2)
    \<and> kv_content mem_storage mem_view ''default'' (run_expired_delete mem_storage ed s2) ''a/x'' = None"
proof -
  let ?item = "\<lparr>item_Key = ''a/x'', item_Value = ''v'', item_Expiry = (if - (5::int) = 0 then 0 else 1000 + - 5)\<rparr>"
  obtain s where s: "mem_up s" "kv_inv mem_storage example_keys mem_view ''default'' s"
    "kv_content mem_storage mem_view ''default'' s = [''a/x'' \<mapsto> ?item]"
    by (rule example_stored[OF example_key(1)])
  have c: "kv_content mem_storage mem_view ''default'' s ''a/x'' = Some ?item" using s(3) by simp
  have t: "item_Expiry ?item < t" if "clock_reads mem_storage t" for t
    using that by (auto simp: clock_reads_def)
  note adm = example_admitted[OF s(2) example_key(1)]
  from expired_get_loses_later_put[OF mem_kv_live s(1) _ c _ t _ _ _ adm adm, of "''new''"]
  show ?thesis by fastforce
qed

text \<open>
  A server that only takes DNS names as names of objects refuses every put of a key with
  two or more slashes: the name of its bucket has an underscore.
\<close>

theorem nested_keys_are_refused:
  assumes "kv_store cli view ns st"
    and "\<And>obj opts s s'. api_patch cli obj opts s = (Inr (), s') \<Longrightarrow> dns1123_subdomain (om_name (ko_meta obj))"
    and "2 < length (split_at CHR ''/'' key)"
  shows "PutValue st key val ttl s \<noteq> (Inr (), s')"
proof
  assume "PutValue st key val ttl s = (Inr (), s')"
  then have "dns1123_subdomain (bucketForKey key)"
    by (rule kv_store.PutValue_name[OF assms(1)]) (rule assms(2))
  with underscore_not_dns[OF bucketForKey_underscore[OF assms(3)]] show False by blast
qed

lemma mem_patch_name:
  "api_patch mem_client obj opts s = (Inr (), s') \<Longrightarrow> dns1123_subdomain (om_name (ko_meta obj))"
  by (auto simp: mem_ops mem_admits_def split: option.splits if_splits)

theorem nested_keys_are_refused_witness:
  "fst (PutValue mem_storage ''registry/nodes/a'' ''v'' 0 mem_init) \<noteq> Inr ()"
proof -
  have "PutValue mem_storage ''registry/nodes/a'' ''v'' 0 mem_init \<noteq> (Inr (), s')" for s'
    by (rule nested_keys_are_refused[OF mem_kv_store]) (rule mem_patch_name, assumption, simp)
  then show ?thesis by (cases "PutValue mem_storage ''registry/nodes/a'' ''v'' 0 mem_init") auto
qed

end
