(* ===== verification/Cluster.thy ===== *)
theory Cluster
  imports StorageProps
begin

text \<open>
  Several nodes on one namespace. The mutex of the store orders the operations of one process
  only: those of another process, and the goroutines that delete expired keys, come in between
  the calls an operation makes. Here \<open>PutValue\<close>, \<open>Delete\<close> and \<open>patchBucket\<close> of \<open>Storage\<close> are cut
  at these calls, and the pieces of all nodes run in any order.
\<close>

subsection \<open>The pieces of an operation\<close>

text \<open>\<open>PutValue\<close> up to the Secret it will write to, and \<open>Delete\<close> up to the one it was given.\<close>

definition PutValue_read :: "'s storage \<Rightarrow> string \<Rightarrow> ('s, kobject) act" where
  "PutValue_read st key s =
     (if \<not> st_IsValidPathID st key then (Inl ErrInvalidKey, s)
      else
        (case IsLeading st s of
           (Inl panic, s1) \<Rightarrow> (Inl panic, s1)
         | (Inr False, s1) \<Rightarrow> (Inl ErrNotLeader, s1)
         | (Inr True, s1) \<Rightarrow>
             (case api_get (st_cli st) SecretT (st_Namespace st) (bucketForKey key) s1 of
                (Inl err, s2) \<Rightarrow>
                  (if IgnoreNotFound err \<noteq> None then (Inl err, s2)
                   else (Inr (new_bucket (st_Namespace st) key), s2))
              | (Inr secret, s2) \<Rightarrow> (Inr secret, s2))))"

definition DeleteKey_read :: "'s storage \<Rightarrow> string \<Rightarrow> ('s, kobject) act" where
  "DeleteKey_read st key s =
     (if \<not> st_IsValidPathID st key then (Inl ErrInvalidKey, s)
      else
        (case IsLeading st s of
           (Inl panic, s1) \<Rightarrow> (Inl panic, s1)
         | (Inr False, s1) \<Rightarrow> (Inl ErrNotLeader, s1)
         | (Inr True, s1) \<Rightarrow>
             (case api_get (st_cli st) SecretT (st_Namespace st) (bucketForKey key) s1 of
                (Inl err, s2) \<Rightarrow>
                  (if IgnoreNotFound err = None then (Inl (ErrKeyNotFound key), s2) else (Inl err, s2))
              | (Inr secret, s2) \<Rightarrow> (Inr secret, s2))))"

text \<open>The two calls of \<open>patchBucket\<close>: the delete of an empty bucket, and the apply.\<close>

definition patchBucket_delete :: "'s storage \<Rightarrow> kobject \<Rightarrow> ('s, unit) act" where
  "patchBucket_delete st bucket s =
     (if length (as_secret (ko_payload bucket)) = 0 then
        (case api_delete (st_cli st) bucket s of
           (Inl err, s') \<Rightarrow>
             (if IgnoreNotFound err \<noteq> None then (Inl (Wrap ''delete bucket secret'' err), s') else (Inr (), s'))
         | (Inr _, s') \<Rightarrow> (Inr (), s'))
      else (Inr (), s))"

definition patchBucket_apply :: "'s storage \<Rightarrow> kobject \<Rightarrow> string \<Rightarrow> ('s, unit) act" where
  "patchBucket_apply st bucket rawBucketName s =
     PatchObject (st_cli st) (bucket\<lparr>ko_type := SecretTypeMeta,
         ko_meta := (ko_meta bucket)\<lparr>om_labels := bucket_labels rawBucketName\<rparr>\<rparr>) s"

text \<open>Put together they are the operations.\<close>

lemma patchBucket_pieces:
  "patchBucket st bucket raw s =
     (case patchBucket_delete st bucket s of
        (Inl err, s') \<Rightarrow> (Inl err, s')
      | (Inr _, s') \<Rightarrow> patchBucket_apply st bucket raw s')"
  by (auto simp: patchBucket_def patchBucket_delete_def patchBucket_apply_def Let_def split: prod.split sum.split)

lemma PutValue_pieces:
  "PutValue st key val ttl s =
     (case PutValue_read st key s of
        (Inl err, s') \<Rightarrow> (Inl err, s')
      | (Inr secret, s') \<Rightarrow> put_entry st key val ttl secret s')"
  by (auto simp: PutValue_def PutValue_read_def split: prod.split sum.split bool.split)

lemma DeleteKey_pieces:
  "DeleteKey st key s =
     (case DeleteKey_read st key s of
        (Inl err, s') \<Rightarrow> (Inl err, s')
      | (Inr secret, s') \<Rightarrow> patchBucket st (remove_entry secret (hashKey key)) (rawBucketForKey key) s')"
  by (auto simp: DeleteKey_def DeleteKey_read_def split: prod.split sum.split bool.split)

subsection \<open>The nodes together\<close>

text \<open>
  A write that has not ended: the node, the Secret it has prepared, the key it is for, and
  whether the delete of \<open>patchBucket\<close> is behind it. \<open>cl_puts\<close> remembers the items that were
  encoded for a put; the program does not have it.
\<close>

record 's pending =
  pd_node :: "'s storage"
  pd_secret :: kobject
  pd_key :: string
  pd_deleted :: bool

record 's cluster =
  cl_server :: 's
  cl_pending :: "'s pending list"
  cl_puts :: "data_item list"

datatype 's action =
    PutBegin "'s storage" string string int
  | DeleteBegin "'s storage" string
  | Get "'s storage" string
  | Continue nat
  | Crash nat

definition begin_write :: "'s storage \<Rightarrow> kobject \<Rightarrow> string \<Rightarrow> 's cluster \<Rightarrow> 's cluster" where
  "begin_write st secret key c =
     c\<lparr>cl_pending := cl_pending c @ [\<lparr>pd_node = st, pd_secret = secret, pd_key = key, pd_deleted = False\<rparr>]\<rparr>"

definition drop_nth :: "nat \<Rightarrow> 'a list \<Rightarrow> 'a list" where
  "drop_nth i xs = take i xs @ drop (Suc i) xs"

text \<open>
  One piece of the work of one node. The two calls of \<open>Continue\<close> are the pieces of \<open>patchBucket\<close>;
  a node that crashes loses a write it has not ended.
\<close>

fun cluster_act :: "'s action \<Rightarrow> 's cluster \<Rightarrow> 's cluster" where
  "cluster_act (PutBegin st key val ttl) c =
     (case PutValue_read st key (cl_server c) of
        (Inl _, s1) \<Rightarrow> c\<lparr>cl_server := s1\<rparr>
      | (Inr secret, s1) \<Rightarrow>
          (case expiry_of st ttl s1 of
             (expiry, s2) \<Rightarrow>
               (let item = \<lparr>item_Key = key, item_Value = val, item_Expiry = expiry\<rparr>
                in case st_Marshal st item of
                     Inl _ \<Rightarrow> c\<lparr>cl_server := s2\<rparr>
                   | Inr data \<Rightarrow> begin_write st (store_entry secret (hashKey key) data) key
                       (c\<lparr>cl_server := s2, cl_puts := item # cl_puts c\<rparr>))))"
| "cluster_act (DeleteBegin st key) c =
     (case DeleteKey_read st key (cl_server c) of
        (Inl _, s1) \<Rightarrow> c\<lparr>cl_server := s1\<rparr>
      | (Inr secret, s1) \<Rightarrow> begin_write st (remove_entry secret (hashKey key)) key (c\<lparr>cl_server := s1\<rparr>))"
| "cluster_act (Get st key) c =
     (case GetValue st key (cl_server c) of
        (_, None, s1) \<Rightarrow> c\<lparr>cl_server := s1\<rparr>
      | (_, Some ed, s1) \<Rightarrow>
          begin_write st (remove_entry (ed_secret ed) (hashKey (ed_key ed))) (ed_key ed) (c\<lparr>cl_server := s1\<rparr>))"
| "cluster_act (Continue i) c =
     (if length (cl_pending c) \<le> i then c
      else (let p = cl_pending c ! i
            in if pd_deleted p then
                 (case patchBucket_apply (pd_node p) (pd_secret p) (rawBucketForKey (pd_key p)) (cl_server c) of
                    (_, s1) \<Rightarrow> c\<lparr>cl_server := s1, cl_pending := drop_nth i (cl_pending c)\<rparr>)
               else
                 (case patchBucket_delete (pd_node p) (pd_secret p) (cl_server c) of
                    (Inl _, s1) \<Rightarrow> c\<lparr>cl_server := s1, cl_pending := drop_nth i (cl_pending c)\<rparr>
                  | (Inr _, s1) \<Rightarrow>
                      c\<lparr>cl_server := s1, cl_pending := (cl_pending c)[i := p\<lparr>pd_deleted := True\<rparr>]\<rparr>)))"
| "cluster_act (Crash i) c = c\<lparr>cl_pending := drop_nth i (cl_pending c)\<rparr>"

text \<open>The nodes and keys an action is about.\<close>

fun act_on :: "'s storage set \<Rightarrow> string set \<Rightarrow> 's action \<Rightarrow> bool" where
  "act_on nodes K (PutBegin st key _ _) \<longleftrightarrow> st \<in> nodes \<and> key \<in> K"
| "act_on nodes K (DeleteBegin st key) \<longleftrightarrow> st \<in> nodes \<and> key \<in> K"
| "act_on nodes K (Get st key) \<longleftrightarrow> st \<in> nodes \<and> key \<in> K"
| "act_on nodes K (Continue i) \<longleftrightarrow> True"
| "act_on nodes K (Crash i) \<longleftrightarrow> True"

inductive cluster_reaches :: "'s storage set \<Rightarrow> string set \<Rightarrow> 's cluster \<Rightarrow> 's cluster \<Rightarrow> bool"
  for nodes K c0 where
  cluster_start: "cluster_reaches nodes K c0 c0"
| cluster_step: "cluster_reaches nodes K c0 c \<Longrightarrow> act_on nodes K a \<Longrightarrow>
    cluster_reaches nodes K c0 (cluster_act a c)"

subsection \<open>What every piece keeps\<close>

text \<open>
  An entry that decodes to an item of the set \<open>Q\<close> and lies where its key belongs; the data of a
  bucket, and the pieces in flight, with such entries only.
\<close>

definition entry_from ::
    "(string \<Rightarrow> goerr + data_item) \<Rightarrow> data_item set \<Rightarrow> string \<Rightarrow> string \<Rightarrow> string \<Rightarrow> bool" where
  "entry_from unmarshal Q b h d \<longleftrightarrow> (\<exists>item \<in> Q. unmarshal d = Inr item
     \<and> b = bucketForKey (item_Key item) \<and> h = hashKey (item_Key item))"

definition data_from ::
    "(string \<Rightarrow> goerr + data_item) \<Rightarrow> data_item set \<Rightarrow> string \<Rightarrow> (string \<rightharpoonup> string) \<Rightarrow> bool" where
  "data_from unmarshal Q b m \<longleftrightarrow> (\<forall>h d. m h = Some d \<longrightarrow> entry_from unmarshal Q b h d)"

definition secret_data :: "kobject \<Rightarrow> (string \<rightharpoonup> string)" where
  "secret_data secret = map_of (as_secret (ko_payload secret))"

lemma secret_data_simps [simp]:
  "secret_data (store_entry secret h d) = (secret_data secret)(h \<mapsto> d)"
  "secret_data (remove_entry secret h) = (secret_data secret)(h := None)"
  by (simp_all add: secret_data_def)

lemma data_from_mono: "data_from u Q b m \<Longrightarrow> Q \<subseteq> Q' \<Longrightarrow> data_from u Q' b m"
  unfolding data_from_def entry_from_def by blast

lemma data_from_simps [simp]: "data_from u Q b Map.empty"
  by (simp add: data_from_def)

lemma data_from_remove: "data_from u Q b m \<Longrightarrow> data_from u Q b (m(h := None))"
  by (simp add: data_from_def)

lemma data_from_store:
  "data_from u Q b m \<Longrightarrow> entry_from u Q b h d \<Longrightarrow> data_from u Q b (m(h \<mapsto> d))"
  by (simp add: data_from_def)

context kv_store begin

lemma patchBucket_delete_view:
  assumes "patchBucket_delete st bucket s = (r, s')" and "key_of bucket = (SecretT, ns, b)"
  shows "view s' = view s \<or> view s' = (view s)((SecretT, ns, b) := None)"
proof (cases "as_secret (ko_payload bucket) = []")
  case True
  obtain rd s1 where d: "api_delete cli bucket s = (rd, s1)" by fastforce
  with assms True have "s' = s1" by (cases rd) (auto simp: patchBucket_delete_def st_cli split: if_splits)
  then show ?thesis
    using d delete_done[of bucket s s1] delete_failed[of bucket s _ s1] assms(2) by (cases rd) auto
next
  case False
  with assms(1) show ?thesis by (simp add: patchBucket_delete_def)
qed

lemma patchBucket_apply_view:
  assumes "patchBucket_apply st bucket raw s = (r, s')" and "key_of bucket = (SecretT, ns, b)"
  shows "view s' = view s \<or> view s' = (view s)((SecretT, ns, b) \<mapsto> (bucket_labels raw, SecretData (secret_data bucket)))"
proof -
  let ?b = "bucket\<lparr>ko_type := SecretTypeMeta, ko_meta := (ko_meta bucket)\<lparr>om_labels := bucket_labels raw\<rparr>\<rparr>"
  have "key_of ?b = (SecretT, ns, b)" using assms(2) by (simp add: key_of_def)
  moreover have "shown ?b = (bucket_labels raw, SecretData (secret_data bucket))"
    using assms(2) by (cases "ko_payload bucket") (auto simp: shown_def key_of_def secret_data_def)
  ultimately show ?thesis
    using assms(1) PatchObject_done[of ?b s _ s'] PatchObject_failed[of ?b s _ s']
    by (cases r) (auto simp: patchBucket_apply_def st_cli)
qed

lemma PutValue_read_done:
  assumes "PutValue_read st key s = (r, s')"
  shows "view s' = view s" and "r = Inr secret \<Longrightarrow> key_of secret = (SecretT, ns, bucketForKey key)
    \<and> secret_data secret = bucket_data view ns s (bucketForKey key)"
proof -
  have "view s' = view s \<and> (r = Inr secret \<longrightarrow> key_of secret = (SecretT, ns, bucketForKey key)
    \<and> secret_data secret = bucket_data view ns s (bucketForKey key))"
  proof (cases "st_IsValidPathID st key")
    case False
    with assms show ?thesis by (auto simp: PutValue_read_def)
  next
    case valid: True
    obtain lr s1 where l: "IsLeading st s = (lr, s1)" by fastforce
    obtain g s2 where g: "api_get cli SecretT ns (bucketForKey key) s1 = (g, s2)" by fastforce
    note f = IsLeading_frame[OF l] get_frame[OF g]
    note d = bucket_data_cong[OF f(1), of ns]
    show ?thesis
    proof (cases g)
      case (Inl e)
      with get_bucket_absent[of "bucketForKey key" s1 e s2] assms valid l g f d st_cli st_ns show ?thesis
        by (auto simp: PutValue_read_def secret_data_def split: sum.splits bool.splits if_splits)
    next
      case (Inr x)
      note b = get_bucket[OF g[unfolded Inr]]
      with assms valid l g f d st_cli st_ns Inr show ?thesis
        by (auto simp: PutValue_read_def secret_data_def key_of_def split: sum.splits bool.splits)
    qed
  qed
  then show "view s' = view s" and "r = Inr secret \<Longrightarrow> key_of secret = (SecretT, ns, bucketForKey key)
    \<and> secret_data secret = bucket_data view ns s (bucketForKey key)" by blast+
qed

lemma DeleteKey_read_done:
  assumes "DeleteKey_read st key s = (r, s')"
  shows "view s' = view s" and "r = Inr secret \<Longrightarrow> key_of secret = (SecretT, ns, bucketForKey key)
    \<and> secret_data secret = bucket_data view ns s (bucketForKey key)"
proof -
  have "PutValue_read st key s = (r, s') \<or> (view s' = view s \<and> (\<exists>e. r = Inl e))"
  proof (cases "r = Inl (ErrKeyNotFound key)")
    case True
    obtain lr s1 where l: "IsLeading st s = (lr, s1)" by fastforce
    obtain g s2 where g: "api_get cli SecretT ns (bucketForKey key) s1 = (g, s2)" by fastforce
    from assms True l g IsLeading_frame[OF l] get_frame[OF g] st_cli st_ns show ?thesis
      by (auto simp: DeleteKey_read_def split: sum.splits bool.splits if_splits)
  next
    case False
    with assms show ?thesis
      by (auto simp: DeleteKey_read_def PutValue_read_def split: sum.splits bool.splits if_splits prod.splits)
  qed
  then show "view s' = view s" and "r = Inr secret \<Longrightarrow> key_of secret = (SecretT, ns, bucketForKey key)
    \<and> secret_data secret = bucket_data view ns s (bucketForKey key)" using PutValue_read_done by auto
qed

lemma GetValue_deferred:
  assumes "GetValue st key s = (r, Some ed, s')"
  shows "ed_key ed = key" and "key_of (ed_secret ed) = (SecretT, ns, bucketForKey key)"
    and "secret_data (ed_secret ed) = bucket_data view ns s (bucketForKey key)"
proof -
  obtain g s1 where g: "api_get cli SecretT ns (bucketForKey key) s = (g, s1)" by fastforce
  with assms st_cli st_ns obtain secret where secret: "g = Inr secret" "ed = \<lparr>ed_secret = secret, ed_key = key\<rparr>"
    by (auto simp: GetValue_def split: if_splits sum.splits option.splits prod.splits bool.splits)
  note b = get_bucket[OF g[unfolded secret(1)]]
  with secret(2) show "ed_key ed = key" "key_of (ed_secret ed) = (SecretT, ns, bucketForKey key)"
    "secret_data (ed_secret ed) = bucket_data view ns s (bucketForKey key)"
    by (simp_all add: key_of_def secret_data_def)
qed

end

text \<open>
  The contract of the nodes: each is a store on the same server and namespace, and they share
  the codec.
\<close>

locale kv_cluster = kube_ns cli view ns
  for cli :: "'s client" and view :: "'s \<Rightarrow> objkey \<Rightarrow> stored option" and ns :: string +
  fixes nodes :: "'s storage set" and unmarshal :: "string \<Rightarrow> goerr + data_item"
  assumes node_store: "st \<in> nodes \<Longrightarrow> kv_store cli view ns st"
    and node_codec: "st \<in> nodes \<Longrightarrow> st_Unmarshal st = unmarshal"
begin

definition store_from :: "data_item set \<Rightarrow> string set \<Rightarrow> 's \<Rightarrow> bool" where
  "store_from Q K s \<longleftrightarrow>
     (\<forall>key \<in> K. data_from unmarshal Q (bucketForKey key) (bucket_data view ns s (bucketForKey key)))"

definition pending_from :: "data_item set \<Rightarrow> string set \<Rightarrow> 's pending \<Rightarrow> bool" where
  "pending_from Q K p \<longleftrightarrow> pd_node p \<in> nodes \<and> pd_key p \<in> K
     \<and> key_of (pd_secret p) = (SecretT, ns, bucketForKey (pd_key p))
     \<and> data_from unmarshal Q (bucketForKey (pd_key p)) (secret_data (pd_secret p))"

text \<open>The items that may be stored: those there were at first, and those that were put.\<close>

definition items_of :: "string set \<Rightarrow> data_item set \<Rightarrow> 's cluster \<Rightarrow> data_item set" where
  "items_of K I c = {item \<in> I \<union> set (cl_puts c). item_Key item \<in> K}"

definition cluster_inv :: "string set \<Rightarrow> data_item set \<Rightarrow> 's cluster \<Rightarrow> bool" where
  "cluster_inv K I c \<longleftrightarrow> (\<forall>st \<in> nodes. kv_inv st K view ns (cl_server c))
     \<and> store_from (items_of K I c) K (cl_server c)
     \<and> (\<forall>p \<in> set (cl_pending c). pending_from (items_of K I c) K p)"

lemma store_from_cong: "store_from Q K s \<Longrightarrow> view s' = view s \<Longrightarrow> store_from Q K s'"
  by (simp add: store_from_def bucket_data_cong[of view s' s ns])

lemma store_from_mono: "store_from Q K s \<Longrightarrow> Q \<subseteq> Q' \<Longrightarrow> store_from Q' K s"
  unfolding store_from_def by (blast intro: data_from_mono)

lemma pending_from_mono: "pending_from Q K p \<Longrightarrow> Q \<subseteq> Q' \<Longrightarrow> pending_from Q' K p"
  unfolding pending_from_def by (blast intro: data_from_mono)

lemma items_of_simps [simp]:
  "items_of K I (c\<lparr>cl_server := s\<rparr>) = items_of K I c" "items_of K I (c\<lparr>cl_pending := ps\<rparr>) = items_of K I c"
  by (simp_all add: items_of_def)

lemma kv_inv_codec: "st \<in> nodes \<Longrightarrow> st' \<in> nodes \<Longrightarrow> kv_inv st K view ns s = kv_inv st' K view ns s"
  by (simp add: kv_inv_def bucket_ok_def entry_placed_def node_codec)

text \<open>A state the server can reach from one within the invariant by a piece of a write within it.\<close>

lemma write_inv:
  assumes "cluster_inv K I c" and "pending_from (items_of K I c) K p"
    and "view s' = view (cl_server c) \<or> view s' = (view (cl_server c))((SecretT, ns, bucketForKey (pd_key p)) := x)"
    and "x = None \<or> x = Some (bucket_labels (rawBucketForKey (pd_key p)), SecretData (secret_data (pd_secret p)))"
  shows "\<forall>st \<in> nodes. kv_inv st K view ns s'" and "store_from (items_of K I c) K s'"
proof -
  let ?Q = "items_of K I c" and ?b = "bucketForKey (pd_key p)"
  from assms(2) have p: "pd_key p \<in> K" "data_from unmarshal ?Q ?b (secret_data (pd_secret p))"
    by (simp_all add: pending_from_def)
  have placed: "entry_placed st K ?b h d" if "st \<in> nodes" "secret_data (pd_secret p) h = Some d" for st h d
    using p(2) that by (auto simp: data_from_def entry_from_def entry_placed_def items_of_def node_codec)
  show "\<forall>st \<in> nodes. kv_inv st K view ns s'"
  proof
    fix st assume st: "st \<in> nodes"
    with assms(1) have inv: "kv_inv st K view ns (cl_server c)" by (simp add: cluster_inv_def)
    from assms(3,4) show "kv_inv st K view ns s'"
      using kv_inv_cong[OF inv] kv_inv_delete[OF inv] kv_inv_put[OF inv p(1) _ placed[OF st]] by auto
  qed
  have old: "store_from ?Q K (cl_server c)" using assms(1) by (simp add: cluster_inv_def)
  from assms(3) show "store_from ?Q K s'"
  proof
    assume "view s' = view (cl_server c)" with old show ?thesis by (rule store_from_cong)
  next
    assume v: "view s' = (view (cl_server c))((SecretT, ns, ?b) := x)"
    from assms(4) obtain m where m: "bucket_data view ns s' = (bucket_data view ns (cl_server c))(?b := m)"
      "data_from unmarshal ?Q ?b m"
      using bucket_data_put[of view s' "cl_server c" ns ?b] bucket_data_delete[of view s' "cl_server c" ns ?b] v p(2)
      by force
    with old show ?thesis by (auto simp: store_from_def)
  qed
qed

lemma read_inv: "cluster_inv K I c \<Longrightarrow> view s' = view (cl_server c) \<Longrightarrow> cluster_inv K I (c\<lparr>cl_server := s'\<rparr>)"
  using kv_inv_cong store_from_cong unfolding cluster_inv_def by fastforce

lemma begin_write_inv:
  assumes "cluster_inv K I c" and "st \<in> nodes" "key \<in> K" "key_of secret = (SecretT, ns, bucketForKey key)"
    and "data_from unmarshal (items_of K I c) (bucketForKey key) (secret_data secret)"
  shows "cluster_inv K I (begin_write st secret key c)"
  using assms by (auto simp: cluster_inv_def begin_write_def pending_from_def)

lemma more_puts_inv:
  assumes "cluster_inv K I c" shows "cluster_inv K I (c\<lparr>cl_puts := item # cl_puts c\<rparr>)"
proof -
  have "items_of K I c \<subseteq> items_of K I (c\<lparr>cl_puts := item # cl_puts c\<rparr>)" by (auto simp: items_of_def)
  with assms show ?thesis
    unfolding cluster_inv_def by (auto intro: store_from_mono pending_from_mono)
qed

lemma set_drop_nth: "set (drop_nth i xs) \<subseteq> set xs"
  unfolding drop_nth_def by (auto dest: in_set_takeD in_set_dropD)

lemma cluster_act_inv:
  assumes inv: "cluster_inv K I c" and "act_on nodes K a"
  shows "cluster_inv K I (cluster_act a c)"
proof -
  let ?s = "cl_server c"
  have bucket: "data_from unmarshal (items_of K I c) (bucketForKey key) (bucket_data view ns ?s (bucketForKey key))"
    if "key \<in> K" for key
    using inv that by (simp add: cluster_inv_def store_from_def)
  show ?thesis
  proof (cases a)
    case (PutBegin st key val ttl)
    with assms(2) have st: "st \<in> nodes" "key \<in> K" by simp_all
    obtain r s1 where rd: "PutValue_read st key ?s = (r, s1)" by fastforce
    note d = kv_store.PutValue_read_done[OF node_store[OF st(1)] rd]
    show ?thesis
    proof (cases r)
      case (Inl e)
      with PutBegin rd read_inv[OF inv d(1)] show ?thesis by simp
    next
      case (Inr secret)
      obtain expiry s2 where e: "expiry_of st ttl s1 = (expiry, s2)" by fastforce
      let ?item = "\<lparr>item_Key = key, item_Value = val, item_Expiry = expiry\<rparr>"
      let ?c = "c\<lparr>cl_server := s2\<rparr>" and ?c' = "c\<lparr>cl_server := s2, cl_puts := ?item # cl_puts c\<rparr>"
      have v: "view s2 = view ?s"
        using kv_store.expiry_of_frame[OF node_store[OF st(1)] e] d(1) by simp
      have inv2: "cluster_inv K I ?c" by (rule read_inv[OF inv v])
      show ?thesis
      proof (cases "st_Marshal st ?item")
        case (Inl err)
        with PutBegin rd Inr e inv2 show ?thesis by simp
      next
        case m: (Inr data)
        have inv3: "cluster_inv K I ?c'" using more_puts_inv[OF inv2, of ?item] by simp
        have "st_Unmarshal st data = Inr ?item" by (rule kv_store.codec[OF node_store[OF st(1)] m])
        then have "entry_from unmarshal (items_of K I ?c') (bucketForKey key) (hashKey key) data"
          using st by (auto simp: entry_from_def items_of_def node_codec)
        moreover have "data_from unmarshal (items_of K I ?c') (bucketForKey key) (secret_data secret)"
          using bucket[OF st(2)] d(2)[OF Inr] by (auto intro: data_from_mono simp: items_of_def)
        ultimately have "cluster_inv K I (begin_write st (store_entry secret (hashKey key) data) key ?c')"
          using d(2)[OF Inr] by (intro begin_write_inv[OF inv3 st]) (auto simp: key_of_def data_from_store)
        with PutBegin rd Inr e m show ?thesis by simp
      qed
    qed
  next
    case (DeleteBegin st key)
    with assms(2) have st: "st \<in> nodes" "key \<in> K" by simp_all
    obtain r s1 where rd: "DeleteKey_read st key ?s = (r, s1)" by fastforce
    note d = kv_store.DeleteKey_read_done[OF node_store[OF st(1)] rd]
    note inv1 = read_inv[OF inv d(1)]
    show ?thesis
    proof (cases r)
      case (Inl e)
      with DeleteBegin rd inv1 show ?thesis by simp
    next
      case (Inr secret)
      have "cluster_inv K I (begin_write st (remove_entry secret (hashKey key)) key (c\<lparr>cl_server := s1\<rparr>))"
        using d(2)[OF Inr] bucket[OF st(2)]
        by (intro begin_write_inv[OF inv1 st]) (auto simp: key_of_def data_from_remove)
      with DeleteBegin rd Inr show ?thesis by simp
    qed
  next
    case (Get st key)
    with assms(2) have st: "st \<in> nodes" "key \<in> K" by simp_all
    obtain r ed s1 where rd: "GetValue st key ?s = (r, ed, s1)" by (metis prod_cases3)
    note inv1 = read_inv[OF inv kv_store.GetValue_frame[OF node_store[OF st(1)] rd]]
    show ?thesis
    proof (cases ed)
      case None
      with Get rd inv1 show ?thesis by simp
    next
      case (Some e)
      note d = kv_store.GetValue_deferred[OF node_store[OF st(1)] rd[unfolded Some]]
      have "cluster_inv K I (begin_write st (remove_entry (ed_secret e) (hashKey key)) key (c\<lparr>cl_server := s1\<rparr>))"
        using d bucket[OF st(2)] by (intro begin_write_inv[OF inv1 st]) (auto simp: key_of_def data_from_remove)
      with Get rd Some d(1) show ?thesis by simp
    qed
  next
    case (Continue i)
    show ?thesis
    proof (cases "i < length (cl_pending c)")
      case False
      with Continue inv show ?thesis by simp
    next
      case True
      let ?p = "cl_pending c ! i" and ?drop = "drop_nth i (cl_pending c)"
      have p: "pending_from (items_of K I c) K ?p" using inv True by (simp add: cluster_inv_def)
      then have node: "pd_node ?p \<in> nodes" "key_of (pd_secret ?p) = (SecretT, ns, bucketForKey (pd_key ?p))"
        by (simp_all add: pending_from_def)
      have others: "\<forall>q \<in> set ?drop. pending_from (items_of K I c) K q"
        using inv set_drop_nth[of i "cl_pending c"] by (auto simp: cluster_inv_def)
      show ?thesis
      proof (cases "pd_deleted ?p")
        case ap: True
        obtain r s1 where w: "patchBucket_apply (pd_node ?p) (pd_secret ?p) (rawBucketForKey (pd_key ?p)) ?s = (r, s1)"
          by fastforce
        note v = kv_store.patchBucket_apply_view[OF node_store[OF node(1)] w node(2)]
        from write_inv[OF inv p v disjI2[OF refl]] others Continue True ap w show ?thesis
          by (simp add: cluster_inv_def Let_def)
      next
        case del: False
        obtain r s1 where w: "patchBucket_delete (pd_node ?p) (pd_secret ?p) ?s = (r, s1)" by fastforce
        note v = kv_store.patchBucket_delete_view[OF node_store[OF node(1)] w node(2)]
        have "\<forall>q \<in> set ((cl_pending c)[i := ?p\<lparr>pd_deleted := True\<rparr>]). pending_from (items_of K I c) K q"
          using inv p set_update_subset_insert[of "cl_pending c" i "?p\<lparr>pd_deleted := True\<rparr>"]
          by (auto simp: cluster_inv_def pending_from_def)
        with write_inv[OF inv p v disjI1[OF refl]] others Continue True del w show ?thesis
          by (cases r) (simp_all add: cluster_inv_def Let_def)
      qed
    qed
  next
    case (Crash i)
    with inv set_drop_nth[of i "cl_pending c"] show ?thesis by (auto simp: cluster_inv_def)
  qed
qed

end

end
