(* ===== verification/Sha1.thy ===== *)
theory Sha1
  imports Base64 "HOL-Library.Word"
begin

unbundle bit_operations_syntax

text \<open>
  \<open>crypto/sha1\<close> and the \<open>%x\<close> verb of \<open>fmt\<close>, as the code uses them to turn a node id, an edge,
  a key or an address into a label value and an object name: the FIPS 180 hash of the bytes
  on 32-bit words, printed as two lower-case hexadecimal digits per byte.
\<close>

type_synonym u32 = "32 word"
type_synonym sha1_state = "u32 \<times> u32 \<times> u32 \<times> u32 \<times> u32"

subsection \<open>Padding and blocks\<close>

fun be_bytes :: "nat \<Rightarrow> nat \<Rightarrow> nat list" where
  "be_bytes 0 n = []"
| "be_bytes (Suc k) n = be_bytes k (n div 256) @ [n mod 256]"

definition sha1_pad :: "nat list \<Rightarrow> nat list" where
  "sha1_pad bs = bs @ 128 # replicate ((119 - length bs mod 64) mod 64) 0 @ be_bytes 8 (8 * length bs)"

fun be_words :: "nat list \<Rightarrow> u32 list" where
  "be_words (a # b # c # d # xs) =
     (push_bit 24 (of_nat a) OR push_bit 16 (of_nat b) OR push_bit 8 (of_nat c) OR of_nat d)
       # be_words xs"
| "be_words _ = []"

fun blocks16 :: "nat \<Rightarrow> u32 list \<Rightarrow> u32 list list" where
  "blocks16 0 ws = []"
| "blocks16 (Suc n) ws = take 16 ws # blocks16 n (drop 16 ws)"

subsection \<open>The compression function\<close>

text \<open>The message schedule, newest word first.\<close>

fun sha1_extend :: "nat \<Rightarrow> u32 list \<Rightarrow> u32 list" where
  "sha1_extend 0 ws = ws"
| "sha1_extend (Suc n) ws =
     sha1_extend n (word_rotl 1 (ws ! 2 XOR ws ! 7 XOR ws ! 13 XOR ws ! 15) # ws)"

definition sha1_schedule :: "u32 list \<Rightarrow> u32 list" where
  "sha1_schedule blk = rev (sha1_extend 64 (rev blk))"

definition sha1_f :: "nat \<Rightarrow> u32 \<Rightarrow> u32 \<Rightarrow> u32 \<Rightarrow> u32" where
  "sha1_f t b c d =
     (if t < 20 then (b AND c) OR (NOT b AND d)
      else if t < 40 then b XOR c XOR d
      else if t < 60 then (b AND c) OR (b AND d) OR (c AND d)
      else b XOR c XOR d)"

definition sha1_k :: "nat \<Rightarrow> u32" where
  "sha1_k t =
     (if t < 20 then 0x5A827999 else if t < 40 then 0x6ED9EBA1
      else if t < 60 then 0x8F1BBCDC else 0xCA62C1D6)"

fun sha1_round :: "nat \<times> u32 \<Rightarrow> sha1_state \<Rightarrow> sha1_state" where
  "sha1_round (t, w) (a, b, c, d, e) =
     (word_rotl 5 a + sha1_f t b c d + e + sha1_k t + w, a, word_rotl 30 b, c, d)"

fun sha1_add :: "sha1_state \<Rightarrow> sha1_state \<Rightarrow> sha1_state" where
  "sha1_add (a, b, c, d, e) (a', b', c', d', e') = (a + a', b + b', c + c', d + d', e + e')"

definition sha1_block :: "u32 list \<Rightarrow> sha1_state \<Rightarrow> sha1_state" where
  "sha1_block blk h = sha1_add h (fold sha1_round (zip [0..<80] (sha1_schedule blk)) h)"

definition sha1_init :: sha1_state where
  "sha1_init = (0x67452301, 0xEFCDAB89, 0x98BADCFE, 0x10325476, 0xC3D2E1F0)"

definition word_bytes :: "u32 \<Rightarrow> nat list" where
  "word_bytes w = map (\<lambda>i. unat (drop_bit i w AND 255)) [24, 16, 8, 0]"

fun sha1_digest :: "sha1_state \<Rightarrow> nat list" where
  "sha1_digest (a, b, c, d, e) = concat (map word_bytes [a, b, c, d, e])"

definition sha1_sum :: "nat list \<Rightarrow> nat list" where
  "sha1_sum bs =
     (let p = sha1_pad bs
      in sha1_digest (fold sha1_block (blocks16 (length p div 64) (be_words p)) sha1_init))"

subsection \<open>Sprintf of a byte slice with the verb x\<close>

definition hex_digit :: "nat \<Rightarrow> char" where
  "hex_digit n = ''0123456789abcdef'' ! n"

definition sprintf_x :: "nat list \<Rightarrow> string" where
  "sprintf_x bs = concat (map (\<lambda>b. [hex_digit (b div 16 mod 16), hex_digit (b mod 16)]) bs)"

definition sha1_hex :: "string \<Rightarrow> string" where
  "sha1_hex s = sprintf_x (sha1_sum (bytes_of s))"

subsection \<open>Length and characters of a hash\<close>

lemma length_be_bytes [simp]: "length (be_bytes k n) = k"
  by (induction k arbitrary: n) auto

lemma length_sha1_pad: "length (sha1_pad bs) mod 64 = 0"
proof -
  define m where "m = length bs mod 64"
  have m: "m < 64" by (simp add: m_def)
  have "(m + (9 + (119 - m) mod 64)) mod 64 = 0"
  proof (cases "m < 56")
    case True
    then have "119 - m = (55 - m) + 64" by simp
    moreover have "(55 - m) mod 64 = 55 - m" by simp
    ultimately have "(119 - m) mod 64 = 55 - m" by (simp only: mod_add_self2)
    with True show ?thesis by simp
  next
    case False
    with m have "(119 - m) mod 64 = 119 - m" by simp
    with False m show ?thesis by simp
  qed
  moreover have "(length bs + (9 + (119 - m) mod 64)) mod 64 = (m + (9 + (119 - m) mod 64)) mod 64"
    by (simp add: m_def mod_add_left_eq)
  moreover have "length (sha1_pad bs) = length bs + (9 + (119 - m) mod 64)"
    by (simp add: sha1_pad_def m_def)
  ultimately show ?thesis by (simp only:)
qed

lemma length_sha1_sum [simp]: "length (sha1_sum bs) = 20"
proof -
  have "length (sha1_digest h) = 20" for h
    by (cases h) (simp add: word_bytes_def)
  then show ?thesis by (simp add: sha1_sum_def Let_def)
qed

lemma length_sprintf_x [simp]: "length (sprintf_x bs) = 2 * length bs"
  by (induction bs) (auto simp: sprintf_x_def)

lemma hex_digit_mem: "n < 16 \<Longrightarrow> hex_digit n \<in> set ''0123456789abcdef''"
  unfolding hex_digit_def by (rule nth_mem) simp

lemma length_sha1_hex [simp]: "length (sha1_hex s) = 40"
  by (simp add: sha1_hex_def)

lemma sha1_hex_chars: "c \<in> set (sha1_hex s) \<Longrightarrow> c \<in> set ''0123456789abcdef''"
proof -
  have "c \<in> set (sprintf_x bs) \<Longrightarrow> \<exists>n < 16. c = hex_digit n" for bs
    by (induction bs) (force simp: sprintf_x_def)+
  then show "c \<in> set (sha1_hex s) \<Longrightarrow> c \<in> set ''0123456789abcdef''"
    unfolding sha1_hex_def using hex_digit_mem by blast
qed

end
