(* ===== verification/Consensus.thy ===== *)
theory Consensus
  imports MemApi Sha1
begin

text \<open>
  \<open>provider/consensus.go\<close>: the storage peers, objects of the custom type \<open>StoragePeer\<close> named
  by the hash of the node id, and the question who leads. Whether the node leads, and who
  does, is up to the elector of client-go, a parameter that is asked anew at every call and may
  change the state; observers have none, and calling the nil elector panics. \<open>self\<close> is the
  cache of the node's own peer. A peer is a pointer to a message in Go: setting its status also
  changes the message of the caller, who has no other use for it. The locks make every
  operation atomic here; \<open>Locks\<close> is about them. Tracing is left out.
\<close>

record 's elector =
  el_IsLeader :: "'s \<Rightarrow> bool \<times> 's"
  el_GetLeader :: "'s \<Rightarrow> string \<times> 's"

record 's consensus =
  co_cli :: "'s client"
  co_Namespace :: string
  co_NodeID :: string
  co_leaders :: "'s elector option"
  co_isObserver :: bool
  co_self :: "storage_peer option"

definition HashID :: "string \<Rightarrow> string" where
  "HashID i = sha1_hex i"

definition IsLeader :: "'s consensus \<Rightarrow> ('s, bool) act" where
  "IsLeader c s =
     (if co_isObserver c then (Inr False, s)
      else (case co_leaders c of
              None \<Rightarrow> (Inl NilDereference, s)
            | Some leaders \<Rightarrow> (case el_IsLeader leaders s of (b, s') \<Rightarrow> (Inr b, s'))))"

definition IsMember :: "'s consensus \<Rightarrow> bool" where
  "IsMember c = True"

definition StepDown :: "'s consensus \<Rightarrow> ('s, unit) act" where
  "StepDown c s = (Inr (), s)"

subsection \<open>The peers\<close>

text \<open>The items of a list that failed are nil.\<close>

definition getPeers :: "'s consensus \<Rightarrow> ('s, storage_peer list) act" where
  "getPeers c s =
     (case api_list (co_cli c) StoragePeerT (co_Namespace c) [] s of
        (Inl err, s') \<Rightarrow> (case IgnoreNotFound err of None \<Rightarrow> (Inr [], s') | Some e \<Rightarrow> (Inl e, s'))
      | (Inr items, s') \<Rightarrow> (Inr (map (\<lambda>p. as_storage_peer (ko_payload p)) items), s'))"

fun find_peer :: "storage_peer list \<Rightarrow> string \<Rightarrow> storage_peer option" where
  "find_peer [] i = None"
| "find_peer (p # ps) i = (if sp_id p = i then Some p else find_peer ps i)"

definition GetPeer :: "'s consensus \<Rightarrow> string \<Rightarrow> ('s, storage_peer) act" where
  "GetPeer c i s =
     (case getPeers c s of
        (Inl err, s') \<Rightarrow> (Inl (Wrap ''get peers'' err), s')
      | (Inr peers, s') \<Rightarrow>
          (case find_peer peers i of Some p \<Rightarrow> (Inr p, s') | None \<Rightarrow> (Inl ErrNodeNotFound, s')))"

definition GetPeers :: "'s consensus \<Rightarrow> ('s, storage_peer list) act" where
  "GetPeers c s =
     (case getPeers c s of
        (Inl err, s') \<Rightarrow> (Inl (Wrap ''get peers'' err), s')
      | (Inr peers, s') \<Rightarrow> (Inr peers, s'))"

fun containsPeer :: "storage_peer list \<Rightarrow> string \<Rightarrow> bool" where
  "containsPeer [] peer = False"
| "containsPeer (p # peers) peer = (if sp_id p = peer then True else containsPeer peers peer)"

lemma containsPeer_iff: "containsPeer peers i \<longleftrightarrow> (\<exists>p \<in> set peers. sp_id p = i)"
  by (induction peers) auto

subsection \<open>The leader\<close>

text \<open>\<open>!c.isObserver && c.leaders().GetLeader() == peer.GetId()\<close>.\<close>

definition elected :: "'s consensus \<Rightarrow> storage_peer \<Rightarrow> ('s, bool) act" where
  "elected c peer s =
     (if co_isObserver c then (Inr False, s)
      else (case co_leaders c of
              None \<Rightarrow> (Inl NilDereference, s)
            | Some leaders \<Rightarrow> (case el_GetLeader leaders s of (l, s') \<Rightarrow> (Inr (l = sp_id peer), s'))))"

text \<open>\<open>elected\<close> and then \<open>c.IsLeader()\<close>.\<close>

definition elected_self :: "'s consensus \<Rightarrow> storage_peer \<Rightarrow> ('s, bool) act" where
  "elected_self c peer s =
     (case elected c peer s of
        (Inl e, s') \<Rightarrow> (Inl e, s')
      | (Inr False, s') \<Rightarrow> (Inr False, s')
      | (Inr True, s') \<Rightarrow> IsLeader c s')"

fun find_leader ::
    "'s consensus \<Rightarrow> storage_peer list \<Rightarrow> 's \<Rightarrow> (goerr + storage_peer) \<times> 's consensus \<times> 's" where
  "find_leader c [] s = (Inl ErrNoLeader, c, s)"
| "find_leader c (peer # peers) s =
     (case elected_self c peer s of
        (Inl e, s1) \<Rightarrow> (Inl e, c, s1)
      | (Inr True, s1) \<Rightarrow> (Inr peer, c\<lparr>co_self := Some peer\<rparr>, s1)
      | (Inr False, s1) \<Rightarrow>
          (case elected c peer s1 of
             (Inl e, s2) \<Rightarrow> (Inl e, c, s2)
           | (Inr True, s2) \<Rightarrow> (Inr (peer\<lparr>sp_clusterStatus := CLUSTER_LEADER\<rparr>), c, s2)
           | (Inr False, s2) \<Rightarrow>
               (if co_isObserver c \<and> sp_clusterStatus peer = CLUSTER_VOTER then (Inr peer, c, s2)
                else if sp_clusterStatus peer = CLUSTER_LEADER then (Inr peer, c, s2)
                else find_leader c peers s2)))"

definition GetLeader ::
    "'s consensus \<Rightarrow> 's \<Rightarrow> (goerr + storage_peer) \<times> 's consensus \<times> 's" where
  "GetLeader c s =
     (case IsLeader c s of
        (Inl e, s1) \<Rightarrow> (Inl e, c, s1)
      | (Inr b, s1) \<Rightarrow>
          (case (if b then co_self c else None) of
             Some self \<Rightarrow> (Inr self, c, s1)
           | None \<Rightarrow>
               (case getPeers c s1 of
                  (Inl err, s2) \<Rightarrow> (Inl (Wrap ''get peers'' err), c, s2)
                | (Inr peers, s2) \<Rightarrow> find_leader c peers s2)))"

subsection \<open>Changes of the group\<close>

definition storage_peer_object :: "'s consensus \<Rightarrow> storage_peer \<Rightarrow> kobject" where
  "storage_peer_object c peer =
     \<lparr>ko_type = StoragePeerTypeMeta,
      ko_meta = zero_object_meta\<lparr>om_namespace := co_Namespace c, om_name := HashID (sp_id peer),
                                 om_labels := [NodeIDLabel \<mapsto> sp_id peer]\<rparr>,
      ko_payload = PStoragePeer peer\<rparr>"

definition AddVoter :: "'s consensus \<Rightarrow> storage_peer \<Rightarrow> ('s, unit) act" where
  "AddVoter c peer s =
     (if co_isObserver c then (Inl ErrNotStorageNode, s)
      else PatchObject (co_cli c)
             (storage_peer_object c (peer\<lparr>sp_clusterStatus := CLUSTER_VOTER\<rparr>)) s)"

definition AddObserver :: "'s consensus \<Rightarrow> storage_peer \<Rightarrow> ('s, unit) act" where
  "AddObserver c peer s =
     (if co_isObserver c \<and> sp_id peer \<noteq> co_NodeID c then (Inl ErrNotStorageNode, s)
      else PatchObject (co_cli c)
             (storage_peer_object c (peer\<lparr>sp_clusterStatus := CLUSTER_OBSERVER\<rparr>)) s)"

text \<open>The object is applied as the client returned it, but for the status.\<close>

definition DemoteVoter :: "'s consensus \<Rightarrow> storage_peer \<Rightarrow> ('s, unit) act" where
  "DemoteVoter c peer s =
     (if co_isObserver c then (Inl ErrNotStorageNode, s)
      else (case api_get (co_cli c) StoragePeerT (co_Namespace c) (HashID (sp_id peer)) s of
              (Inl err, s') \<Rightarrow> (Inl err, s')
            | (Inr stpeer, s') \<Rightarrow>
                PatchObject (co_cli c)
                  (stpeer\<lparr>ko_payload := PStoragePeer
                     ((as_storage_peer (ko_payload stpeer))\<lparr>sp_clusterStatus := CLUSTER_OBSERVER\<rparr>)\<rparr>) s'))"

definition removePeerByIDHash :: "'s consensus \<Rightarrow> string \<Rightarrow> ('s, unit) act" where
  "removePeerByIDHash c idHash s =
     (if co_isObserver c then (Inl ErrNotStorageNode, s)
      else ignoring_not_found (api_delete (co_cli c)
             \<lparr>ko_type = StoragePeerTypeMeta,
              ko_meta = zero_object_meta\<lparr>om_namespace := co_Namespace c, om_name := idHash\<rparr>,
              ko_payload = PStoragePeer zero_storage_peer\<rparr>) s)"

definition RemovePeer :: "'s consensus \<Rightarrow> storage_peer \<Rightarrow> bool \<Rightarrow> ('s, unit) act" where
  "RemovePeer c peer wait s =
     (if co_isObserver c \<and> sp_id peer \<noteq> co_NodeID c then (Inl ErrNotStorageNode, s)
      else removePeerByIDHash c (HashID (sp_id peer)) s)"

subsection \<open>Changes of the group as changes of a map\<close>

text \<open>
  The group as a map from object names to peers, and what an operation does to it. Every
  stored peer is filed under the hash of its id and is a voter or an observer: the type of
  the stored objects.
\<close>

abbreviation peer_content where
  "peer_content \<equiv> named_content as_storage_peer StoragePeerT"

definition stored_peer :: "storage_peer \<Rightarrow> stored" where
  "stored_peer p = ([NodeIDLabel \<mapsto> sp_id p], Plain (PStoragePeer p))"

definition peers_wf :: "('s \<Rightarrow> objkey \<Rightarrow> stored option) \<Rightarrow> string \<Rightarrow> 's \<Rightarrow> bool" where
  "peers_wf view ns s \<longleftrightarrow> (\<forall>n x. view s (StoragePeerT, ns, n) = Some x \<longrightarrow>
     (\<exists>p. x = stored_peer p \<and> n = HashID (sp_id p)
        \<and> (sp_clusterStatus p = CLUSTER_VOTER \<or> sp_clusterStatus p = CLUSTER_OBSERVER)))"

datatype cons_op =
    OpAddVoter storage_peer
  | OpAddObserver storage_peer
  | OpDemote storage_peer
  | OpRemove storage_peer

fun cons_step :: "'s consensus \<Rightarrow> cons_op \<Rightarrow> ('s, unit) act" where
  "cons_step c (OpAddVoter p) s = AddVoter c p s"
| "cons_step c (OpAddObserver p) s = AddObserver c p s"
| "cons_step c (OpDemote p) s = DemoteVoter c p s"
| "cons_step c (OpRemove p) s = RemovePeer c p False s"

fun cons_run :: "'s consensus \<Rightarrow> cons_op list \<Rightarrow> ('s, unit) act" where
  "cons_run c [] s = (Inr (), s)"
| "cons_run c (op # ops) s =
     (case cons_step c op s of (Inl e, s') \<Rightarrow> (Inl e, s') | (Inr _, s') \<Rightarrow> cons_run c ops s')"

fun cons_apply :: "cons_op \<Rightarrow> (string \<rightharpoonup> storage_peer) \<Rightarrow> (string \<rightharpoonup> storage_peer)" where
  "cons_apply (OpAddVoter p) m = m(HashID (sp_id p) \<mapsto> p\<lparr>sp_clusterStatus := CLUSTER_VOTER\<rparr>)"
| "cons_apply (OpAddObserver p) m = m(HashID (sp_id p) \<mapsto> p\<lparr>sp_clusterStatus := CLUSTER_OBSERVER\<rparr>)"
| "cons_apply (OpDemote p) m =
     m(HashID (sp_id p) := map_option (\<lambda>q. q\<lparr>sp_clusterStatus := CLUSTER_OBSERVER\<rparr>) (m (HashID (sp_id p))))"
| "cons_apply (OpRemove p) m = m(HashID (sp_id p) := None)"

lemma storage_peer_object_simps [simp]:
  "key_of (storage_peer_object c p) = (StoragePeerT, co_Namespace c, HashID (sp_id p))"
  "shown (storage_peer_object c p) = stored_peer p"
  by (simp_all add: storage_peer_object_def stored_peer_def key_of_def shown_def)

lemma peer_content_put:
  "view s' = (view s)((StoragePeerT, ns, n) \<mapsto> stored_peer p) \<Longrightarrow>
     peer_content view ns s' = (peer_content view ns s)(n \<mapsto> p)"
  by (simp add: named_content_def stored_peer_def fun_eq_iff)

lemma peer_content_delete:
  "view s' = (view s)((StoragePeerT, ns, n) := None) \<Longrightarrow>
     peer_content view ns s' = (peer_content view ns s)(n := None)"
  by (simp add: named_content_def fun_eq_iff)

lemma peers_wf_put:
  "peers_wf view ns s \<Longrightarrow> view s' = (view s)((StoragePeerT, ns, HashID (sp_id p)) \<mapsto> stored_peer p) \<Longrightarrow>
     sp_clusterStatus p \<in> {CLUSTER_VOTER, CLUSTER_OBSERVER} \<Longrightarrow> peers_wf view ns s'"
  unfolding peers_wf_def by (auto simp del: split_paired_All split_paired_Ex)

lemma stored_peer_inject [simp]: "stored_peer p = stored_peer q \<longleftrightarrow> p = q"
  by (auto simp: stored_peer_def)

lemma peers_wf_delete:
  "peers_wf view ns s \<Longrightarrow> view s' = (view s)(k := None) \<Longrightarrow> peers_wf view ns s'"
  unfolding peers_wf_def by auto

lemma peers_wf_content:
  assumes "peers_wf view ns s" and "peer_content view ns s n = Some p"
  shows "n = HashID (sp_id p)" and "sp_clusterStatus p = CLUSTER_VOTER \<or> sp_clusterStatus p = CLUSTER_OBSERVER"
  using assms unfolding peers_wf_def named_content_def stored_peer_def by fastforce+

context kube_ns begin

text \<open>What a change does on the server: nothing, or the change of one object.\<close>

lemma PatchObject_peer:
  assumes "PatchObject cli obj s = (r, s')" and "key_of obj = (StoragePeerT, ns, n)" and "shown obj = stored_peer p"
  shows "r = Inr u \<Longrightarrow> view s' = (view s)((StoragePeerT, ns, n) \<mapsto> stored_peer p)"
    and "view s' = view s \<or> view s' = (view s)((StoragePeerT, ns, n) \<mapsto> stored_peer p)"
  using PatchObject_done[of obj s _ s'] PatchObject_failed[of obj s _ s'] assms by (cases r; auto)+

lemma AddVoter_view:
  assumes "AddVoter c p s = (r, s')" and "co_cli c = cli" "co_Namespace c = ns"
  shows "r = Inr u \<Longrightarrow> view s' = (view s)((StoragePeerT, ns, HashID (sp_id p))
      \<mapsto> stored_peer (p\<lparr>sp_clusterStatus := CLUSTER_VOTER\<rparr>))"
    and "view s' = view s \<or> view s' = (view s)((StoragePeerT, ns, HashID (sp_id p))
      \<mapsto> stored_peer (p\<lparr>sp_clusterStatus := CLUSTER_VOTER\<rparr>))"
  using assms PatchObject_peer[of "storage_peer_object c (p\<lparr>sp_clusterStatus := CLUSTER_VOTER\<rparr>)" s r s']
  by (auto simp: AddVoter_def split: if_splits)

lemma AddObserver_view:
  assumes "AddObserver c p s = (r, s')" and "co_cli c = cli" "co_Namespace c = ns"
  shows "r = Inr u \<Longrightarrow> view s' = (view s)((StoragePeerT, ns, HashID (sp_id p))
      \<mapsto> stored_peer (p\<lparr>sp_clusterStatus := CLUSTER_OBSERVER\<rparr>))"
    and "view s' = view s \<or> view s' = (view s)((StoragePeerT, ns, HashID (sp_id p))
      \<mapsto> stored_peer (p\<lparr>sp_clusterStatus := CLUSTER_OBSERVER\<rparr>))"
  using assms PatchObject_peer[of "storage_peer_object c (p\<lparr>sp_clusterStatus := CLUSTER_OBSERVER\<rparr>)" s r s']
  by (auto simp: AddObserver_def split: if_splits)

lemma RemovePeer_view:
  assumes "RemovePeer c p w s = (r, s')" and "co_cli c = cli" "co_Namespace c = ns"
  shows "r = Inr u \<Longrightarrow> view s' = (view s)((StoragePeerT, ns, HashID (sp_id p)) := None)"
    and "view s' = view s \<or> view s' = (view s)((StoragePeerT, ns, HashID (sp_id p)) := None)"
proof -
  let ?o = "\<lparr>ko_type = StoragePeerTypeMeta,
      ko_meta = zero_object_meta\<lparr>om_namespace := ns, om_name := HashID (sp_id p)\<rparr>,
      ko_payload = PStoragePeer zero_storage_peer\<rparr>"
  have "r \<noteq> Inr u \<and> s' = s \<or> ignoring_not_found (api_delete cli ?o) s = (r, s')"
    using assms by (auto simp: RemovePeer_def removePeerByIDHash_def split: if_splits)
  then show "r = Inr u \<Longrightarrow> view s' = (view s)((StoragePeerT, ns, HashID (sp_id p)) := None)"
    and "view s' = view s \<or> view s' = (view s)((StoragePeerT, ns, HashID (sp_id p)) := None)"
    using delete_ignored_done[of ?o s _ s'] delete_ignored_failed[of ?o s _ s'] by (cases r; auto)+
qed

lemma DemoteVoter_view:
  assumes "DemoteVoter c p s = (r, s')" and "co_cli c = cli" "co_Namespace c = ns" and "peers_wf view ns s"
  shows "r = Inr u \<Longrightarrow> \<exists>q. view s (StoragePeerT, ns, HashID (sp_id p)) = Some (stored_peer q)
      \<and> view s' = (view s)((StoragePeerT, ns, HashID (sp_id p)) \<mapsto> stored_peer (q\<lparr>sp_clusterStatus := CLUSTER_OBSERVER\<rparr>))"
    and "view s' = view s \<or> (\<exists>q. view s (StoragePeerT, ns, HashID (sp_id p)) = Some (stored_peer q)
      \<and> view s' = (view s)((StoragePeerT, ns, HashID (sp_id p)) \<mapsto> stored_peer (q\<lparr>sp_clusterStatus := CLUSTER_OBSERVER\<rparr>)))"
proof -
  obtain g s1 where g: "api_get cli StoragePeerT ns (HashID (sp_id p)) s = (g, s1)" by fastforce
  note f = get_frame[OF g]
  have "(r = Inr u \<longrightarrow> (\<exists>q. view s (StoragePeerT, ns, HashID (sp_id p)) = Some (stored_peer q)
      \<and> view s' = (view s)((StoragePeerT, ns, HashID (sp_id p)) \<mapsto> stored_peer (q\<lparr>sp_clusterStatus := CLUSTER_OBSERVER\<rparr>))))
    \<and> (view s' = view s \<or> (\<exists>q. view s (StoragePeerT, ns, HashID (sp_id p)) = Some (stored_peer q)
      \<and> view s' = (view s)((StoragePeerT, ns, HashID (sp_id p)) \<mapsto> stored_peer (q\<lparr>sp_clusterStatus := CLUSTER_OBSERVER\<rparr>))))"
  proof (cases "co_isObserver c \<or> (\<exists>e. g = Inl e)")
    case True
    with assms(1-3) g f show ?thesis by (auto simp: DemoteVoter_def split: if_splits)
  next
    case False
    then obtain obj where obj: "g = Inr obj" by (cases g) auto
    then have o: "key_of obj = (StoragePeerT, ns, HashID (sp_id p))"
      "view s (StoragePeerT, ns, HashID (sp_id p)) = Some (shown obj)"
      using get_found[of StoragePeerT ns "HashID (sp_id p)" s obj s1] g by auto
    with assms(4) obtain q where q: "shown obj = stored_peer q" unfolding peers_wf_def by blast
    then have q': "om_labels (ko_meta obj) = [NodeIDLabel \<mapsto> sp_id q]" "ko_payload obj = PStoragePeer q"
      by (auto simp: shown_def stored_peer_def)
    let ?o = "obj\<lparr>ko_payload := PStoragePeer
        ((as_storage_peer (ko_payload obj))\<lparr>sp_clusterStatus := CLUSTER_OBSERVER\<rparr>)\<rparr>"
    have "PatchObject cli ?o s1 = (r, s')" using assms(1-3) g obj False by (simp add: DemoteVoter_def)
    moreover have "key_of ?o = (StoragePeerT, ns, HashID (sp_id p))" using o(1) by (simp add: key_of_def)
    moreover have "shown ?o = stored_peer (q\<lparr>sp_clusterStatus := CLUSTER_OBSERVER\<rparr>)"
      by (simp add: shown_def stored_peer_def q')
    ultimately show ?thesis
      using PatchObject_peer[of ?o s1 r s' "HashID (sp_id p)" "q\<lparr>sp_clusterStatus := CLUSTER_OBSERVER\<rparr>"] o(2)
      unfolding q f by simp
  qed
  then show "r = Inr u \<Longrightarrow> \<exists>q. view s (StoragePeerT, ns, HashID (sp_id p)) = Some (stored_peer q)
      \<and> view s' = (view s)((StoragePeerT, ns, HashID (sp_id p)) \<mapsto> stored_peer (q\<lparr>sp_clusterStatus := CLUSTER_OBSERVER\<rparr>))"
    and "view s' = view s \<or> (\<exists>q. view s (StoragePeerT, ns, HashID (sp_id p)) = Some (stored_peer q)
      \<and> view s' = (view s)((StoragePeerT, ns, HashID (sp_id p)) \<mapsto> stored_peer (q\<lparr>sp_clusterStatus := CLUSTER_OBSERVER\<rparr>)))"
    by blast+
qed

lemma cons_step_wf:
  assumes "peers_wf view ns s" and "cons_step c op s = (r, s')" and "co_cli c = cli" "co_Namespace c = ns"
  shows "peers_wf view ns s'"
proof -
  have put: "peers_wf view ns s'" if "view s' = view s \<or> (\<exists>q. HashID (sp_id q) = n \<and>
      sp_clusterStatus q \<in> {CLUSTER_VOTER, CLUSTER_OBSERVER} \<and> view s' = (view s)((StoragePeerT, ns, n) \<mapsto> stored_peer q))" for n
    using that assms(1) peers_wf_put[OF assms(1)] by (auto simp: peers_wf_def)
  show ?thesis
  proof (cases op)
    case (OpAddVoter p)
    with assms(2) have "AddVoter c p s = (r, s')" by simp
    from AddVoter_view(2)[OF this assms(3,4)] show ?thesis
      by (intro put[of "HashID (sp_id p)"]) (auto intro!: exI[of _ "p\<lparr>sp_clusterStatus := CLUSTER_VOTER\<rparr>"])
  next
    case (OpAddObserver p)
    with assms(2) have "AddObserver c p s = (r, s')" by simp
    from AddObserver_view(2)[OF this assms(3,4)] show ?thesis
      by (intro put[of "HashID (sp_id p)"]) (auto intro!: exI[of _ "p\<lparr>sp_clusterStatus := CLUSTER_OBSERVER\<rparr>"])
  next
    case (OpDemote p)
    with assms(2) have "DemoteVoter c p s = (r, s')" by simp
    note d = DemoteVoter_view(2)[OF this assms(3,4,1)]
    have "HashID (sp_id q) = HashID (sp_id p)"
      if "view s (StoragePeerT, ns, HashID (sp_id p)) = Some (stored_peer q)" for q
      using that assms(1) unfolding peers_wf_def by (fastforce simp: stored_peer_def)
    with d show ?thesis
      by (intro put[of "HashID (sp_id p)"]) (metis insertCI storage_peer.select_convs(1) storage_peer.select_convs(4)
          storage_peer.surjective storage_peer.update_convs(4))
  next
    case (OpRemove p)
    with assms(2) have "RemovePeer c p False s = (r, s')" by simp
    from RemovePeer_view(2)[OF this assms(3,4)] peers_wf_delete[OF assms(1)] assms(1) show ?thesis
      by (auto simp: peers_wf_def)
  qed
qed

lemma cons_step_content:
  assumes "peers_wf view ns s" and "cons_step c op s = (r, s')" and "co_cli c = cli" "co_Namespace c = ns"
  shows "r = Inr u \<Longrightarrow> peer_content view ns s' = cons_apply op (peer_content view ns s)"
    and "peer_content view ns s' \<in> {peer_content view ns s, cons_apply op (peer_content view ns s)}"
proof -
  have same: "view s' = view s \<Longrightarrow> peer_content view ns s' = peer_content view ns s"
    by (rule named_content_cong)
  have "(r = Inr u \<longrightarrow> peer_content view ns s' = cons_apply op (peer_content view ns s))
    \<and> peer_content view ns s' \<in> {peer_content view ns s, cons_apply op (peer_content view ns s)}"
  proof (cases op)
    case (OpAddVoter p)
    with assms(2) have "AddVoter c p s = (r, s')" by simp
    from AddVoter_view[OF this assms(3,4)] same OpAddVoter show ?thesis
      by (auto dest: peer_content_put)
  next
    case (OpAddObserver p)
    with assms(2) have "AddObserver c p s = (r, s')" by simp
    from AddObserver_view[OF this assms(3,4)] same OpAddObserver show ?thesis
      by (auto dest: peer_content_put)
  next
    case (OpDemote p)
    with assms(2) have "DemoteVoter c p s = (r, s')" by simp
    note d = DemoteVoter_view[OF this assms(3,4,1)]
    have "cons_apply op (peer_content view ns s) = (peer_content view ns s)
        (HashID (sp_id p) \<mapsto> q\<lparr>sp_clusterStatus := CLUSTER_OBSERVER\<rparr>)"
      if "view s (StoragePeerT, ns, HashID (sp_id p)) = Some (stored_peer q)" for q
      using that OpDemote by (simp add: named_content_def stored_peer_def)
    then show ?thesis using d same peer_content_put[of view s' s ns "HashID (sp_id p)"] by (metis insert_iff)
  next
    case (OpRemove p)
    with assms(2) have "RemovePeer c p False s = (r, s')" by simp
    from RemovePeer_view[OF this assms(3,4)] same OpRemove show ?thesis
      by (auto dest: peer_content_delete)
  qed
  then show "r = Inr u \<Longrightarrow> peer_content view ns s' = cons_apply op (peer_content view ns s)"
    and "peer_content view ns s' \<in> {peer_content view ns s, cons_apply op (peer_content view ns s)}" by blast+
qed

lemma cons_run_refines:
  assumes "co_cli c = cli" "co_Namespace c = ns"
  shows "peers_wf view ns s \<Longrightarrow> cons_run c ops s = (r, s') \<Longrightarrow> peers_wf view ns s'
    \<and> (r = Inr u \<longrightarrow> peer_content view ns s' = fold cons_apply ops (peer_content view ns s))"
proof (induction ops arbitrary: s)
  case (Cons op ops)
  obtain r1 s1 where step: "cons_step c op s = (r1, s1)" by fastforce
  note wf = cons_step_wf[OF Cons.prems(1) step assms]
  show ?case
  proof (cases r1)
    case (Inl e)
    with step Cons.prems(2) wf show ?thesis by auto
  next
    case (Inr x)
    with step Cons.prems(2) have "cons_run c ops s1 = (r, s')" by simp
    with Cons.IH[OF wf this] cons_step_content(1)[OF Cons.prems(1) step assms] Inr show ?thesis by simp
  qed
qed simp

subsection \<open>Lookups\<close>

lemma getPeers_frame:
  "getPeers c s = (r, s') \<Longrightarrow> co_cli c = cli \<Longrightarrow> view s' = view s"
  using list_frame[of StoragePeerT "co_Namespace c" "[]" s _ s']
  by (auto simp: getPeers_def IgnoreNotFound_def split: prod.splits sum.splits if_splits)

lemma getPeers_peers:
  assumes "getPeers c s = (Inr peers, s')" and "co_cli c = cli" "co_Namespace c = ns"
  shows "set peers = ran (peer_content view ns s)"
proof -
  obtain r s1 where l: "api_list cli StoragePeerT ns [] s = (r, s1)" by fastforce
  show ?thesis
  proof (cases r)
    case (Inr items)
    with assms l have "peers = map (\<lambda>p. as_storage_peer (ko_payload p)) items" by (simp add: getPeers_def)
    with list_content(1)[of StoragePeerT s items s1 as_storage_peer] l Inr show ?thesis by simp
  next
    case (Inl e)
    with assms l have "peers = []" "is_not_found e"
      by (auto simp: getPeers_def IgnoreNotFound_def split: if_splits)
    with list_content_absent[of StoragePeerT "[]" s e s1 as_storage_peer] l Inl show ?thesis by simp
  qed
qed

lemma find_peer_iff:
  assumes "\<And>p q. p \<in> set peers \<Longrightarrow> q \<in> set peers \<Longrightarrow> sp_id p = sp_id q \<Longrightarrow> p = q"
  shows "find_peer peers i = Some p \<longleftrightarrow> p \<in> set peers \<and> sp_id p = i"
  using assms
proof (induction peers)
  case (Cons a peers)
  then have IH: "find_peer peers i = Some p \<longleftrightarrow> p \<in> set peers \<and> sp_id p = i" by simp
  from Cons.prems[of a p] IH show ?case by auto
qed simp

lemma find_peer_content:
  assumes "set peers = ran (peer_content view ns s)" and "peers_wf view ns s"
  shows "find_peer peers i = (case peer_content view ns s (HashID i) of
      Some p \<Rightarrow> if sp_id p = i then Some p else None | None \<Rightarrow> None)"
proof -
  have key: "peer_content view ns s (HashID (sp_id p)) = Some p" if "p \<in> set peers" for p
    using that peers_wf_content(1)[OF assms(2)] unfolding assms(1) ran_def by auto
  have "find_peer peers i = Some p \<longleftrightarrow> p \<in> set peers \<and> sp_id p = i" for p
  proof (rule find_peer_iff)
    fix q q' assume q: "q \<in> set peers" "q' \<in> set peers" "sp_id q = sp_id q'"
    from key[OF q(1)] key[OF q(2)] show "q = q'" unfolding q(3) by (rule option.inject[THEN iffD1, OF trans[OF sym]])
  qed
  moreover have "p \<in> set peers \<and> sp_id p = i \<longleftrightarrow> peer_content view ns s (HashID i) = Some p \<and> sp_id p = i" for p
  proof
    assume "p \<in> set peers \<and> sp_id p = i"
    with key[of p] show "peer_content view ns s (HashID i) = Some p \<and> sp_id p = i" by blast
  next
    assume "peer_content view ns s (HashID i) = Some p \<and> sp_id p = i"
    then show "p \<in> set peers \<and> sp_id p = i" unfolding assms(1) by (blast intro: ranI)
  qed
  ultimately have iff: "find_peer peers i = Some p \<longleftrightarrow> peer_content view ns s (HashID i) = Some p \<and> sp_id p = i" for p
    by blast
  show ?thesis
  proof (cases "find_peer peers i")
    case None
    with iff show ?thesis by (auto split: option.split)
  next
    case (Some p)
    with iff[of p] show ?thesis by simp
  qed
qed

end

context kube_ns_server begin

lemma getPeers_up:
  assumes "up s" and "co_cli c = cli" "co_Namespace c = ns"
  obtains peers s' where "getPeers c s = (Inr peers, s')" and "view s' = view s" and "up s'"
    and "set peers = ran (peer_content view ns s)"
proof -
  obtain objs s' where l: "api_list cli StoragePeerT ns [] s = (Inr objs, s')" "up s'"
    using up_list[OF assms(1)] by blast
  then obtain peers where g: "getPeers c s = (Inr peers, s')" using assms by (simp add: getPeers_def)
  from that[OF g getPeers_frame[OF g assms(2)] l(2) getPeers_peers[OF g assms(2,3)]] show ?thesis .
qed

lemma GetPeer_live:
  assumes "up s" and "peers_wf view ns s" and "co_cli c = cli" "co_Namespace c = ns"
  shows "\<exists>s'. GetPeer c i s =
    ((case peer_content view ns s (HashID i) of
        Some p \<Rightarrow> if sp_id p = i then Inr p else Inl ErrNodeNotFound | None \<Rightarrow> Inl ErrNodeNotFound), s')"
proof -
  obtain peers s' where g: "getPeers c s = (Inr peers, s')" and p: "set peers = ran (peer_content view ns s)"
    by (rule getPeers_up[OF assms(1,3,4)])
  from g find_peer_content[OF p assms(2), of i] show ?thesis
    by (auto simp: GetPeer_def split: option.splits if_splits)
qed

lemma GetPeers_live:
  assumes "up s" and "co_cli c = cli" "co_Namespace c = ns"
  shows "\<exists>peers s'. GetPeers c s = (Inr peers, s') \<and> set peers = ran (peer_content view ns s) \<and> view s' = view s"
  using getPeers_up[OF assms] by (metis (no_types, lifting) GetPeers_def prod.case sum.case(2))

lemma RemovePeer_up:
  "up s \<Longrightarrow> co_cli c = cli \<Longrightarrow> co_Namespace c = ns \<Longrightarrow> \<not> co_isObserver c \<Longrightarrow>
     \<exists>s'. RemovePeer c p w s = (Inr (), s') \<and> up s'"
  by (simp add: RemovePeer_def removePeerByIDHash_def) (metis delete_ignored_up)

lemma AddVoter_up:
  assumes "up s" and "co_cli c = cli" "co_Namespace c = ns"
    and "\<And>obj. key_of obj = (StoragePeerT, ns, HashID (sp_id p)) \<Longrightarrow> ko_type obj = StoragePeerTypeMeta \<Longrightarrow> admissible obj"
    and "\<not> co_isObserver c"
  shows "\<exists>s'. AddVoter c p s = (Inr (), s') \<and> up s'"
proof -
  have "admissible (StripPatchMeta (storage_peer_object c (p\<lparr>sp_clusterStatus := CLUSTER_VOTER\<rparr>)))"
    by (rule assms(4)) (simp_all add: assms(3), simp add: storage_peer_object_def)
  then obtain s1 where
    "PatchObject cli (storage_peer_object c (p\<lparr>sp_clusterStatus := CLUSTER_VOTER\<rparr>)) s = (Inr (), s1)" "up s1"
    by (rule PatchObject_up[OF assms(1)])
  then show ?thesis using assms(2,5) by (auto simp: AddVoter_def)
qed

lemma AddObserver_up:
  assumes "up s" and "co_cli c = cli" "co_Namespace c = ns"
    and "\<And>obj. key_of obj = (StoragePeerT, ns, HashID (sp_id p)) \<Longrightarrow> ko_type obj = StoragePeerTypeMeta \<Longrightarrow> admissible obj"
    and "sp_id p = co_NodeID c"
  shows "\<exists>s'. AddObserver c p s = (Inr (), s') \<and> up s'"
proof -
  have "admissible (StripPatchMeta (storage_peer_object c (p\<lparr>sp_clusterStatus := CLUSTER_OBSERVER\<rparr>)))"
    by (rule assms(4)) (simp_all add: assms(3), simp add: storage_peer_object_def)
  then obtain s1 where
    "PatchObject cli (storage_peer_object c (p\<lparr>sp_clusterStatus := CLUSTER_OBSERVER\<rparr>)) s = (Inr (), s1)" "up s1"
    by (rule PatchObject_up[OF assms(1)])
  then show ?thesis using assms(2,5) by (auto simp: AddObserver_def)
qed

end

subsection \<open>The lease\<close>

text \<open>
  The documented behaviour of the elector: it leads when the holder of the lease it observed
  last is itself, and names that holder otherwise; asking it changes nothing, and the lease does
  not change hands while the peers are listed.
\<close>

locale lease = kube_ns_server cli view up admissible ns
  for cli :: "'s client" and view :: "'s \<Rightarrow> objkey \<Rightarrow> stored option" and up :: "'s \<Rightarrow> bool"
    and admissible :: "kobject \<Rightarrow> bool" and ns :: string +
  fixes leaders :: "'s elector" and NodeID :: string and holder :: "'s \<Rightarrow> string"
  assumes is_leader: "el_IsLeader leaders s = (b, s') \<Longrightarrow>
      b = (holder s = NodeID) \<and> holder s' = holder s \<and> view s' = view s \<and> (up s \<longrightarrow> up s')"
    and get_leader: "el_GetLeader leaders s = (l, s') \<Longrightarrow>
      l = holder s \<and> holder s' = holder s \<and> view s' = view s \<and> (up s \<longrightarrow> up s')"
    and list_holder: "api_list cli t ns' sel s = (r, s') \<Longrightarrow> holder s' = holder s"
begin

lemma IsLeader_lease:
  assumes "co_leaders c = Some leaders" and "\<not> co_isObserver c"
  obtains s' where "IsLeader c s = (Inr (holder s = NodeID), s')" and "holder s' = holder s"
    and "view s' = view s" and "up s \<Longrightarrow> up s'"
proof -
  obtain b s' where "el_IsLeader leaders s = (b, s')" by fastforce
  with is_leader[OF this] that assms show ?thesis by (simp add: IsLeader_def)
qed

lemma elected_lease:
  assumes "co_leaders c = Some leaders" and "\<not> co_isObserver c"
  obtains s' where "elected c p s = (Inr (holder s = sp_id p), s')" and "holder s' = holder s"
    and "view s' = view s" and "up s \<Longrightarrow> up s'"
proof -
  obtain l s' where "el_GetLeader leaders s = (l, s')" by fastforce
  with get_leader[OF this] that assms show ?thesis by (simp add: elected_def)
qed

lemma getPeers_holder: "getPeers c s = (r, s') \<Longrightarrow> co_cli c = cli \<Longrightarrow> holder s' = holder s"
  using list_holder[of StoragePeerT "co_Namespace c" "[]" s _ s']
  by (auto simp: getPeers_def IgnoreNotFound_def split: prod.splits sum.splits if_splits)

text \<open>The loop stops at the peer that holds the lease: no stored peer has the status of a leader.\<close>

lemma find_leader_lease:
  assumes "co_leaders c = Some leaders" and "\<not> co_isObserver c"
    and "\<forall>p \<in> set peers. sp_clusterStatus p = CLUSTER_VOTER \<or> sp_clusterStatus p = CLUSTER_OBSERVER"
  shows "\<exists>s'. view s' = view s \<and> (up s \<longrightarrow> up s') \<and> find_leader c peers s =
      (case find_peer peers (holder s) of
         None \<Rightarrow> (Inl ErrNoLeader, c, s')
       | Some p \<Rightarrow>
           (if holder s = NodeID then (Inr p, c\<lparr>co_self := Some p\<rparr>, s')
            else (Inr (p\<lparr>sp_clusterStatus := CLUSTER_LEADER\<rparr>), c, s')))"
  using assms(3)
proof (induction peers arbitrary: s)
  case Nil
  show ?case by (rule exI[of _ s]) simp
next
  case (Cons p peers)
  obtain s1 where e1: "elected c p s = (Inr (holder s = sp_id p), s1)" "holder s1 = holder s" "view s1 = view s"
    "up s \<longrightarrow> up s1" using elected_lease[OF assms(1,2)] by metis
  show ?case
  proof (cases "holder s = sp_id p")
    case True
    obtain s2 where l: "IsLeader c s1 = (Inr (holder s1 = NodeID), s2)" "holder s2 = holder s1" "view s2 = view s1"
      "up s1 \<longrightarrow> up s2" using IsLeader_lease[OF assms(1,2)] by metis
    obtain s3 where e2: "elected c p s2 = (Inr (holder s2 = sp_id p), s3)" "view s3 = view s2"
      "up s2 \<longrightarrow> up s3" using elected_lease[OF assms(1,2)] by metis
    from True e1 l e2 show ?thesis by (cases "sp_id p = NodeID") (auto simp: elected_self_def)
  next
    case False
    obtain s2 where e2: "elected c p s1 = (Inr (holder s1 = sp_id p), s2)" "holder s2 = holder s1" "view s2 = view s1"
      "up s1 \<longrightarrow> up s2" using elected_lease[OF assms(1,2)] by metis
    have "find_leader c (p # peers) s = find_leader c peers s2"
      using False e1 e2 assms(2) Cons.prems by (auto simp: elected_self_def)
    moreover have "\<forall>p \<in> set peers. sp_clusterStatus p = CLUSTER_VOTER \<or> sp_clusterStatus p = CLUSTER_OBSERVER"
      using Cons.prems by simp
    from Cons.IH[OF this, of s2] obtain s' where "view s' = view s2" "up s2 \<longrightarrow> up s'" "find_leader c peers s2 =
        (case find_peer peers (holder s2) of
           None \<Rightarrow> (Inl ErrNoLeader, c, s')
         | Some p \<Rightarrow>
             (if holder s2 = NodeID then (Inr p, c\<lparr>co_self := Some p\<rparr>, s')
              else (Inr (p\<lparr>sp_clusterStatus := CLUSTER_LEADER\<rparr>), c, s')))" by blast
    ultimately show ?thesis using e1(3,4) e2(3,4) False unfolding e2(2) e1(2) by (intro exI[of _ s']) simp
  qed
qed

lemma GetLeader_lease:
  assumes "up s" and "peers_wf view ns s" and "co_cli c = cli" "co_Namespace c = ns"
    and "co_leaders c = Some leaders" and "\<not> co_isObserver c"
  shows "\<exists>s'. view s' = view s \<and> up s' \<and> GetLeader c s =
      (case (if holder s = NodeID then co_self c else None) of
         Some p \<Rightarrow> (Inr p, c, s')
       | None \<Rightarrow>
          (case peer_content view ns s (HashID (holder s)) of
             None \<Rightarrow> (Inl ErrNoLeader, c, s')
           | Some p \<Rightarrow>
              (if sp_id p \<noteq> holder s then (Inl ErrNoLeader, c, s')
               else if holder s = NodeID then (Inr p, c\<lparr>co_self := Some p\<rparr>, s')
               else (Inr (p\<lparr>sp_clusterStatus := CLUSTER_LEADER\<rparr>), c, s'))))"
proof -
  obtain s1 where l: "IsLeader c s = (Inr (holder s = NodeID), s1)" "holder s1 = holder s" "view s1 = view s" "up s1"
    using IsLeader_lease[OF assms(5,6), of s] assms(1) by blast
  show ?thesis
  proof (cases "if holder s = NodeID then co_self c else None")
    case (Some p)
    with l show ?thesis by (auto simp: GetLeader_def)
  next
    case None
    obtain peers s2 where g: "getPeers c s1 = (Inr peers, s2)" "view s2 = view s1" "set peers = ran (peer_content view ns s1)"
      "up s2" by (rule getPeers_up[OF l(4) assms(3,4)])
    have h: "holder s2 = holder s1" by (rule getPeers_holder[OF g(1) assms(3)])
    have c: "peer_content view ns s1 = peer_content view ns s" by (rule named_content_cong[OF l(3)])
    then have p: "set peers = ran (peer_content view ns s)" using g(3) by simp
    then have "\<forall>p \<in> set peers. sp_clusterStatus p = CLUSTER_VOTER \<or> sp_clusterStatus p = CLUSTER_OBSERVER"
      using peers_wf_content(2)[OF assms(2)] by (auto simp: ran_def)
    from find_leader_lease[OF assms(5,6) this, of s2] g(4) obtain s' where f: "view s' = view s2" "up s'" "find_leader c peers s2 =
      (case find_peer peers (holder s2) of
         None \<Rightarrow> (Inl ErrNoLeader, c, s')
       | Some p \<Rightarrow>
           (if holder s2 = NodeID then (Inr p, c\<lparr>co_self := Some p\<rparr>, s')
            else (Inr (p\<lparr>sp_clusterStatus := CLUSTER_LEADER\<rparr>), c, s')))" by blast
    have "GetLeader c s = find_leader c peers s2" using l(1) None g(1) by (simp add: GetLeader_def)
    then show ?thesis using f None g(2) l(2,3) h find_peer_content[OF p assms(2), of "holder s"]
      by (auto split: option.splits)
  qed
qed

end

text \<open>An observer takes the first voter of the list for the leader.\<close>

context kube_ns_server begin

lemma find_leader_observer:
  assumes "co_isObserver c"
    and "\<forall>p \<in> set peers. sp_clusterStatus p = CLUSTER_VOTER \<or> sp_clusterStatus p = CLUSTER_OBSERVER"
  shows "find_leader c peers s =
    ((case filter (\<lambda>p. sp_clusterStatus p = CLUSTER_VOTER) peers of [] \<Rightarrow> Inl ErrNoLeader | p # _ \<Rightarrow> Inr p), c, s)"
  using assms(2)
proof (induction peers)
  case (Cons p peers)
  with assms(1) show ?case by (auto simp: elected_self_def elected_def)
qed simp

lemma GetLeader_observer:
  assumes "up s" and "peers_wf view ns s" and "co_cli c = cli" "co_Namespace c = ns" and "co_isObserver c"
  shows "\<exists>r s'. GetLeader c s = (r, c, s') \<and> view s' = view s \<and>
    (case r of
       Inr p \<Rightarrow> sp_clusterStatus p = CLUSTER_VOTER \<and> p \<in> ran (peer_content view ns s)
     | Inl e \<Rightarrow> e = ErrNoLeader \<and> (\<forall>p \<in> ran (peer_content view ns s). sp_clusterStatus p \<noteq> CLUSTER_VOTER))"
proof -
  obtain peers s1 where g: "getPeers c s = (Inr peers, s1)" "view s1 = view s" "set peers = ran (peer_content view ns s)"
    by (rule getPeers_up[OF assms(1,3,4)])
  have st: "\<forall>p \<in> set peers. sp_clusterStatus p = CLUSTER_VOTER \<or> sp_clusterStatus p = CLUSTER_OBSERVER"
    unfolding g(3) using peers_wf_content(2)[OF assms(2)] by (auto simp: ran_def)
  let ?vs = "filter (\<lambda>p. sp_clusterStatus p = CLUSTER_VOTER) peers"
  have "GetLeader c s = ((case ?vs of [] \<Rightarrow> Inl ErrNoLeader | p # _ \<Rightarrow> Inr p), c, s1)"
    using g(1) assms(5) find_leader_observer[OF assms(5) st] by (simp add: GetLeader_def IsLeader_def)
  moreover have "set ?vs = {p \<in> ran (peer_content view ns s). sp_clusterStatus p = CLUSTER_VOTER}"
    using g(3) by auto
  ultimately show ?thesis using g(2) by (cases ?vs) (auto simp: filter_empty_conv)
qed

end

end
