(* ===== verification/Crds.thy ===== *)
theory Crds
  imports KubeApi
begin

text \<open>
  \<open>api/storage/v1/crds.go\<close>: the list of the custom objects, and the custom resource definitions
  that are embedded in the program, read once and kept in package variables. The embedded files
  and the JSON decoder are parameters. \<open>sync.Once\<close> counts a call that panicked as done.
\<close>

text \<open>The metadata the code resets; the rest of a definition is its content.\<close>

record crd =
  crd_Generation :: int
  crd_UID :: string
  crd_ResourceVersion :: string
  crd_SelfLink :: string
  crd_CreationTimestamp :: int
  crd_ManagedFields :: "string list"
  crd_content :: string

record crd_fs =
  fs_ReadDir :: "string \<Rightarrow> goerr + string list"
  fs_ReadFile :: "string \<Rightarrow> goerr + string"
  fs_Unmarshal :: "string \<Rightarrow> goerr + crd"

record crd_globals =
  customResourceDefinitions :: "crd list"
  once_done :: bool

definition CustomObjects :: "gvk list" where
  "CustomObjects = [MeshStateT, PeerT, MeshEdgeT, NetworkACLT, RouteT, RoleT, RoleBindingT, GroupT, StoragePeerT]"

definition clear_crd :: "crd \<Rightarrow> crd" where
  "clear_crd c = c\<lparr>crd_Generation := 0, crd_UID := [], crd_ResourceVersion := [], crd_SelfLink := [],
     crd_CreationTimestamp := 0, crd_ManagedFields := []\<rparr>"

text \<open>The loop over the files; a panic leaves the definitions read so far behind.\<close>

fun read_crds :: "crd_fs \<Rightarrow> string list \<Rightarrow> crd list \<Rightarrow> (goerr + unit) \<times> crd list" where
  "read_crds fs [] crds = (Inr (), crds)"
| "read_crds fs (file # files) crds =
     (case fs_ReadFile fs (''crds/'' @ file) of
        Inl err \<Rightarrow> (Inl (Panic err), crds)
      | Inr data \<Rightarrow>
          (case fs_Unmarshal fs data of
             Inl err \<Rightarrow> (Inl (Panic err), crds)
           | Inr c \<Rightarrow> read_crds fs files (crds @ [clear_crd c])))"

definition load_crds :: "crd_fs \<Rightarrow> crd list \<Rightarrow> (goerr + unit) \<times> crd list" where
  "load_crds fs crds =
     (if 0 < length crds then (Inr (), crds)
      else (case fs_ReadDir fs ''crds'' of
              Inl err \<Rightarrow> (Inl (Panic err), crds)
            | Inr files \<Rightarrow> read_crds fs files crds))"

definition GetCustomResourceDefintions :: "crd_fs \<Rightarrow> crd_globals \<Rightarrow> (goerr + crd list) \<times> crd_globals" where
  "GetCustomResourceDefintions fs g =
     (if once_done g then (Inr (customResourceDefinitions g), g)
      else (case load_crds fs (customResourceDefinitions g) of
              (Inl panic, crds) \<Rightarrow> (Inl panic, g\<lparr>customResourceDefinitions := crds, once_done := True\<rparr>)
            | (Inr _, crds) \<Rightarrow> (Inr crds, g\<lparr>customResourceDefinitions := crds, once_done := True\<rparr>)))"

definition crd_init :: crd_globals where
  "crd_init = \<lparr>customResourceDefinitions = [], once_done = False\<rparr>"

text \<open>Loading the files with a decoder that may fail: all of them, or those before the failure.\<close>

definition decode_file :: "crd_fs \<Rightarrow> string \<Rightarrow> crd option" where
  "decode_file fs file =
     (case fs_ReadFile fs (''crds/'' @ file) of
        Inl _ \<Rightarrow> None
      | Inr data \<Rightarrow> (case fs_Unmarshal fs data of Inl _ \<Rightarrow> None | Inr c \<Rightarrow> Some c))"

lemma read_crds_step:
  "decode_file fs f = Some c \<Longrightarrow> read_crds fs (f # files) crds = read_crds fs files (crds @ [clear_crd c])"
  "decode_file fs f = None \<Longrightarrow> \<exists>e. read_crds fs (f # files) crds = (Inl (Panic e), crds)"
  by (auto simp: decode_file_def split: sum.splits)

lemma read_crds_append:
  "\<forall>f \<in> set before. decode_file fs f \<noteq> None \<Longrightarrow>
     read_crds fs (before @ rest) crds = read_crds fs rest (crds @ map (clear_crd \<circ> the \<circ> decode_file fs) before)"
  by (induction before arbitrary: crds) (auto simp: read_crds_step simp del: read_crds.simps)

text \<open>
  The first call returns the definitions of all embedded files with their server-side
  metadata cleared, in the order of the files, and every later call returns the same. When a
  file cannot be decoded the first call panics, but every later call returns the definitions
  before that file as if nothing had happened.
\<close>

theorem crds_loaded_once:
  assumes "fs_ReadDir fs ''crds'' = Inr (before @ rest)"
    and "\<forall>f \<in> set before. decode_file fs f \<noteq> None"
    and "rest = [] \<or> decode_file fs (hd rest) = None"
  shows "\<exists>r g. GetCustomResourceDefintions fs crd_init = (r, g)
    \<and> (if rest = [] then r = Inr (map (clear_crd \<circ> the \<circ> decode_file fs) before) else \<exists>e. r = Inl (Panic e))
    \<and> GetCustomResourceDefintions fs' g = (Inr (map (clear_crd \<circ> the \<circ> decode_file fs) before), g)"
proof -
  let ?crds = "map (clear_crd \<circ> the \<circ> decode_file fs) before"
  obtain r where r: "read_crds fs (before @ rest) [] = (r, ?crds)"
    "if rest = [] then r = Inr () else \<exists>e. r = Inl (Panic e)"
    using read_crds_append[OF assms(2), of rest "[]"] read_crds_step(2)[of fs "hd rest" "tl rest" ?crds] assms(3)
    by (cases rest) auto
  let ?g = "\<lparr>customResourceDefinitions = ?crds, once_done = True\<rparr>"
  have "GetCustomResourceDefintions fs crd_init = (case r of Inl e \<Rightarrow> Inl e | Inr _ \<Rightarrow> Inr ?crds, ?g)"
    using r(1) assms(1) by (cases r) (simp_all add: GetCustomResourceDefintions_def load_crds_def crd_init_def)
  moreover have "GetCustomResourceDefintions fs' ?g = (Inr ?crds, ?g)"
    by (simp add: GetCustomResourceDefintions_def)
  ultimately show ?thesis using r(2)
    by (intro exI[of _ "case r of Inl e \<Rightarrow> Inl e | Inr _ \<Rightarrow> Inr ?crds"] exI[of _ ?g]) (auto split: if_splits)
qed

definition example_fs :: crd_fs where
  "example_fs = \<lparr>fs_ReadDir = (\<lambda>d. Inr [''a.json'', ''b.json'']), fs_ReadFile = (\<lambda>f. Inr f),
     fs_Unmarshal = (\<lambda>d. if d = ''crds/b.json'' then Inl (Errorf ''json'')
       else Inr \<lparr>crd_Generation = 3, crd_UID = ''u'', crd_ResourceVersion = ''7'', crd_SelfLink = [],
         crd_CreationTimestamp = 5, crd_ManagedFields = [''m''], crd_content = d\<rparr>)\<rparr>"

theorem crds_loaded_once_witness:
  "\<exists>e g. GetCustomResourceDefintions example_fs crd_init = (Inl (Panic e), g)
    \<and> GetCustomResourceDefintions example_fs g = (Inr [clear_crd
        \<lparr>crd_Generation = 3, crd_UID = ''u'', crd_ResourceVersion = ''7'', crd_SelfLink = [],
         crd_CreationTimestamp = 5, crd_ManagedFields = [''m''], crd_content = ''crds/a.json''\<rparr>], g)"
proof -
  have "fs_ReadDir example_fs ''crds'' = Inr ([''a.json''] @ [''b.json''])"
    "\<forall>f \<in> set [''a.json'']. decode_file example_fs f \<noteq> None"
    "[''b.json''] = [] \<or> decode_file example_fs (hd [''b.json'']) = None"
    by (simp_all add: example_fs_def decode_file_def)
  from crds_loaded_once[OF this, of example_fs] show ?thesis
    by (auto simp: example_fs_def decode_file_def)
qed

end
