(* ===== verification/Netip.thy ===== *)
theory Netip
  imports GoStrings "HOL-Library.Word"
begin

unbundle bit_operations_syntax

text \<open>
  The part of Go's \<open>net/netip\<close> the code uses: addresses and prefixes, \<open>Addr.Compare\<close>,
  \<open>Prefix.Bits\<close> and \<open>Prefix.String\<close>. An address is invalid (the zero \<open>Addr\<close>), a 32-bit IPv4
  address or a 128-bit IPv6 address with its zone; \<open>Bits\<close> is -1 for an invalid prefix.
\<close>

datatype addr = AddrInvalid | Addr4 "32 word" | Addr6 "128 word" string

record prefix =
  pfx_addr :: addr
  pfx_bits :: int

subsection \<open>Addr.Compare\<close>

fun addr_BitLen :: "addr \<Rightarrow> nat" where
  "addr_BitLen AddrInvalid = 0"
| "addr_BitLen (Addr4 _) = 32"
| "addr_BitLen (Addr6 _ _) = 128"

fun compare_strings :: "string \<Rightarrow> string \<Rightarrow> int" where
  "compare_strings [] [] = 0"
| "compare_strings [] (_ # _) = -1"
| "compare_strings (_ # _) [] = 1"
| "compare_strings (x # xs) (y # ys) =
     (if (of_char x :: nat) < of_char y then -1
      else if (of_char x :: nat) > of_char y then 1 else compare_strings xs ys)"

fun addr_value :: "addr \<Rightarrow> nat" where
  "addr_value AddrInvalid = 0"
| "addr_value (Addr4 w) = unat w"
| "addr_value (Addr6 w _) = unat w"

fun addr_zone :: "addr \<Rightarrow> string" where
  "addr_zone (Addr6 _ z) = z"
| "addr_zone _ = []"

definition addr_Compare :: "addr \<Rightarrow> addr \<Rightarrow> int" where
  "addr_Compare a b =
     (if addr_BitLen a < addr_BitLen b then -1
      else if addr_BitLen a > addr_BitLen b then 1
      else if addr_value a < addr_value b then -1
      else if addr_value a > addr_value b then 1
      else if addr_BitLen a = 128 then compare_strings (addr_zone a) (addr_zone b)
      else 0)"

lemma compare_strings_0 [simp]: "compare_strings s t = 0 \<longleftrightarrow> s = t"
  by (induction s t rule: compare_strings.induct) auto

lemma addr_Compare_0 [simp]: "addr_Compare a b = 0 \<longleftrightarrow> a = b"
  by (cases a; cases b) (auto simp: addr_Compare_def word_unat_eq_iff)

subsection \<open>Prefix.String\<close>

fun digits :: "nat \<Rightarrow> nat \<Rightarrow> string" where
  "digits b n = (if b < 2 \<or> n < b then [''0123456789abcdef'' ! (n mod 16)]
                 else digits b (n div b) @ [''0123456789abcdef'' ! (n mod b mod 16)])"

declare digits.simps [simp del]

definition itoa :: "nat \<Rightarrow> string" where
  "itoa n = digits 10 n"

definition string4 :: "32 word \<Rightarrow> string" where
  "string4 w = join_with CHR ''.'' (map (\<lambda>i. itoa (unat (drop_bit i w AND 255))) [24, 16, 8, 0])"

text \<open>The eight 16-bit groups of an IPv6 address, the most significant first.\<close>

definition groups6 :: "128 word \<Rightarrow> nat list" where
  "groups6 w = map (\<lambda>i. unat (drop_bit i w AND 65535)) [112, 96, 80, 64, 48, 32, 16, 0]"

text \<open>
  \<open>appendTo6\<close> replaces the first longest run of at least two zero groups. \<open>zero_run\<close> gives
  the length of the run of zeros a list starts with; \<open>longest_run\<close> is the loop over \<open>i\<close> with
  the best run so far.
\<close>

fun zero_run :: "nat list \<Rightarrow> nat" where
  "zero_run (0 # gs) = Suc (zero_run gs)"
| "zero_run _ = 0"

fun longest_run :: "nat \<Rightarrow> nat list \<Rightarrow> nat \<times> nat \<Rightarrow> nat \<times> nat" where
  "longest_run i [] best = best"
| "longest_run i (g # gs) (st, len) =
     (let l = zero_run (g # gs)
      in longest_run (Suc i) gs (if 2 \<le> l \<and> len < l then (i, l) else (st, len)))"

definition string6 :: "128 word \<Rightarrow> string" where
  "string6 w =
     (let gs = groups6 w; (st, len) = longest_run 0 gs (0, 0)
      in if len = 0 then join_with CHR '':'' (map (digits 16) gs)
         else join_with CHR '':'' (map (digits 16) (take st gs)) @ ''::''
              @ join_with CHR '':'' (map (digits 16) (drop (st + len) gs)))"

definition with_zone :: "string \<Rightarrow> string \<Rightarrow> string" where
  "with_zone s z = (if z = [] then s else s @ ''%'' @ z)"

fun addr_String :: "addr \<Rightarrow> string" where
  "addr_String AddrInvalid = ''invalid IP''"
| "addr_String (Addr4 w) = string4 w"
| "addr_String (Addr6 w z) =
     (if drop_bit 32 w = 65535 then with_zone (''::ffff:'' @ string4 (ucast w)) z
      else with_zone (string6 w) z)"

definition prefix_String :: "prefix \<Rightarrow> string" where
  "prefix_String p =
     (if pfx_bits p < 0 then ''invalid Prefix''
      else addr_String (pfx_addr p) @ ''/'' @ itoa (nat (pfx_bits p)))"

subsection \<open>Decimal printing is injective\<close>

lemma hex_digits_nth_inj: "i < 16 \<Longrightarrow> j < 16 \<Longrightarrow> ''0123456789abcdef'' ! i = ''0123456789abcdef'' ! j \<longleftrightarrow> i = j"
proof -
  have "distinct ''0123456789abcdef''" by simp
  then show "i < 16 \<Longrightarrow> j < 16 \<Longrightarrow> ?thesis" by (subst nth_eq_iff_index_eq) auto
qed

lemma digits_nonempty [simp]: "digits b n \<noteq> []" "[] \<noteq> digits b n"
  by (subst digits.simps; simp)+

lemma digits_inj:
  "2 \<le> b \<Longrightarrow> b \<le> 16 \<Longrightarrow> digits b m = digits b n \<longleftrightarrow> m = n"
proof (induction b m arbitrary: n rule: digits.induct)
  case (1 b m)
  note d = digits.simps[of b m] digits.simps[of b n]
  have less: "m mod b < 16" "n mod b < 16"
    using 1(2,3) by (auto intro: less_le_trans[OF mod_less_divisor])
  show ?case
  proof (cases "m < b"; cases "n < b")
    assume "m < b" "n < b" then show ?thesis
      using d 1(2,3) hex_digits_nth_inj[of m n] by simp
  next
    assume "\<not> m < b" "\<not> n < b"
    then have "digits b m = digits b n \<longleftrightarrow> digits b (m div b) = digits b (n div b) \<and> m mod b = n mod b"
      using d 1(2) less hex_digits_nth_inj[of "m mod b" "n mod b"] by simp
    also have "\<dots> \<longleftrightarrow> m div b = n div b \<and> m mod b = n mod b"
      using 1 \<open>\<not> m < b\<close> by simp
    also have "\<dots> \<longleftrightarrow> m = n" by (metis div_mult_mod_eq)
    finally show ?thesis .
  qed (use d 1(2) in auto)
qed

lemma itoa_inject [simp]: "itoa m = itoa n \<longleftrightarrow> m = n"
  by (simp add: itoa_def digits_inj)

end
