(* ===== verification/Manager.thy ===== *)
theory Manager
  imports Crds Netip
begin

text \<open>
  \<open>provider/manager/manager.go\<close>: the options of the controller manager. The manager itself, its
  configuration \<open>'c\<close> and the scheme \<open>'h\<close> are controller-runtime's; the calls of them are the
  fields of \<open>manager_env\<close>, each with the error it can return.
\<close>

record manager_options =
  mo_MetricsPort :: int
  mo_ProbePort :: int
  mo_ShutdownTimeout :: int
  mo_DisableCache :: bool

text \<open>\<open>ctrl.Options\<close>: the fields the code sets. \<open>DisableFor\<close> is that of the client's cache, if set.\<close>

record 'h ctrl_options =
  ct_Scheme :: 'h
  ct_GracefulShutdownTimeout :: int
  ct_HealthProbeBindAddress :: string
  ct_MetricsBindAddress :: string
  ct_NeedLeaderElection :: bool
  ct_DisableFor :: "gvk list option"

record ('c, 'h, 'm) manager_env =
  me_NewScheme :: 'h
  me_AddCore :: "'h \<Rightarrow> goerr + 'h"
  me_AddStorage :: "'h \<Rightarrow> goerr + 'h"
  me_AddApiextensions :: "'h \<Rightarrow> goerr + 'h"
  me_NewManager :: "'c \<Rightarrow> 'h ctrl_options \<Rightarrow> goerr + 'm"
  me_AddHealthzCheck :: "string \<Rightarrow> 'm \<Rightarrow> goerr + 'm"
  me_AddReadyzCheck :: "string \<Rightarrow> 'm \<Rightarrow> goerr + 'm"
  me_GetConfigOrDie :: 'c

definition itoa_int :: "int \<Rightarrow> string" where
  "itoa_int i = (if i < 0 then CHR ''-'' # itoa (nat (- i)) else itoa (nat i))"

definition bind_address :: "int \<Rightarrow> string" where
  "bind_address port = (if port \<noteq> 0 then ''[::]:'' @ itoa_int port else ''0'')"

definition manager_ctrl_options :: "'h \<Rightarrow> manager_options \<Rightarrow> 'h ctrl_options" where
  "manager_ctrl_options scheme opts =
     \<lparr>ct_Scheme = scheme, ct_GracefulShutdownTimeout = mo_ShutdownTimeout opts,
      ct_HealthProbeBindAddress = bind_address (mo_ProbePort opts),
      ct_MetricsBindAddress = bind_address (mo_MetricsPort opts),
      ct_NeedLeaderElection = False,
      ct_DisableFor = (if mo_DisableCache opts then Some (CustomObjects @ [SecretT, ConfigMapT]) else None)\<rparr>"

definition NewFromConfig ::
    "('c, 'h, 'm) manager_env \<Rightarrow> 'c \<Rightarrow> manager_options \<Rightarrow> goerr + 'm" where
  "NewFromConfig env cfg opts =
     (case me_AddCore env (me_NewScheme env) of
        Inl err \<Rightarrow> Inl err
      | Inr scheme1 \<Rightarrow>
     (case me_AddStorage env scheme1 of
        Inl err \<Rightarrow> Inl err
      | Inr scheme2 \<Rightarrow>
     (case me_AddApiextensions env scheme2 of
        Inl err \<Rightarrow> Inl err
      | Inr scheme \<Rightarrow>
     (case me_NewManager env cfg (manager_ctrl_options scheme opts) of
        Inl err \<Rightarrow> Inl err
      | Inr mgr \<Rightarrow>
          (if mo_ProbePort opts \<noteq> 0 then
             (case me_AddHealthzCheck env ''healthz'' mgr of
                Inl err \<Rightarrow> Inl err
              | Inr mgr' \<Rightarrow>
                  (case me_AddReadyzCheck env ''readyz'' mgr' of
                     Inl err \<Rightarrow> Inl err
                   | Inr mgr'' \<Rightarrow> Inr mgr''))
           else Inr mgr)))))"

definition New_manager :: "('c, 'h, 'm) manager_env \<Rightarrow> manager_options \<Rightarrow> goerr + 'm" where
  "New_manager env opts = NewFromConfig env (me_GetConfigOrDie env) opts"

text \<open>Without a cache, every kind of object the program reads is read from the server.\<close>

lemma disabled_cache_covers_all:
  "ct_DisableFor (manager_ctrl_options scheme opts) = Some kinds \<Longrightarrow> t \<in> set kinds"
  by (cases t) (auto simp: manager_ctrl_options_def CustomObjects_def split: if_splits)

end
