(* ===== verification/GoContext.thy ===== *)
theory GoContext
  imports Prelude
begin

text \<open>
  The part of Go's \<open>context\<close> the subscriptions use: \<open>context.WithCancel\<close> derives a context
  with a cancel function from a parent, and a context is done when its own cancel function
  was called or its parent is done. A cancel function is the number of its context; \<open>rt\<close>
  holds the numbers that were cancelled and the next free one.
\<close>

datatype ctx = Background | Derived ctx nat

record runtime =
  rt_cancelled :: "nat list"
  rt_next :: nat

fun ctx_done :: "runtime \<Rightarrow> ctx \<Rightarrow> bool" where
  "ctx_done rt Background = False"
| "ctx_done rt (Derived parent i) = (i \<in> set (rt_cancelled rt) \<or> ctx_done rt parent)"

definition WithCancel :: "runtime \<Rightarrow> ctx \<Rightarrow> (ctx \<times> nat) \<times> runtime" where
  "WithCancel rt parent =
     ((Derived parent (rt_next rt), rt_next rt), rt\<lparr>rt_next := Suc (rt_next rt)\<rparr>)"

definition cancel_ctx :: "nat \<Rightarrow> runtime \<Rightarrow> runtime" where
  "cancel_ctx i rt = rt\<lparr>rt_cancelled := i # rt_cancelled rt\<rparr>"

fun ctx_ids :: "ctx \<Rightarrow> nat set" where
  "ctx_ids Background = {}"
| "ctx_ids (Derived parent i) = insert i (ctx_ids parent)"

lemma ctx_done_iff: "ctx_done rt c \<longleftrightarrow> ctx_ids c \<inter> set (rt_cancelled rt) \<noteq> {}"
  by (induction c) auto

lemma ctx_done_cancel [simp]: "ctx_done (cancel_ctx i rt) c \<longleftrightarrow> i \<in> ctx_ids c \<or> ctx_done rt c"
  by (auto simp: ctx_done_iff cancel_ctx_def)

lemma ctx_done_next [simp]: "ctx_done (rt\<lparr>rt_next := n\<rparr>) c = ctx_done rt c"
  by (simp add: ctx_done_iff)

text \<open>The numbers given out so far are below the next one.\<close>

definition rt_fresh :: "runtime \<Rightarrow> bool" where
  "rt_fresh rt \<longleftrightarrow> (\<forall>i \<in> set (rt_cancelled rt). i < rt_next rt)"

lemma WithCancel_done:
  assumes "WithCancel rt parent = ((c, i), rt')" and "rt_fresh rt"
  shows "ctx_done rt' c = ctx_done rt parent" and "rt_fresh rt'" and "i \<in> ctx_ids c"
  using assms by (auto simp: WithCancel_def rt_fresh_def less_Suc_eq)

end
