(* ===== verification/Reconciler.thy ===== *)
theory Reconciler
  imports StorageEnv GoContext
begin

text \<open>
  \<open>provider/reconciler.go\<close> and \<open>Storage.Subscribe\<close>: the subscriptions to key prefixes and the
  reconciler that tells them of changed and deleted keys of a bucket. A call of a subscriber's
  function is the number of the function, the key and the value; a nil value, which stands for
  a deletion, is the empty string, as the codec decodes an empty value to nil too. The lists
  stand for Go maps, in the order in which a range visits them; a range may delete the entry
  it is at. \<open>Eventf\<close> does nothing and is left out.
\<close>

record kv_subscription =
  ks_prefix :: string
  ks_seen :: "(string \<times> string) list"
  ks_fn :: nat
  ks_ctx :: ctx
  ks_cancel :: nat

type_synonym kv_subs = "(string \<times> kv_subscription) list"
type_synonym kv_call = "nat \<times> string \<times> string"

text \<open>\<open>uuid.NewString\<close> is a third-party package's; its result is an argument.\<close>

definition Storage_Subscribe ::
    "string \<Rightarrow> ctx \<Rightarrow> string \<Rightarrow> nat \<Rightarrow> kv_subs \<Rightarrow> runtime \<Rightarrow> (goerr + nat) \<times> kv_subs \<times> runtime" where
  "Storage_Subscribe uuid c pfx fn subs rt =
     (let ((c', cancel), rt') = WithCancel rt c
      in (Inr cancel,
          AList.update uuid \<lparr>ks_prefix = pfx, ks_seen = [], ks_fn = fn, ks_ctx = c', ks_cancel = cancel\<rparr> subs,
          rt'))"

subsection \<open>The reconciler\<close>

text \<open>The loop over the subscriptions when the Secret is gone.\<close>

fun notify_gone :: "runtime \<Rightarrow> string \<Rightarrow> kv_subs \<Rightarrow> kv_subs \<Rightarrow> kv_call list \<times> kv_subs" where
  "notify_gone rt name [] subs = ([], subs)"
| "notify_gone rt name ((subID, sub) # rest) subs =
     (if ctx_done rt (ks_ctx sub) then notify_gone rt name rest (AList.delete subID subs)
      else (let (calls, subs') = notify_gone rt name rest subs
            in (if HasPrefix (ToLower name) (ToLower (ks_prefix sub)) then (ks_fn sub, name, []) # calls
                else calls, subs')))"

text \<open>The loop over the entries of the Secret, for one subscription.\<close>

fun notify_items ::
    "(string \<Rightarrow> goerr + data_item) \<Rightarrow> string \<Rightarrow> nat \<Rightarrow> string list \<Rightarrow> (string \<times> string) list
      \<Rightarrow> kv_call list \<times> (string \<times> string) list" where
  "notify_items unmarshal pfx fn [] seen = ([], seen)"
| "notify_items unmarshal pfx fn (v # vs) seen =
     (case unmarshal v of
        Inl _ \<Rightarrow> notify_items unmarshal pfx fn vs seen
      | Inr item \<Rightarrow>
          (if \<not> HasPrefix (item_Key item) pfx then notify_items unmarshal pfx fn vs seen
           else if map_of seen (item_Key item) = Some (item_Value item) then notify_items unmarshal pfx fn vs seen
           else (let (calls, seen') = notify_items unmarshal pfx fn vs
                       (AList.update (item_Key item) (item_Value item) seen)
                 in ((fn, item_Key item, item_Value item) # calls, seen'))))"

text \<open>The loop over the keys seen so far.\<close>

fun notify_deleted ::
    "(string \<rightharpoonup> string) \<Rightarrow> string \<Rightarrow> nat \<Rightarrow> string list \<Rightarrow> (string \<times> string) list
      \<Rightarrow> kv_call list \<times> (string \<times> string) list" where
  "notify_deleted data pfx fn [] seen = ([], seen)"
| "notify_deleted data pfx fn (key # keys) seen =
     (if \<not> HasPrefix key pfx then notify_deleted data pfx fn keys seen
      else if data (hashKey key) = None then
        (let (calls, seen') = notify_deleted data pfx fn keys (AList.delete key seen)
         in ((fn, key, []) # calls, seen'))
      else notify_deleted data pfx fn keys seen)"

definition notify_sub ::
    "(string \<Rightarrow> goerr + data_item) \<Rightarrow> (string \<times> string) list \<Rightarrow> kv_subscription \<Rightarrow> kv_call list \<times> kv_subscription" where
  "notify_sub unmarshal data sub =
     (let (calls, seen) = notify_items unmarshal (ks_prefix sub) (ks_fn sub) (map snd data) (ks_seen sub);
          (calls', seen') = notify_deleted (map_of data) (ks_prefix sub) (ks_fn sub) (map fst seen) seen
      in (calls @ calls', sub\<lparr>ks_seen := seen'\<rparr>))"

fun notify_changed ::
    "runtime \<Rightarrow> (string \<Rightarrow> goerr + data_item) \<Rightarrow> (string \<times> string) list \<Rightarrow> kv_subs \<Rightarrow> kv_subs
      \<Rightarrow> kv_call list \<times> kv_subs" where
  "notify_changed rt unmarshal data [] subs = ([], subs)"
| "notify_changed rt unmarshal data ((subID, sub) # rest) subs =
     (if ctx_done rt (ks_ctx sub) then notify_changed rt unmarshal data rest (AList.delete subID subs)
      else (let (calls, sub') = notify_sub unmarshal data sub;
                (calls', subs') = notify_changed rt unmarshal data rest (AList.update subID sub' subs)
            in (calls @ calls', subs')))"

definition Provider_Reconcile ::
    "runtime \<Rightarrow> 's storage \<Rightarrow> kv_subs \<Rightarrow> request \<Rightarrow> 's
      \<Rightarrow> (goerr + unit) \<times> kv_call list \<times> kv_subs \<times> 's" where
  "Provider_Reconcile rt st subs req s =
     (case api_get (st_cli st) SecretT (req_Namespace req) (req_Name req) s of
        (Inl err, s') \<Rightarrow>
          (if IgnoreNotFound err \<noteq> None then (Inl err, [], subs, s')
           else (case notify_gone rt (req_Name req) subs subs of
                   (calls, subs') \<Rightarrow> (Inr (), calls, subs', s')))
      | (Inr secret, s') \<Rightarrow>
          (case notify_changed rt (st_Unmarshal st) (as_secret (ko_payload secret)) subs subs of
             (calls, subs') \<Rightarrow> (Inr (), calls, subs', s')))"

text \<open>A nil map of labels is an empty one: a lookup in it finds nothing either.\<close>

definition enqueueObjectIfOwner :: "kobject \<Rightarrow> request list" where
  "enqueueObjectIfOwner o' =
     (if om_labels (ko_meta o') MeshStorageLabel \<noteq> Some ''true'' then []
      else [\<lparr>req_Namespace = om_namespace (ko_meta o'), req_Name = om_name (ko_meta o')\<rparr>])"

subsection \<open>What the loops do\<close>

text \<open>
  The entries decode to items under the hash of their key; so no two entries have the same
  key, and an entry of a key is found under its hash. The values of the bucket by key are then
  a map.
\<close>

definition data_placed :: "(string \<Rightarrow> goerr + data_item) \<Rightarrow> (string \<times> string) list \<Rightarrow> bool" where
  "data_placed unmarshal data \<longleftrightarrow> distinct (map fst data)
     \<and> (\<forall>(h, d) \<in> set data. \<exists>item. unmarshal d = Inr item \<and> h = hashKey (item_Key item))"

definition values_of :: "(string \<Rightarrow> goerr + data_item) \<Rightarrow> (string \<rightharpoonup> string) \<Rightarrow> (string \<rightharpoonup> string)" where
  "values_of unmarshal m k =
     (case m (hashKey k) of
        None \<Rightarrow> None
      | Some d \<Rightarrow> (case unmarshal d of Inl _ \<Rightarrow> None | Inr item \<Rightarrow> Some (item_Value item)))"

lemma values_of_Nil [simp]: "values_of unmarshal Map.empty = Map.empty"
  by (simp add: values_of_def fun_eq_iff)

lemma data_placed_Cons:
  assumes "data_placed unmarshal ((h, d) # data)"
  obtains item where "unmarshal d = Inr item" and "data_placed unmarshal data"
    and "values_of unmarshal (map_of ((h, d) # data)) =
      (values_of unmarshal (map_of data))(item_Key item \<mapsto> item_Value item)"
    and "values_of unmarshal (map_of data) (item_Key item) = None"
proof -
  from assms obtain item where i: "unmarshal d = Inr item" "h = hashKey (item_Key item)"
    by (auto simp: data_placed_def)
  moreover have "map_of data h = None" using assms by (simp add: data_placed_def map_of_eq_None_iff)
  ultimately show ?thesis
    using that assms by (auto simp: data_placed_def values_of_def fun_eq_iff)
qed

lemma data_placed_absent:
  "data_placed unmarshal data \<Longrightarrow> map_of data (hashKey k) = None \<longleftrightarrow> values_of unmarshal (map_of data) k = None"
  by (fastforce simp: data_placed_def values_of_def split: option.splits sum.splits dest: map_of_SomeD)

text \<open>The key a call is about.\<close>

abbreviation call_key :: "kv_call \<Rightarrow> string" where
  "call_key c \<equiv> fst (snd c)"

text \<open>After the loop over the entries the unseen values were told, each once, and all are seen.\<close>

lemma notify_items_done:
  assumes "data_placed unmarshal data" and "distinct (map fst seen)"
    and "notify_items unmarshal pfx fn (map snd data) seen = (calls, seen')"
  shows "(\<forall>f k v. (f, k, v) \<in> set calls \<longleftrightarrow> f = fn \<and> values_of unmarshal (map_of data) k = Some v
      \<and> HasPrefix k pfx \<and> map_of seen k \<noteq> Some v)
    \<and> (\<forall>k. map_of seen' k = (if HasPrefix k pfx \<and> values_of unmarshal (map_of data) k \<noteq> None
        then values_of unmarshal (map_of data) k else map_of seen k))
    \<and> distinct (map call_key calls) \<and> distinct (map fst seen')"
  using assms
proof (induction data arbitrary: seen calls seen')
  case (Cons hd data)
  obtain h d where hd: "hd = (h, d)" by (cases hd)
  obtain item where i: "unmarshal d = Inr item" and p: "data_placed unmarshal data"
    and B: "values_of unmarshal (map_of ((h, d) # data)) =
      (values_of unmarshal (map_of data))(item_Key item \<mapsto> item_Value item)"
    and N: "values_of unmarshal (map_of data) (item_Key item) = None"
    using Cons.prems(1) unfolding hd by (rule data_placed_Cons)
  let ?k = "item_Key item" and ?v = "item_Value item" and ?V = "values_of unmarshal (map_of data)"
  consider (other) "\<not> HasPrefix ?k pfx" | (same) "HasPrefix ?k pfx" "map_of seen ?k = Some ?v"
    | (new) "HasPrefix ?k pfx" "map_of seen ?k \<noteq> Some ?v" by blast
  then show ?case
  proof cases
    case other
    with Cons.prems(3) i hd have r: "notify_items unmarshal pfx fn (map snd data) seen = (calls, seen')" by simp
    from Cons.IH[OF p Cons.prems(2) r] other N show ?thesis unfolding hd B by (auto split: if_splits)
  next
    case same
    with Cons.prems(3) i hd have r: "notify_items unmarshal pfx fn (map snd data) seen = (calls, seen')" by simp
    from Cons.IH[OF p Cons.prems(2) r] same N show ?thesis unfolding hd B by (auto split: if_splits)
  next
    case new
    obtain calls1 where r: "notify_items unmarshal pfx fn (map snd data) (AList.update ?k ?v seen) = (calls1, seen')"
      and c: "calls = (fn, ?k, ?v) # calls1"
      using Cons.prems(3) i hd new by (auto split: prod.splits)
    have d: "distinct (map fst (AList.update ?k ?v seen))" using Cons.prems(2) by (rule distinct_update)
    note IH = Cons.IH[OF p d r]
    have "?k \<notin> call_key ` set calls1" using IH N by fastforce
    then have "distinct (map call_key calls)" using IH c by simp
    moreover have "(f, k, v) \<in> set calls \<longleftrightarrow> f = fn \<and> (?V(?k \<mapsto> ?v)) k = Some v
        \<and> HasPrefix k pfx \<and> map_of seen k \<noteq> Some v" for f k v
      unfolding c using IH new N by (auto simp: update_conv')
    moreover have "map_of seen' k = (if HasPrefix k pfx \<and> (?V(?k \<mapsto> ?v)) k \<noteq> None
        then (?V(?k \<mapsto> ?v)) k else map_of seen k)" for k
      using IH new N by (cases "k = ?k") (auto simp: update_conv')
    ultimately show ?thesis unfolding hd B using IH by blast
  qed
qed simp

lemma notify_deleted_done:
  assumes "distinct keys" and "notify_deleted m pfx fn keys seen = (calls, seen')"
  shows "(\<forall>f k v. (f, k, v) \<in> set calls \<longleftrightarrow>
        f = fn \<and> v = [] \<and> k \<in> set keys \<and> HasPrefix k pfx \<and> m (hashKey k) = None)
    \<and> (\<forall>k. map_of seen' k = (if k \<in> set keys \<and> HasPrefix k pfx \<and> m (hashKey k) = None then None else map_of seen k))
    \<and> distinct (map call_key calls) \<and> (distinct (map fst seen) \<longrightarrow> distinct (map fst seen'))"
  using assms
proof (induction keys arbitrary: seen calls)
  case (Cons key keys)
  show ?case
  proof (cases "HasPrefix key pfx \<and> m (hashKey key) = None")
    case False
    with Cons.prems(2) have "notify_deleted m pfx fn keys seen = (calls, seen')" by (auto split: if_splits)
    from Cons.IH[OF _ this] Cons.prems(1) False show ?thesis by auto
  next
    case True
    then obtain calls1 where r: "notify_deleted m pfx fn keys (AList.delete key seen) = (calls1, seen')"
      and c: "calls = (fn, key, []) # calls1"
      using Cons.prems(2) by (auto split: prod.splits)
    have k: "distinct keys" "key \<notin> set keys" using Cons.prems(1) by auto
    note IH = Cons.IH[OF k(1) r]
    have "key \<notin> call_key ` set calls1" using IH k(2) by fastforce
    then have "distinct (map call_key calls)" using IH c by simp
    moreover have "map_of seen' k = (if k \<in> set (key # keys) \<and> HasPrefix k pfx \<and> m (hashKey k) = None
        then None else map_of seen k)" for k
      using IH True by (auto simp: delete_conv')
    moreover have "(f, k, v) \<in> set calls \<longleftrightarrow>
        f = fn \<and> v = [] \<and> k \<in> set (key # keys) \<and> HasPrefix k pfx \<and> m (hashKey k) = None" for f k v
      unfolding c using IH True by auto
    moreover have "distinct (map fst seen) \<longrightarrow> distinct (map fst seen')"
      using IH distinct_delete[of seen key] by simp
    ultimately show ?thesis by blast
  qed
qed simp

text \<open>
  One subscription: it is told the difference between what it has seen and what the bucket
  holds of its prefix, and has then seen the bucket.
\<close>

definition difference ::
    "kv_subscription \<Rightarrow> (string \<rightharpoonup> string) \<Rightarrow> kv_call set" where
  "difference sub V =
     {(ks_fn sub, k, v) | k v. HasPrefix k (ks_prefix sub) \<and> V k = Some v \<and> map_of (ks_seen sub) k \<noteq> Some v}
   \<union> {(ks_fn sub, k, []) | k. HasPrefix k (ks_prefix sub) \<and> V k = None \<and> map_of (ks_seen sub) k \<noteq> None}"

lemma notify_sub_done:
  assumes "data_placed unmarshal data" and "distinct (map fst (ks_seen sub))"
    and "notify_sub unmarshal data sub = (calls, sub')"
  shows "set calls = difference sub (values_of unmarshal (map_of data))" and "distinct (map call_key calls)"
    and "map_of (ks_seen sub') k = (if HasPrefix k (ks_prefix sub) then values_of unmarshal (map_of data) k
      else map_of (ks_seen sub) k)" and "distinct (map fst (ks_seen sub'))"
    and "sub' = sub\<lparr>ks_seen := ks_seen sub'\<rparr>"
proof -
  let ?V = "values_of unmarshal (map_of data)" and ?pfx = "ks_prefix sub"
  obtain calls1 seen1 where a: "notify_items unmarshal ?pfx (ks_fn sub) (map snd data) (ks_seen sub) = (calls1, seen1)"
    by fastforce
  obtain calls2 seen2 where b: "notify_deleted (map_of data) ?pfx (ks_fn sub) (map fst seen1) seen1 = (calls2, seen2)"
    by fastforce
  from assms(3) a b have c: "calls = calls1 @ calls2" "sub' = sub\<lparr>ks_seen := seen2\<rparr>"
    by (simp_all add: notify_sub_def)
  note A = notify_items_done[OF assms(1,2) a] and abs = data_placed_absent[OF assms(1)]
  from A have d1: "distinct (map fst seen1)" by blast
  note B = notify_deleted_done[OF d1 b, unfolded abs]
  have dom: "k \<in> set (map fst seen1) \<longleftrightarrow> map_of seen1 k \<noteq> None" for k
    by (simp add: map_of_eq_None_iff)
  have s1: "map_of seen1 k = (if HasPrefix k ?pfx \<and> ?V k \<noteq> None then ?V k else map_of (ks_seen sub) k)" for k
    using A by blast
  have c1: "(f, k, v) \<in> set calls1 \<longleftrightarrow> f = ks_fn sub \<and> ?V k = Some v \<and> HasPrefix k ?pfx
      \<and> map_of (ks_seen sub) k \<noteq> Some v" for f k v using A by blast
  have c2: "(f, k, v) \<in> set calls2 \<longleftrightarrow> f = ks_fn sub \<and> v = [] \<and> HasPrefix k ?pfx \<and> ?V k = None
      \<and> map_of (ks_seen sub) k \<noteq> None" for f k v
    using B unfolding dom s1 by auto
  show "set calls = difference sub ?V"
    unfolding c difference_def set_append by (rule set_eqI) (use c1 c2 in auto)
  have "call_key ` set calls1 \<inter> call_key ` set calls2 = {}" using c1 c2 by fastforce
  with A B show "distinct (map call_key calls)" unfolding c by simp
  show "map_of (ks_seen sub') k = (if HasPrefix k ?pfx then ?V k else map_of (ks_seen sub) k)"
    using B unfolding dom s1 c by auto
  show "distinct (map fst (ks_seen sub'))" "sub' = sub\<lparr>ks_seen := ks_seen sub'\<rparr>" using B d1 c by auto
qed

text \<open>All subscriptions.\<close>

definition live_kv_subs :: "runtime \<Rightarrow> kv_subs \<Rightarrow> kv_subs" where
  "live_kv_subs rt subs = filter (\<lambda>(i, sub). \<not> ctx_done rt (ks_ctx sub)) subs"

lemma update_middle: "i \<notin> fst ` set xs \<Longrightarrow> AList.update i v (xs @ (i, w) # ys) = xs @ (i, v) # ys"
  by (induction xs) auto

lemma delete_middle:
  "distinct (map fst (xs @ (i, w) # ys)) \<Longrightarrow> AList.delete i (xs @ (i, w) # ys) = xs @ ys"
proof (induction xs)
  case Nil then show ?case by (simp add: delete_id)
qed auto

lemma notify_changed_done:
  "distinct (map fst (before @ ents)) \<Longrightarrow>
   notify_changed rt unmarshal data ents (before @ ents) =
     (concat (map (\<lambda>(i, sub). fst (notify_sub unmarshal data sub)) (live_kv_subs rt ents)),
      before @ map (\<lambda>(i, sub). (i, snd (notify_sub unmarshal data sub))) (live_kv_subs rt ents))"
proof (induction ents arbitrary: before)
  case (Cons e ents)
  obtain i sub where e: "e = (i, sub)" by (cases e)
  show ?case
  proof (cases "ctx_done rt (ks_ctx sub)")
    case True
    have "AList.delete i (before @ (i, sub) # ents) = before @ ents"
      using Cons.prems unfolding e by (rule delete_middle)
    with True Cons show ?thesis by (simp add: e live_kv_subs_def)
  next
    case False
    let ?sub' = "snd (notify_sub unmarshal data sub)"
    have "AList.update i ?sub' (before @ (i, sub) # ents) = before @ (i, ?sub') # ents"
      using Cons.prems by (intro update_middle) (simp add: e)
    moreover have "distinct (map fst ((before @ [(i, ?sub')]) @ ents))" using Cons.prems by (simp add: e)
    note Cons.IH[OF this]
    ultimately show ?thesis using False by (simp add: e live_kv_subs_def case_prod_unfold Let_def)
  qed
qed (simp add: live_kv_subs_def)

lemma notify_gone_done:
  "distinct (map fst (before @ ents)) \<Longrightarrow>
   notify_gone rt name ents (before @ ents) =
     (map (\<lambda>(i, sub). (ks_fn sub, name, []))
        (filter (\<lambda>(i, sub). HasPrefix (ToLower name) (ToLower (ks_prefix sub))) (live_kv_subs rt ents)),
      before @ live_kv_subs rt ents)"
proof (induction ents arbitrary: before)
  case (Cons e ents)
  obtain i sub where e: "e = (i, sub)" by (cases e)
  show ?case
  proof (cases "ctx_done rt (ks_ctx sub)")
    case True
    have "AList.delete i (before @ (i, sub) # ents) = before @ ents"
      using Cons.prems unfolding e by (rule delete_middle)
    with True Cons show ?thesis by (simp add: e live_kv_subs_def)
  next
    case False
    from Cons.IH[of "before @ [e]"] Cons.prems False show ?thesis
      by (simp add: e live_kv_subs_def case_prod_unfold Let_def)
  qed
qed (simp add: live_kv_subs_def)

subsection \<open>A reconcile\<close>

text \<open>The identifiers of the subscriptions are distinct, and so are the keys each has seen.\<close>

definition kv_subs_ok :: "kv_subs \<Rightarrow> bool" where
  "kv_subs_ok subs \<longleftrightarrow> distinct (map fst subs) \<and> (\<forall>(i, sub) \<in> set subs. distinct (map fst (ks_seen sub)))"

lemma Subscribe_ok:
  assumes "kv_subs_ok subs" and "Storage_Subscribe uuid c pfx fn subs rt = (r, subs', rt')"
  shows "kv_subs_ok subs'"
proof -
  let ?sub = "\<lparr>ks_prefix = pfx, ks_seen = [], ks_fn = fn, ks_ctx = Derived c (rt_next rt), ks_cancel = rt_next rt\<rparr>"
  have "subs' = AList.update uuid ?sub subs"
    using assms(2) by (simp add: Storage_Subscribe_def WithCancel_def)
  with assms(1) show ?thesis
    by (auto simp: kv_subs_ok_def distinct_update dest!: in_set_update)
qed

text \<open>What a subscription is after a reconcile of a bucket that holds the values \<open>V\<close>.\<close>

definition sub_after :: "kv_subscription \<Rightarrow> (string \<rightharpoonup> string) \<Rightarrow> kv_subscription \<Rightarrow> bool" where
  "sub_after sub V sub' \<longleftrightarrow> sub' = sub\<lparr>ks_seen := ks_seen sub'\<rparr> \<and> distinct (map fst (ks_seen sub'))
     \<and> (\<forall>k. map_of (ks_seen sub') k = (if HasPrefix k (ks_prefix sub) then V k else map_of (ks_seen sub) k))"

lemma difference_after [simp]: "sub_after sub V sub' \<Longrightarrow> difference sub' V = {}"
  unfolding sub_after_def difference_def by (cases sub; cases sub') auto

text \<open>The entries of a Secret's data, under the hash of their keys.\<close>

definition secret_placed :: "(string \<Rightarrow> goerr + data_item) \<Rightarrow> (string \<rightharpoonup> string) \<Rightarrow> bool" where
  "secret_placed unmarshal m \<longleftrightarrow>
     (\<forall>h d. m h = Some d \<longrightarrow> (\<exists>item. unmarshal d = Inr item \<and> h = hashKey (item_Key item)))"

lemma data_placed_secret:
  "distinct (map fst data) \<Longrightarrow> secret_placed unmarshal (map_of data) \<Longrightarrow> data_placed unmarshal data"
  unfolding data_placed_def secret_placed_def by auto

lemma notify_changed_all:
  assumes "kv_subs_ok subs" and "data_placed unmarshal data"
    and "notify_changed rt unmarshal data subs subs = (calls, subs')"
  shows "set calls = (\<Union>(i, sub) \<in> set (live_kv_subs rt subs). difference sub (values_of unmarshal (map_of data)))"
    and "list_all2 (\<lambda>(i, sub) (i', sub'). i' = i \<and> sub_after sub (values_of unmarshal (map_of data)) sub')
      (live_kv_subs rt subs) subs'"
proof -
  let ?V = "values_of unmarshal (map_of data)" and ?live = "live_kv_subs rt subs"
  have eq: "calls = concat (map (\<lambda>(i, sub). fst (notify_sub unmarshal data sub)) ?live)"
    "subs' = map (\<lambda>(i, sub). (i, snd (notify_sub unmarshal data sub))) ?live"
    using notify_changed_done[of "[]" subs rt unmarshal data] assms(1,3) by (simp_all add: kv_subs_ok_def)
  have one: "set (fst (notify_sub unmarshal data sub)) = difference sub ?V"
    "sub_after sub ?V (snd (notify_sub unmarshal data sub))" if "(i, sub) \<in> set ?live" for i sub
  proof -
    have d: "distinct (map fst (ks_seen sub))" using that assms(1) by (auto simp: live_kv_subs_def kv_subs_ok_def)
    note n = notify_sub_done[OF assms(2) d prod.collapse[symmetric]]
    from n(1) show "set (fst (notify_sub unmarshal data sub)) = difference sub ?V" .
    from n(3-5) show "sub_after sub ?V (snd (notify_sub unmarshal data sub))" unfolding sub_after_def by blast
  qed
  from one(1) show "set calls = (\<Union>(i, sub) \<in> set ?live. difference sub ?V)"
    unfolding eq by force
  from one(2) show "list_all2 (\<lambda>(i, sub) (i', sub'). i' = i \<and> sub_after sub ?V sub') ?live subs'"
    unfolding eq list_all2_map2 by (auto simp: list_all2_same case_prod_unfold)
qed

lemma live_kv_subs_after:
  assumes "list_all2 (\<lambda>(i, sub) (i', sub'). i' = i \<and> sub_after sub V sub') subs subs'"
  shows "live_kv_subs rt subs' = subs' \<longleftrightarrow> live_kv_subs rt subs = subs"
    and "kv_subs_ok subs \<Longrightarrow> kv_subs_ok subs'"
proof -
  have "length (live_kv_subs rt subs') = length (live_kv_subs rt subs) \<and> map fst subs' = map fst subs
      \<and> length subs' = length subs \<and> (\<forall>(i, sub') \<in> set subs'. distinct (map fst (ks_seen sub')))"
    using assms
  proof (induction rule: list_all2_induct)
    case (Cons x xs y ys)
    obtain i sub sub' where xy: "x = (i, sub)" "y = (i, sub')" "sub_after sub V sub'"
      using Cons(1) by (cases x; cases y) auto
    then have "ks_ctx sub' = ks_ctx sub" unfolding sub_after_def by (metis kv_subscription.ext_inject
          kv_subscription.surjective kv_subscription.update_convs(2))
    with Cons xy show ?case by (simp add: live_kv_subs_def sub_after_def)
  qed (simp add: live_kv_subs_def)
  moreover have "live_kv_subs rt xs = xs \<longleftrightarrow> length (live_kv_subs rt xs) = length xs" for xs
    unfolding live_kv_subs_def by (metis filter_id_conv length_filter_less linorder_neq_iff)
  ultimately show "live_kv_subs rt subs' = subs' \<longleftrightarrow> live_kv_subs rt subs = subs"
    and "kv_subs_ok subs \<Longrightarrow> kv_subs_ok subs'" unfolding kv_subs_ok_def by metis+
qed

lemma live_kv_subs_idem [simp]: "live_kv_subs rt (live_kv_subs rt subs) = live_kv_subs rt subs"
  by (simp add: live_kv_subs_def)

lemma kv_subs_ok_live: "kv_subs_ok subs \<Longrightarrow> kv_subs_ok (live_kv_subs rt subs)"
  by (auto simp: kv_subs_ok_def live_kv_subs_def distinct_map_filter)

context kube_server begin

lemma Reconcile_found:
  assumes "up s" and "st_cli st = cli" and "kv_subs_ok subs"
    and "view s (SecretT, req_Namespace req, req_Name req) = Some (l, SecretData m)"
    and "secret_placed (st_Unmarshal st) m"
  obtains calls subs' s' where "Provider_Reconcile rt st subs req s = (Inr (), calls, subs', s')"
    and "view s' = view s" and "up s'"
    and "set calls = (\<Union>(i, sub) \<in> set (live_kv_subs rt subs). difference sub (values_of (st_Unmarshal st) m))"
    and "list_all2 (\<lambda>(i, sub) (i', sub'). i' = i \<and> sub_after sub (values_of (st_Unmarshal st) m) sub')
      (live_kv_subs rt subs) subs'"
proof -
  obtain secret s' where g: "api_get cli SecretT (req_Namespace req) (req_Name req) s = (Inr secret, s')" "up s'"
    using up_get[OF assms(1,4)] by blast
  have "shown secret = (l, SecretData m)" and dd: "data_distinct (ko_payload secret)"
    using get_found[OF g(1)] assms(4) by auto
  then have m: "gvk_of (ko_payload secret) = SecretT" "map_of (as_secret (ko_payload secret)) = m"
    by (simp_all add: shown_def)
  then have "distinct (map fst (as_secret (ko_payload secret)))" using dd by (cases "ko_payload secret") auto
  then have p: "data_placed (st_Unmarshal st) (as_secret (ko_payload secret))"
    using assms(5) m(2) data_placed_secret by blast
  obtain calls subs' where n:
    "notify_changed rt (st_Unmarshal st) (as_secret (ko_payload secret)) subs subs = (calls, subs')" by fastforce
  with g assms(2) have "Provider_Reconcile rt st subs req s = (Inr (), calls, subs', s')"
    by (simp add: Provider_Reconcile_def)
  from that[OF this get_frame[OF g(1)] g(2)] notify_changed_all[OF assms(3) p n] show ?thesis
    unfolding m(2) by blast
qed

lemma Reconcile_gone:
  assumes "up s" and "st_cli st = cli" and "kv_subs_ok subs"
    and "view s (SecretT, req_Namespace req, req_Name req) = None"
  obtains s' where "Provider_Reconcile rt st subs req s =
      (Inr (), map (\<lambda>(i, sub). (ks_fn sub, req_Name req, []))
         (filter (\<lambda>(i, sub). HasPrefix (ToLower (req_Name req)) (ToLower (ks_prefix sub))) (live_kv_subs rt subs)),
       live_kv_subs rt subs, s')"
    and "view s' = view s" and "up s'"
proof -
  obtain e s' where g: "api_get cli SecretT (req_Namespace req) (req_Name req) s = (Inl e, s')" "is_not_found e" "up s'"
    using up_get_absent[OF assms(1,4)] by blast
  show ?thesis
    by (rule that[OF _ get_frame[OF g(1)] g(3)])
      (use assms(2,3) g notify_gone_done[of "[]" subs rt "req_Name req"] in
        \<open>simp add: Provider_Reconcile_def kv_subs_ok_def\<close>)
qed

end

text \<open>
  The values a bucket holds, by key, in terms of the content of the store; and what a
  reconcile of the bucket of a key tells whom.
\<close>

definition bucket_content ::
    "'s storage \<Rightarrow> ('s \<Rightarrow> objkey \<Rightarrow> stored option) \<Rightarrow> string \<Rightarrow> 's \<Rightarrow> string \<Rightarrow> (string \<rightharpoonup> string)" where
  "bucket_content st view ns s b k =
     (if bucketForKey k = b then map_option item_Value (kv_content st view ns s k) else None)"

definition bucket_request :: "string \<Rightarrow> string \<Rightarrow> request" where
  "bucket_request ns key = \<lparr>req_Namespace = ns, req_Name = bucketForKey key\<rparr>"

definition told :: "runtime \<Rightarrow> kv_subs \<Rightarrow> (string \<rightharpoonup> string) \<Rightarrow> kv_call set" where
  "told rt subs V = (\<Union>(i, sub) \<in> set (live_kv_subs rt subs). difference sub V)"

definition subs_after :: "runtime \<Rightarrow> kv_subs \<Rightarrow> (string \<rightharpoonup> string) \<Rightarrow> kv_subs \<Rightarrow> bool" where
  "subs_after rt subs V subs' \<longleftrightarrow>
     list_all2 (\<lambda>(i, sub) (i', sub'). i' = i \<and> sub_after sub V sub') (live_kv_subs rt subs) subs'"

lemma list_all2_left: "list_all2 P xs ys \<Longrightarrow> x \<in> set xs \<Longrightarrow> \<exists>y \<in> set ys. P x y"
  by (induction rule: list_all2_induct) auto

lemma list_all2_right: "list_all2 P xs ys \<Longrightarrow> y \<in> set ys \<Longrightarrow> \<exists>x \<in> set xs. P x y"
  by (induction rule: list_all2_induct) auto

lemma subs_after_ok: "subs_after rt subs V subs' \<Longrightarrow> kv_subs_ok subs \<Longrightarrow> kv_subs_ok subs'"
  unfolding subs_after_def using live_kv_subs_after(2) kv_subs_ok_live by blast

lemma subs_after_live: "subs_after rt subs V subs' \<Longrightarrow> live_kv_subs rt subs' = subs'"
  unfolding subs_after_def by (simp add: live_kv_subs_after(1))

lemma subs_after_told: "subs_after rt subs V subs' \<Longrightarrow> told rt subs' V = {}"
  using subs_after_live[of rt subs V subs'] unfolding told_def subs_after_def
  by (fastforce dest: list_all2_right)

text \<open>A live subscription is still there afterwards, with what it was told as seen.\<close>

lemma subs_after_sub:
  assumes "subs_after rt subs V subs'" and "(i, sub) \<in> set subs" and "\<not> ctx_done rt (ks_ctx sub)"
  obtains sub' where "(i, sub') \<in> set subs'" and "sub_after sub V sub'" and "ks_ctx sub' = ks_ctx sub"
    and "ks_fn sub' = ks_fn sub" and "ks_prefix sub' = ks_prefix sub"
proof -
  have "(i, sub) \<in> set (live_kv_subs rt subs)" using assms(2,3) by (simp add: live_kv_subs_def)
  then obtain sub' where s: "(i, sub') \<in> set subs'" "sub_after sub V sub'"
    using assms(1) unfolding subs_after_def by (fastforce dest: list_all2_left)
  from s(2) have "sub' = sub\<lparr>ks_seen := ks_seen sub'\<rparr>" by (simp add: sub_after_def)
  then have "ks_ctx sub' = ks_ctx sub" "ks_fn sub' = ks_fn sub" "ks_prefix sub' = ks_prefix sub"
    by (cases sub; cases sub'; simp)+
  with s that show ?thesis by blast
qed

context kv_store begin

lemma bucket_values:
  assumes "kv_inv st K view ns s" and "key \<in> K"
    and "view s (SecretT, ns, bucketForKey key) = Some (l, c)"
  obtains m where "c = SecretData m" and "secret_placed (st_Unmarshal st) m"
    and "values_of (st_Unmarshal st) m = bucket_content st view ns s (bucketForKey key)"
proof -
  let ?b = "bucketForKey key"
  have "bucket_ok st K ?b (l, c)" using assms unfolding kv_inv_def by blast
  then obtain m where m: "c = SecretData m" "\<forall>h d. m h = Some d \<longrightarrow> entry_placed st K ?b h d"
    by (auto simp: bucket_ok_def)
  have b: "bucket_data view ns s ?b = m" using assms(3) m(1) by (simp add: bucket_data_def)
  have "values_of (st_Unmarshal st) m k = bucket_content st view ns s ?b k" for k
  proof (cases "bucketForKey k = ?b")
    case True
    then show ?thesis using b
      by (auto simp: values_of_def bucket_content_def kv_content_def kv_raw_def split: option.splits sum.splits)
  next
    case False
    have "m (hashKey k) = None"
    proof (rule ccontr)
      assume "m (hashKey k) \<noteq> None"
      with m(2) obtain d where "entry_placed st K ?b (hashKey k) d" by blast
      with False show False by (auto simp: entry_placed_def)
    qed
    with False show ?thesis by (simp add: values_of_def bucket_content_def)
  qed
  then have "values_of (st_Unmarshal st) m = bucket_content st view ns s ?b" ..
  moreover have "secret_placed (st_Unmarshal st) m"
    using m(2) unfolding secret_placed_def entry_placed_def by blast
  ultimately show ?thesis using that m(1) by blast
qed

end

context kv_server begin

lemma Reconcile_bucket:
  assumes "up s" and "kv_inv st K view ns s" and "key \<in> K"
    and "view s (SecretT, ns, bucketForKey key) \<noteq> None" and "kv_subs_ok subs"
  obtains calls subs' s' where "Provider_Reconcile rt st subs (bucket_request ns key) s = (Inr (), calls, subs', s')"
    and "view s' = view s" and "up s'"
    and "set calls = told rt subs (bucket_content st view ns s (bucketForKey key))"
    and "subs_after rt subs (bucket_content st view ns s (bucketForKey key)) subs'"
proof -
  obtain l c where v: "view s (SecretT, ns, bucketForKey key) = Some (l, c)" using assms(4) by auto
  obtain m where m: "c = SecretData m" "secret_placed (st_Unmarshal st) m"
    "values_of (st_Unmarshal st) m = bucket_content st view ns s (bucketForKey key)"
    by (rule bucket_values[OF assms(2,3) v])
  let ?req = "bucket_request ns key"
  have "view s (SecretT, req_Namespace ?req, req_Name ?req) = Some (l, SecretData m)"
    using v m(1) by (simp add: bucket_request_def)
  from Reconcile_found[OF assms(1) st_cli assms(5) this m(2), of rt, unfolded m(3)] that
  show ?thesis unfolding told_def subs_after_def by blast
qed

text \<open>A second reconcile of the same bucket has nothing to tell.\<close>

lemma Reconcile_again:
  assumes "up s" and "kv_inv st K view ns s" and "key \<in> K"
    and "view s (SecretT, ns, bucketForKey key) \<noteq> None" and "kv_subs_ok subs"
  obtains calls subs' s' subs'' s'' where
    "Provider_Reconcile rt st subs (bucket_request ns key) s = (Inr (), calls, subs', s')"
    and "view s' = view s" and "up s'"
    and "set calls = told rt subs (bucket_content st view ns s (bucketForKey key))"
    and "subs_after rt subs (bucket_content st view ns s (bucketForKey key)) subs'"
    and "Provider_Reconcile rt st subs' (bucket_request ns key) s' = (Inr (), [], subs'', s'')"
proof -
  obtain calls subs' s' where r: "Provider_Reconcile rt st subs (bucket_request ns key) s = (Inr (), calls, subs', s')"
    "view s' = view s" "up s'" "set calls = told rt subs (bucket_content st view ns s (bucketForKey key))"
    "subs_after rt subs (bucket_content st view ns s (bucketForKey key)) subs'"
    by (rule Reconcile_bucket[OF assms])
  have c: "bucket_content st view ns s' = bucket_content st view ns s"
    using content_cong[OF r(2)] by (simp add: bucket_content_def fun_eq_iff)
  have i: "kv_inv st K view ns s'" by (rule kv_inv_cong[OF assms(2) r(2)])
  have v: "view s' (SecretT, ns, bucketForKey key) \<noteq> None" using assms(4) by (simp only: r(2) not_False_eq_True)
  obtain calls2 subs'' s'' where
    r2: "Provider_Reconcile rt st subs' (bucket_request ns key) s' = (Inr (), calls2, subs'', s'')"
    "set calls2 = told rt subs' (bucket_content st view ns s' (bucketForKey key))"
    by (rule Reconcile_bucket[OF r(3) i assms(3) v subs_after_ok[OF r(5) assms(5)]])
  have "calls2 = []" using r2(2) subs_after_told[OF r(5)] unfolding c by simp
  with r r2(1) that show ?thesis by blast
qed

end

text \<open>A put on the leader, and a reconcile of its bucket on any node.\<close>

context kv_live begin

lemma put_bucket_present:
  assumes "PutValue st key val ttl s = (Inr (), s')"
  shows "view s' (SecretT, ns, bucketForKey key) \<noteq> None"
  using PutValue_relabels[OF assms] by auto

lemma PutValue_reconciled:
  assumes "up s" and "kv_inv st K view ns s" and "key \<in> K" and "st_IsValidPathID st key"
    and "bucket_admitted s key" and "kv_subs_ok subs"
  obtains item s1 calls subs' s2 subs'' s3 where "put_item st key val ttl item"
    and "PutValue st key val ttl s = (Inr (), s1)"
    and "content s2 = (content s)(key \<mapsto> item)" and "kv_inv st K view ns s1" and "kv_inv st K view ns s2"
    and "Provider_Reconcile rt st subs (bucket_request ns key) s1 = (Inr (), calls, subs', s2)"
    and "view s2 = view s1" and "up s2"
    and "set calls = told rt subs (bucket_content st view ns s2 (bucketForKey key))"
    and "subs_after rt subs (bucket_content st view ns s2 (bucketForKey key)) subs'"
    and "Provider_Reconcile rt st subs' (bucket_request ns key) s2 = (Inr (), [], subs'', s3)"
proof -
  obtain s1 where p: "PutValue st key val ttl s = (Inr (), s1)" "up s1"
    using PutValue_live[OF assms(1,4,5)] by blast
  obtain item where i: "put_item st key val ttl item" "content s1 = (content s)(key \<mapsto> item)"
    using PutValue_content(1)[OF p(1) refl] by blast
  have inv: "kv_inv st K view ns s1"
    using kv_step_inv[OF assms(2), of "KvPut key val ttl" "Inr ()" s1] p(1) assms(3) by simp
  obtain calls subs' s2 subs'' s3 where
    r: "Provider_Reconcile rt st subs (bucket_request ns key) s1 = (Inr (), calls, subs', s2)"
      "view s2 = view s1" "up s2" "set calls = told rt subs (bucket_content st view ns s1 (bucketForKey key))"
      "subs_after rt subs (bucket_content st view ns s1 (bucketForKey key)) subs'"
      "Provider_Reconcile rt st subs' (bucket_request ns key) s2 = (Inr (), [], subs'', s3)"
    by (rule Reconcile_again[OF p(2) inv assms(3) put_bucket_present[OF p(1)] assms(6)])
  have c: "content s2 = content s1" by (rule content_cong[OF r(2)])
  then have "bucket_content st view ns s2 = bucket_content st view ns s1"
    by (simp add: bucket_content_def fun_eq_iff)
  with r that[OF i(1) p(1) _ inv kv_inv_cong[OF inv r(2)]] i(2) c show ?thesis by simp
qed

end

end
