(* ===== verification/Rbac.thy ===== *)
theory Rbac
  imports MemApi
begin

text \<open>
  \<open>provider/database/rbac.go\<close>: the switch that turns RBAC on, kept in a ConfigMap; roles, role
  bindings and groups, kept as one custom object per name; and the roles bound to a node or a
  user. \<open>types.RoleBinding.ContainsNodeID\<close> and \<open>ContainsUserID\<close> belong to webmesh and are
  parameters of the two listings.
\<close>

record 's rbac =
  rbac_cli :: "'s client"
  rbac_namespace :: string

definition NewRBAC :: "'s client \<Rightarrow> string \<Rightarrow> 's rbac" where
  "NewRBAC cli namespace = \<lparr>rbac_cli = cli, rbac_namespace = namespace\<rparr>"

definition RBACEnabledConfigMap :: string where
  "RBACEnabledConfigMap = ''webmesh-rbac-enabled''"

definition ConfigMapTypeMeta :: type_meta where
  "ConfigMapTypeMeta = \<lparr>tm_apiVersion = ''v1'', tm_kind = ''ConfigMap''\<rparr>"

subsection \<open>The switch\<close>

text \<open>
  A nil \<open>Data\<close> is the empty map: reading a missing key gives the empty string, and the code
  allocates the map before it writes to it.
\<close>

definition SetEnabled :: "'s rbac \<Rightarrow> bool \<Rightarrow> ('s, unit) act" where
  "SetEnabled r enabled s =
     (case api_get (rbac_cli r) ConfigMapT (rbac_namespace r) RBACEnabledConfigMap s of
        (Inl err, s') \<Rightarrow>
          (if IgnoreNotFound err \<noteq> None then (Inl err, s')
           else let cm = \<lparr>ko_type = ConfigMapTypeMeta,
                          ko_meta = zero_object_meta\<lparr>om_namespace := rbac_namespace r,
                                                     om_name := RBACEnabledConfigMap\<rparr>,
                          ko_payload = PConfigMap (Map.empty(''enabled'' \<mapsto> sprintf_bool enabled))\<rparr>
                in PatchObject (rbac_cli r) cm s')
      | (Inr cm, s') \<Rightarrow>
          (let cm' = cm\<lparr>ko_type := ConfigMapTypeMeta,
                        ko_payload := PConfigMap ((as_config_map (ko_payload cm))
                                                   (''enabled'' \<mapsto> sprintf_bool enabled))\<rparr>
           in PatchObject (rbac_cli r) cm' s'))"

definition GetEnabled :: "'s rbac \<Rightarrow> ('s, bool) act" where
  "GetEnabled r s =
     (case api_get (rbac_cli r) ConfigMapT (rbac_namespace r) RBACEnabledConfigMap s of
        (Inl err, s') \<Rightarrow> (if IgnoreNotFound err = None then (Inr True, s') else (Inl err, s'))
      | (Inr cm, s') \<Rightarrow>
          (case as_config_map (ko_payload cm) ''enabled'' of
             None \<Rightarrow> (Inr True, s')
           | Some v \<Rightarrow> if v = [] then (Inr True, s') else (ParseBool v, s')))"

subsection \<open>Roles\<close>

definition role_object :: "string \<Rightarrow> role \<Rightarrow> kobject" where
  "role_object namespace role =
     \<lparr>ko_type = RoleTypeMeta,
      ko_meta = zero_object_meta\<lparr>om_namespace := namespace, om_name := role_name role\<rparr>,
      ko_payload = PRole role\<rparr>"

definition PutRole :: "'s rbac \<Rightarrow> role \<Rightarrow> ('s, unit) act" where
  "PutRole r role = PatchObject (rbac_cli r) (role_object (rbac_namespace r) role)"

definition GetRole :: "'s rbac \<Rightarrow> string \<Rightarrow> ('s, role) act" where
  "GetRole r name s =
     (case api_get (rbac_cli r) RoleT (rbac_namespace r) name s of
        (Inl err, s') \<Rightarrow>
          (if IgnoreNotFound err \<noteq> None then (Inl (Wrap ''get role'' err), s')
           else (Inl ErrRoleNotFound, s'))
      | (Inr obj, s') \<Rightarrow> (Inr (as_role (ko_payload obj)), s'))"

definition DeleteRole :: "'s rbac \<Rightarrow> string \<Rightarrow> ('s, unit) act" where
  "DeleteRole r name =
     ignoring_not_found (api_delete (rbac_cli r)
       \<lparr>ko_type = RoleTypeMeta,
        ko_meta = zero_object_meta\<lparr>om_namespace := rbac_namespace r, om_name := name\<rparr>,
        ko_payload = PRole zero_role\<rparr>)"

definition ListRoles :: "'s rbac \<Rightarrow> ('s, role list) act" where
  "ListRoles r s =
     (case api_list (rbac_cli r) RoleT (rbac_namespace r) [] s of
        (Inl err, s') \<Rightarrow>
          (if IgnoreNotFound err \<noteq> None then (Inl (Wrap ''list roles'' err), s')
           else (Inr [], s'))
      | (Inr objs, s') \<Rightarrow> (Inr (map (\<lambda>obj. as_role (ko_payload obj)) objs), s'))"

subsection \<open>Role bindings\<close>

definition role_binding_object :: "string \<Rightarrow> role_binding \<Rightarrow> kobject" where
  "role_binding_object namespace rolebinding =
     \<lparr>ko_type = RoleBindingTypeMeta,
      ko_meta = zero_object_meta\<lparr>om_namespace := namespace, om_name := rb_name rolebinding\<rparr>,
      ko_payload = PRoleBinding rolebinding\<rparr>"

definition PutRoleBinding :: "'s rbac \<Rightarrow> role_binding \<Rightarrow> ('s, unit) act" where
  "PutRoleBinding r rolebinding = PatchObject (rbac_cli r) (role_binding_object (rbac_namespace r) rolebinding)"

definition GetRoleBinding :: "'s rbac \<Rightarrow> string \<Rightarrow> ('s, role_binding) act" where
  "GetRoleBinding r name s =
     (case api_get (rbac_cli r) RoleBindingT (rbac_namespace r) name s of
        (Inl err, s') \<Rightarrow>
          (if IgnoreNotFound err \<noteq> None then (Inl (Wrap ''get rolebinding'' err), s')
           else (Inl ErrRoleBindingNotFound, s'))
      | (Inr obj, s') \<Rightarrow> (Inr (as_role_binding (ko_payload obj)), s'))"

definition DeleteRoleBinding :: "'s rbac \<Rightarrow> string \<Rightarrow> ('s, unit) act" where
  "DeleteRoleBinding r name =
     ignoring_not_found (api_delete (rbac_cli r)
       \<lparr>ko_type = RoleBindingTypeMeta,
        ko_meta = zero_object_meta\<lparr>om_namespace := rbac_namespace r, om_name := name\<rparr>,
        ko_payload = PRoleBinding zero_role_binding\<rparr>)"

definition ListRoleBindings :: "'s rbac \<Rightarrow> ('s, role_binding list) act" where
  "ListRoleBindings r s =
     (case api_list (rbac_cli r) RoleBindingT (rbac_namespace r) [] s of
        (Inl err, s') \<Rightarrow>
          (if IgnoreNotFound err \<noteq> None then (Inl (Wrap ''list rolebindings'' err), s')
           else (Inr [], s'))
      | (Inr objs, s') \<Rightarrow> (Inr (map (\<lambda>obj. as_role_binding (ko_payload obj)) objs), s'))"

subsection \<open>Groups\<close>

definition group_object :: "string \<Rightarrow> group \<Rightarrow> kobject" where
  "group_object namespace grp =
     \<lparr>ko_type = GroupTypeMeta,
      ko_meta = zero_object_meta\<lparr>om_namespace := namespace, om_name := group_name grp\<rparr>,
      ko_payload = PGroup grp\<rparr>"

definition PutGroup :: "'s rbac \<Rightarrow> group \<Rightarrow> ('s, unit) act" where
  "PutGroup r grp = PatchObject (rbac_cli r) (group_object (rbac_namespace r) grp)"

definition GetGroup :: "'s rbac \<Rightarrow> string \<Rightarrow> ('s, group) act" where
  "GetGroup r name s =
     (case api_get (rbac_cli r) GroupT (rbac_namespace r) name s of
        (Inl err, s') \<Rightarrow>
          (if IgnoreNotFound err \<noteq> None then (Inl (Wrap ''get group'' err), s')
           else (Inl ErrGroupNotFound, s'))
      | (Inr obj, s') \<Rightarrow> (Inr (as_group (ko_payload obj)), s'))"

definition DeleteGroup :: "'s rbac \<Rightarrow> string \<Rightarrow> ('s, unit) act" where
  "DeleteGroup r name =
     ignoring_not_found (api_delete (rbac_cli r)
       \<lparr>ko_type = GroupTypeMeta,
        ko_meta = zero_object_meta\<lparr>om_namespace := rbac_namespace r, om_name := name\<rparr>,
        ko_payload = PGroup zero_group\<rparr>)"

definition ListGroups :: "'s rbac \<Rightarrow> ('s, group list) act" where
  "ListGroups r s =
     (case api_list (rbac_cli r) GroupT (rbac_namespace r) [] s of
        (Inl err, s') \<Rightarrow>
          (if IgnoreNotFound err \<noteq> None then (Inl (Wrap ''list groups'' err), s')
           else (Inr [], s'))
      | (Inr objs, s') \<Rightarrow> (Inr (map (\<lambda>obj. as_group (ko_payload obj)) objs), s'))"

subsection \<open>The roles of a node and of a user\<close>

text \<open>
  The loop over the bindings: \<open>contains\<close> is the test of the binding, \<open>out\<close> the roles found
  so far. A missing role that the client reports is skipped, any other error ends the loop.
\<close>

fun collect_roles :: "'s rbac \<Rightarrow> (role_binding \<Rightarrow> bool) \<Rightarrow> role_binding list \<Rightarrow> role list \<Rightarrow> ('s, role list) act" where
  "collect_roles r contains [] out s = (Inr out, s)"
| "collect_roles r contains (rb # rbs) out s =
     (if contains rb then
        (case GetRole r (rb_role rb) s of
           (Inl err, s') \<Rightarrow>
             (if IgnoreNotFound err = None then collect_roles r contains rbs out s'
              else (Inl err, s'))
         | (Inr role, s') \<Rightarrow> collect_roles r contains rbs (out @ [role]) s')
      else collect_roles r contains rbs out s)"

definition ListNodeRoles ::
    "(role_binding \<Rightarrow> string \<Rightarrow> bool) \<Rightarrow> 's rbac \<Rightarrow> string \<Rightarrow> ('s, role list) act" where
  "ListNodeRoles ContainsNodeID r nodeID s =
     (case ListRoleBindings r s of
        (Inl err, s') \<Rightarrow> (Inl err, s')
      | (Inr rbs, s') \<Rightarrow> collect_roles r (\<lambda>rb. ContainsNodeID rb nodeID) rbs [] s')"

definition ListUserRoles ::
    "(role_binding \<Rightarrow> string \<Rightarrow> bool) \<Rightarrow> 's rbac \<Rightarrow> string \<Rightarrow> ('s, role list) act" where
  "ListUserRoles ContainsUserID r userID s =
     (case ListRoleBindings r s of
        (Inl err, s') \<Rightarrow> (Inl err, s')
      | (Inr rbs, s') \<Rightarrow> collect_roles r (\<lambda>rb. ContainsUserID rb userID) rbs [] s')"

subsection \<open>The collections keep their contract\<close>

text \<open>What the namespace holds of each collection.\<close>

definition role_content :: "('s \<Rightarrow> objkey \<Rightarrow> stored option) \<Rightarrow> string \<Rightarrow> 's \<Rightarrow> string \<Rightarrow> role option" where
  "role_content = named_content as_role RoleT"

definition role_binding_content ::
    "('s \<Rightarrow> objkey \<Rightarrow> stored option) \<Rightarrow> string \<Rightarrow> 's \<Rightarrow> string \<Rightarrow> role_binding option" where
  "role_binding_content = named_content as_role_binding RoleBindingT"

definition group_content :: "('s \<Rightarrow> objkey \<Rightarrow> stored option) \<Rightarrow> string \<Rightarrow> 's \<Rightarrow> string \<Rightarrow> group option" where
  "group_content = named_content as_group GroupT"

lemmas rbac_defs = NewRBAC_def PutRole_def GetRole_def DeleteRole_def ListRoles_def
  PutRoleBinding_def GetRoleBinding_def DeleteRoleBinding_def ListRoleBindings_def
  PutGroup_def GetGroup_def DeleteGroup_def ListGroups_def
  role_content_def role_binding_content_def group_content_def

lemma NewRBAC_simps [simp]:
  "rbac_cli (NewRBAC cli ns) = cli" "rbac_namespace (NewRBAC cli ns) = ns"
  by (simp_all add: NewRBAC_def)

lemmas rbac_shapes = rbac_defs role_object_def role_binding_object_def group_object_def
  IgnoreNotFound_def

sublocale kube_ns \<subseteq> roles: named_store "PutRole (NewRBAC cli ns)" "GetRole (NewRBAC cli ns)"
  "DeleteRole (NewRBAC cli ns)" "ListRoles (NewRBAC cli ns)" role_name "role_content view ns" ErrRoleNotFound
  unfolding role_content_def
  by (rule named_storeI) (auto simp: rbac_shapes fun_eq_iff split: prod.split sum.split)

sublocale kube_ns \<subseteq> role_bindings: named_store "PutRoleBinding (NewRBAC cli ns)"
  "GetRoleBinding (NewRBAC cli ns)" "DeleteRoleBinding (NewRBAC cli ns)"
  "ListRoleBindings (NewRBAC cli ns)" rb_name "role_binding_content view ns" ErrRoleBindingNotFound
  unfolding role_binding_content_def
  by (rule named_storeI) (auto simp: rbac_shapes fun_eq_iff split: prod.split sum.split)

sublocale kube_ns \<subseteq> groups: named_store "PutGroup (NewRBAC cli ns)" "GetGroup (NewRBAC cli ns)"
  "DeleteGroup (NewRBAC cli ns)" "ListGroups (NewRBAC cli ns)" group_name "group_content view ns" ErrGroupNotFound
  unfolding group_content_def
  by (rule named_storeI) (auto simp: rbac_shapes fun_eq_iff split: prod.split sum.split)

sublocale kube_ns_server \<subseteq> live_roles: live_store "PutRole (NewRBAC cli ns)" "GetRole (NewRBAC cli ns)"
  "DeleteRole (NewRBAC cli ns)" "ListRoles (NewRBAC cli ns)" role_name "role_content view ns" ErrRoleNotFound
  up "\<lambda>v. admissible (StripPatchMeta (role_object ns v))"
  using roles.named_store_axioms unfolding role_content_def
  by (rule live_storeI[where t = RoleT]) (auto simp: rbac_shapes fun_eq_iff split: prod.split sum.split)

sublocale kube_ns_server \<subseteq> live_role_bindings: live_store "PutRoleBinding (NewRBAC cli ns)"
  "GetRoleBinding (NewRBAC cli ns)" "DeleteRoleBinding (NewRBAC cli ns)"
  "ListRoleBindings (NewRBAC cli ns)" rb_name "role_binding_content view ns" ErrRoleBindingNotFound
  up "\<lambda>v. admissible (StripPatchMeta (role_binding_object ns v))"
  using role_bindings.named_store_axioms unfolding role_binding_content_def
  by (rule live_storeI[where t = RoleBindingT]) (auto simp: rbac_shapes fun_eq_iff split: prod.split sum.split)

sublocale kube_ns_server \<subseteq> live_groups: live_store "PutGroup (NewRBAC cli ns)" "GetGroup (NewRBAC cli ns)"
  "DeleteGroup (NewRBAC cli ns)" "ListGroups (NewRBAC cli ns)" group_name "group_content view ns" ErrGroupNotFound
  up "\<lambda>v. admissible (StripPatchMeta (group_object ns v))"
  using groups.named_store_axioms unfolding group_content_def
  by (rule live_storeI[where t = GroupT]) (auto simp: rbac_shapes fun_eq_iff split: prod.split sum.split)

subsection \<open>The switch reads back\<close>

context kube_ns begin

lemma SetEnabled_done:
  assumes "SetEnabled (NewRBAC cli ns) b s = (Inr u, s')"
  obtains d where "view s' (ConfigMapT, ns, RBACEnabledConfigMap)
      = Some (fst (the (view s' (ConfigMapT, ns, RBACEnabledConfigMap))), Plain (PConfigMap d))"
    and "d ''enabled'' = Some (sprintf_bool b)"
proof -
  obtain obj s1 d where obj: "PatchObject cli obj s1 = (Inr u, s')"
      "key_of obj = (ConfigMapT, ns, RBACEnabledConfigMap)"
      "ko_payload obj = PConfigMap d" "d ''enabled'' = Some (sprintf_bool b)"
  proof (cases "api_get cli ConfigMapT ns RBACEnabledConfigMap s")
    case (Pair r s1)
    show ?thesis
    proof (cases r)
      case (Inl e)
      with assms Pair that show ?thesis
        by (auto simp: SetEnabled_def Let_def split: if_splits)
    next
      case (Inr cm)
      with assms Pair get_found[of ConfigMapT ns RBACEnabledConfigMap s cm s1] that show ?thesis
        by (auto simp: SetEnabled_def Let_def key_of_def)
    qed
  qed
  then have "view s' (ConfigMapT, ns, RBACEnabledConfigMap) = Some (shown obj)"
    using PatchObject_done[OF obj(1)] by simp
  with obj that show ?thesis by (simp add: shown_def)
qed

lemma GetEnabled_reads:
  assumes "view s (ConfigMapT, ns, RBACEnabledConfigMap) = Some (l, Plain (PConfigMap d))"
    and "d ''enabled'' = Some (sprintf_bool b)"
    and "GetEnabled (NewRBAC cli ns) s = (Inr b', s')"
  shows "b' = b"
proof -
  from assms(1,3) obtain obj where obj: "api_get cli ConfigMapT ns RBACEnabledConfigMap s = (Inr obj, s')"
    using get_absent by (auto simp: GetEnabled_def split: prod.splits sum.splits option.splits if_splits)
  with get_found[OF obj] assms(1) have "as_config_map (ko_payload obj) = d"
    by (auto simp: shown_def)
  with obj assms(2,3) show ?thesis
    by (auto simp: GetEnabled_def sprintf_bool_def ParseBool_def split: if_splits)
qed

end

context kube_ns_server begin

lemma SetEnabled_up:
  assumes "up s"
    and "\<And>obj. key_of obj = (ConfigMapT, ns, RBACEnabledConfigMap) \<Longrightarrow>
          ko_type obj = ConfigMapTypeMeta \<Longrightarrow> admissible obj"
  obtains s' where "SetEnabled (NewRBAC cli ns) b s = (Inr (), s')" and "up s'"
proof (cases rule: get_live[OF assms(1), of ConfigMapT RBACEnabledConfigMap as_config_map])
  case (2 obj s1)
  let ?cm = "obj\<lparr>ko_type := ConfigMapTypeMeta, ko_payload := PConfigMap
      ((as_config_map (ko_payload obj))(''enabled'' \<mapsto> sprintf_bool b))\<rparr>"
  have "key_of ?cm = (ConfigMapT, ns, RBACEnabledConfigMap)"
    using get_found[OF 2(1)] by (simp add: key_of_def)
  then obtain s' where "PatchObject cli ?cm s1 = (Inr (), s')" "up s'"
    using PatchObject_up[OF 2(2), of ?cm] assms(2)[of "StripPatchMeta ?cm"] by auto
  with 2 that show ?thesis by (simp add: SetEnabled_def)
next
  case (3 e s1)
  let ?cm = "\<lparr>ko_type = ConfigMapTypeMeta, ko_meta = zero_object_meta\<lparr>om_namespace := ns,
      om_name := RBACEnabledConfigMap\<rparr>,
      ko_payload = PConfigMap (Map.empty(''enabled'' \<mapsto> sprintf_bool b))\<rparr>"
  obtain s' where "PatchObject cli ?cm s1 = (Inr (), s')" "up s'"
    using PatchObject_up[OF 3(3), of ?cm] assms(2)[of "StripPatchMeta ?cm"] by auto
  with 3 that show ?thesis by (simp add: SetEnabled_def)
qed simp

lemma GetEnabled_up:
  assumes "up s" and "view s (ConfigMapT, ns, RBACEnabledConfigMap) = Some (l, Plain (PConfigMap d))"
    and "d ''enabled'' = Some (sprintf_bool b)"
  obtains s' where "GetEnabled (NewRBAC cli ns) s = (Inr b, s')" and "up s'"
proof -
  obtain obj s' where obj: "api_get cli ConfigMapT ns RBACEnabledConfigMap s = (Inr obj, s')" "up s'"
    using up_get[OF assms(1,2)] by blast
  with get_found[OF obj(1)] assms(2) have "as_config_map (ko_payload obj) = d"
    by (auto simp: shown_def)
  with obj assms(3) have "GetEnabled (NewRBAC cli ns) s = (Inr b, s')"
    by (auto simp: GetEnabled_def sprintf_bool_def ParseBool_def)
  with obj(2) that show ?thesis by blast
qed

end

subsection \<open>The roles bound to a node or a user\<close>

text \<open>No error of \<open>GetRole\<close> is one that \<open>IgnoreNotFound\<close> ignores.\<close>

lemma GetRole_never_not_found: "GetRole r n s = (Inl e, s') \<Longrightarrow> \<not> is_not_found e"
  by (auto simp: GetRole_def split: prod.splits sum.splits if_splits)

context kube_ns begin

lemma collect_roles_done:
  "collect_roles (NewRBAC cli ns) contains rbs out s = (Inr res, s') \<Longrightarrow>
     (\<forall>rb \<in> set rbs. contains rb \<longrightarrow> role_content view ns s (rb_role rb) \<noteq> None) \<and>
     res = out @ map (\<lambda>rb. the (role_content view ns s (rb_role rb))) (filter contains rbs)"
proof (induction rbs arbitrary: out s)
  case (Cons rb rbs)
  show ?case
  proof (cases "contains rb")
    case True
    with Cons.prems obtain role s1 where role: "GetRole (NewRBAC cli ns) (rb_role rb) s = (Inr role, s1)"
      "collect_roles (NewRBAC cli ns) contains rbs (out @ [role]) s1 = (Inr res, s')"
      by (auto split: prod.splits sum.splits if_splits dest: GetRole_never_not_found)
    have "role_content view ns s1 = role_content view ns s"
      by (rule roles.get_keeps[OF role(1)])
    with Cons.IH[OF role(2)] roles.get_value[OF role(1)] True show ?thesis by simp
  next
    case False
    with Cons show ?thesis by simp
  qed
qed simp

lemma ListRoleBindings_view:
  "ListRoleBindings (NewRBAC cli ns) s = (r, s1) \<Longrightarrow> view s1 = view s"
  by (auto simp: ListRoleBindings_def split: prod.splits sum.splits if_splits dest: list_frame)

lemma ListRoleBindings_roles:
  "ListRoleBindings (NewRBAC cli ns) s = (r, s1) \<Longrightarrow> role_content view ns s1 = role_content view ns s"
  unfolding role_content_def by (rule named_content_cong) (rule ListRoleBindings_view)

lemma bound_roles_done:
  assumes "ListRoleBindings (NewRBAC cli ns) s = (Inr rbs, s1)"
    and "collect_roles (NewRBAC cli ns) contains rbs [] s1 = (Inr res, s')"
  shows "set rbs = ran (role_binding_content view ns s)"
    and "\<forall>rb \<in> set rbs. contains rb \<longrightarrow> role_content view ns s (rb_role rb) \<noteq> None"
    and "res = map (\<lambda>rb. the (role_content view ns s (rb_role rb))) (filter contains rbs)"
  using role_bindings.lst_values[OF assms(1)] ListRoleBindings_roles[OF assms(1)]
    collect_roles_done[OF assms(2)] by auto

end

context kube_ns_server begin

lemma collect_roles_dangling:
  "up s \<Longrightarrow> \<exists>rb \<in> set rbs. contains rb \<and> role_content view ns s (rb_role rb) = None \<Longrightarrow>
     \<exists>s'. collect_roles (NewRBAC cli ns) contains rbs out s = (Inl ErrRoleNotFound, s')"
proof (induction rbs arbitrary: out s)
  case (Cons rb rbs)
  obtain s1 where s1: "up s1" "GetRole (NewRBAC cli ns) (rb_role rb) s =
      (case role_content view ns s (rb_role rb) of Some v \<Rightarrow> (Inr v, s1) | None \<Rightarrow> (Inl ErrRoleNotFound, s1))"
    using live_roles.up_get[OF Cons.prems(1)] by blast
  show ?case
  proof (cases "contains rb \<and> role_content view ns s (rb_role rb) = None")
    case True
    with s1(2) show ?thesis by simp
  next
    case False
    show ?thesis
    proof (cases "contains rb")
      case True
      with False s1(2) obtain role where role: "GetRole (NewRBAC cli ns) (rb_role rb) s = (Inr role, s1)"
        by auto
      have "role_content view ns s1 = role_content view ns s" by (rule roles.get_keeps[OF role])
      with Cons.IH[OF s1(1), of "out @ [role]"] Cons.prems(2) False True role show ?thesis by auto
    next
      case nc: False
      with Cons.IH[OF Cons.prems(1), of out] Cons.prems(2) show ?thesis by auto
    qed
  qed
qed simp

end

subsection \<open>What the stores promise\<close>

context kube_ns begin

lemmas rbac_run_refines = roles.run_refines role_bindings.run_refines groups.run_refines

lemmas ListRoleBindings_values = role_bindings.lst_values

end

context kube_ns_server begin

lemma SetEnabled_GetEnabled:
  assumes "up s"
    and "\<And>obj. key_of obj = (ConfigMapT, ns, RBACEnabledConfigMap) \<Longrightarrow>
          ko_type obj = ConfigMapTypeMeta \<Longrightarrow> admissible obj"
  shows "\<exists>s1 s2. SetEnabled (NewRBAC cli ns) b s = (Inr (), s1) \<and> GetEnabled (NewRBAC cli ns) s1 = (Inr b, s2)"
proof -
  obtain s1 where s1: "SetEnabled (NewRBAC cli ns) b s = (Inr (), s1)" "up s1"
    by (rule SetEnabled_up[OF assms])
  obtain d where d: "view s1 (ConfigMapT, ns, RBACEnabledConfigMap)
      = Some (fst (the (view s1 (ConfigMapT, ns, RBACEnabledConfigMap))), Plain (PConfigMap d))"
    "d ''enabled'' = Some (sprintf_bool b)"
    by (rule SetEnabled_done[OF s1(1)])
  obtain s2 where "GetEnabled (NewRBAC cli ns) s1 = (Inr b, s2)"
    by (rule GetEnabled_up[OF s1(2) d])
  with s1(1) show ?thesis by blast
qed

lemma GetEnabled_default:
  assumes "up s" and "view s (ConfigMapT, ns, RBACEnabledConfigMap) = None"
  shows "\<exists>s1. GetEnabled (NewRBAC cli ns) s = (Inr True, s1)"
  using up_get_absent[OF assms] by (auto simp: GetEnabled_def)

lemma collect_roles_live:
  "up s \<Longrightarrow> \<forall>rb \<in> set rbs. contains rb \<longrightarrow> role_content view ns s (rb_role rb) \<noteq> None \<Longrightarrow>
     \<exists>res s'. collect_roles (NewRBAC cli ns) contains rbs out s = (Inr res, s')"
proof (induction rbs arbitrary: out s)
  case (Cons rb rbs)
  show ?case
  proof (cases "contains rb")
    case True
    with Cons.prems(2) obtain role where role: "role_content view ns s (rb_role rb) = Some role" by auto
    then obtain s1 where s1: "up s1" "GetRole (NewRBAC cli ns) (rb_role rb) s = (Inr role, s1)"
      using live_roles.up_get[OF Cons.prems(1), of "rb_role rb"] by auto
    have "role_content view ns s1 = role_content view ns s" by (rule roles.get_keeps[OF s1(2)])
    with Cons.IH[OF s1(1), of "out @ [role]"] Cons.prems(2) s1(2) True show ?thesis by simp
  next
    case False
    with Cons.IH[OF Cons.prems(1)] Cons.prems(2) show ?thesis by simp
  qed
qed simp

lemma ListNodeRoles_live:
  assumes "up s"
    and "\<And>rb. rb \<in> ran (role_binding_content view ns s) \<Longrightarrow> contains rb i \<Longrightarrow>
      role_content view ns s (rb_role rb) \<noteq> None"
  obtains res s' where "ListNodeRoles contains (NewRBAC cli ns) i s = (Inr res, s')"
proof -
  obtain rbs s1 where rbs: "ListRoleBindings (NewRBAC cli ns) s = (Inr rbs, s1)" "up s1"
    using live_role_bindings.up_lst[OF assms(1)] by blast
  have "\<forall>rb \<in> set rbs. contains rb i \<longrightarrow> role_content view ns s1 (rb_role rb) \<noteq> None"
    using role_bindings.lst_values[OF rbs(1)] assms(2) ListRoleBindings_roles[OF rbs(1)] by auto
  from collect_roles_live[OF rbs(2) this] rbs(1) that show ?thesis
    by (fastforce simp: ListNodeRoles_def)
qed

lemma ListNodeRoles_dangling:
  assumes "up s" and "role_binding_content view ns s n = Some rb" and "contains rb i"
    and "role_content view ns s (rb_role rb) = None"
  shows "\<exists>s'. ListNodeRoles contains (NewRBAC cli ns) i s = (Inl ErrRoleNotFound, s')"
    and "\<exists>s'. ListUserRoles contains (NewRBAC cli ns) i s = (Inl ErrRoleNotFound, s')"
proof -
  obtain rbs s1 where rbs: "ListRoleBindings (NewRBAC cli ns) s = (Inr rbs, s1)" "up s1"
    using live_role_bindings.up_lst[OF assms(1)] by blast
  have "rb \<in> set rbs"
    using role_bindings.lst_values[OF rbs(1)] assms(2) by (auto simp: ran_def)
  then have "\<exists>rb \<in> set rbs. contains rb i \<and> role_content view ns s1 (rb_role rb) = None"
    using assms(3,4) ListRoleBindings_roles[OF rbs(1)] by auto
  from collect_roles_dangling[OF rbs(2) this] rbs(1)
  show "\<exists>s'. ListNodeRoles contains (NewRBAC cli ns) i s = (Inl ErrRoleNotFound, s')"
    "\<exists>s'. ListUserRoles contains (NewRBAC cli ns) i s = (Inl ErrRoleNotFound, s')"
    by (auto simp: ListNodeRoles_def ListUserRoles_def)
qed

end

lemma mem_admits_rbac:
  "dns1123_subdomain (role_name r) \<Longrightarrow> mem_admits (StripPatchMeta (role_object ns r))"
  "dns1123_subdomain (rb_name b) \<Longrightarrow> mem_admits (StripPatchMeta (role_binding_object ns b))"
  "dns1123_subdomain (group_name g) \<Longrightarrow> mem_admits (StripPatchMeta (group_object ns g))"
  by (simp_all add: mem_admits_def StripPatchMeta_def role_object_def role_binding_object_def
      group_object_def type_meta_defs gv_String_def GroupVersion_def as_secret_def)

lemma mem_admits_switch:
  "key_of obj = (ConfigMapT, ns, RBACEnabledConfigMap) \<Longrightarrow> ko_type obj = ConfigMapTypeMeta \<Longrightarrow> mem_admits obj"
  by (cases "ko_payload obj")
    (auto simp: mem_admits_def key_of_def RBACEnabledConfigMap_def ConfigMapTypeMeta_def dns1123_subdomain_def
      dns1123_part_def is_lower_alnum_def is_alnum_def is_upper_def as_secret_def)

lemma example_name: "dns1123_subdomain ''web''"
  by (simp add: dns1123_subdomain_def dns1123_part_def is_lower_alnum_def is_alnum_def is_upper_def)

text \<open>
  The RBAC switch reads back: on until it is first set, and then what it was last set to,
  whatever else the config map holds.
\<close>

theorem rbac_switch_roundtrip:
  assumes "kube_ns_server cli view up admissible ns" and "up s"
    and "\<And>obj. key_of obj = (ConfigMapT, ns, RBACEnabledConfigMap) \<Longrightarrow>
          ko_type obj = ConfigMapTypeMeta \<Longrightarrow> admissible obj"
  shows "(\<exists>s1 s2. SetEnabled (NewRBAC cli ns) b s = (Inr (), s1) \<and> GetEnabled (NewRBAC cli ns) s1 = (Inr b, s2))
    \<and> (view s (ConfigMapT, ns, RBACEnabledConfigMap) = None \<longrightarrow>
         (\<exists>s1. GetEnabled (NewRBAC cli ns) s = (Inr True, s1)))"
  using kube_ns_server.SetEnabled_GetEnabled[OF assms] kube_ns_server.GetEnabled_default[OF assms(1,2)]
  by blast

theorem rbac_switch_roundtrip_witness:
  "\<exists>s1 s2. SetEnabled (NewRBAC mem_client ''default'') False mem_init = (Inr (), s1)
    \<and> GetEnabled (NewRBAC mem_client ''default'') s1 = (Inr False, s2)"
  using rbac_switch_roundtrip[OF mem_kube_ns_server mem_up_init, of False] mem_admits_switch by simp

text \<open>
  C24. Any sequence of puts and deletes of roles, of role bindings or of groups that reports no
  error leaves in the namespace what the same updates leave in a map from names to values.
\<close>

theorem rbac_stores_refine_maps:
  assumes "kube_ns cli view ns"
  shows "(\<forall>ops s u s'. run_store (PutRole (NewRBAC cli ns)) (DeleteRole (NewRBAC cli ns)) ops s = (Inr u, s') \<longrightarrow>
      role_content view ns s' = fold (apply_op role_name) ops (role_content view ns s))
    \<and> (\<forall>ops s u s'. run_store (PutRoleBinding (NewRBAC cli ns)) (DeleteRoleBinding (NewRBAC cli ns)) ops s
        = (Inr u, s') \<longrightarrow>
      role_binding_content view ns s' = fold (apply_op rb_name) ops (role_binding_content view ns s))
    \<and> (\<forall>ops s u s'. run_store (PutGroup (NewRBAC cli ns)) (DeleteGroup (NewRBAC cli ns)) ops s = (Inr u, s') \<longrightarrow>
      group_content view ns s' = fold (apply_op group_name) ops (group_content view ns s))"
  using kube_ns.rbac_run_refines[OF assms] by blast

theorem rbac_stores_refine_maps_witness:
  "\<exists>s'. run_store (PutRole (NewRBAC mem_client ''default'')) (DeleteRole (NewRBAC mem_client ''default''))
        [OpPut (zero_role\<lparr>role_name := ''web''\<rparr>), OpDelete ''old''] mem_init = (Inr (), s')
    \<and> role_content mem_view ''default'' s' = (role_content mem_view ''default'' mem_init)
        (''web'' \<mapsto> zero_role\<lparr>role_name := ''web''\<rparr>, ''old'' := None)"
proof -
  let ?ops = "[OpPut (zero_role\<lparr>role_name := ''web''\<rparr>), OpDelete ''old'']"
  obtain s' where r: "run_store (PutRole (NewRBAC mem_client ''default''))
      (DeleteRole (NewRBAC mem_client ''default'')) ?ops mem_init = (Inr (), s')"
    using mem_ns.live_roles.run_live[OF mem_up_init, of ?ops] mem_admits_rbac(1) example_name by auto
  from rbac_stores_refine_maps[OF mem_kube_ns] r
  have "role_content mem_view ''default'' s' =
      fold (apply_op role_name) ?ops (role_content mem_view ''default'' mem_init)" by blast
  with r show ?thesis by auto
qed

text \<open>
  C19. The roles of a node (a user) are, when the listing succeeds, the stored roles that
  exactly the bindings which contain the node (the user) name, one per binding, and every one
  of these roles exists.
\<close>

theorem node_roles_are_those_bound:
  assumes "kube_ns cli view ns" and "ListNodeRoles contains (NewRBAC cli ns) i s = (Inr roles, s')"
  shows "\<exists>rbs. set rbs = ran (role_binding_content view ns s)
    \<and> length rbs = card (dom (role_binding_content view ns s))
    \<and> (\<forall>rb \<in> set rbs. contains rb i \<longrightarrow> role_content view ns s (rb_role rb) \<noteq> None)
    \<and> roles = map (\<lambda>rb. the (role_content view ns s (rb_role rb))) (filter (\<lambda>rb. contains rb i) rbs)"
proof -
  obtain rbs s1 where r: "ListRoleBindings (NewRBAC cli ns) s = (Inr rbs, s1)"
    "collect_roles (NewRBAC cli ns) (\<lambda>rb. contains rb i) rbs [] s1 = (Inr roles, s')"
    using assms(2) by (auto simp: ListNodeRoles_def split: prod.splits sum.splits)
  have "length rbs = card (dom (role_binding_content view ns s))"
    using kube_ns.ListRoleBindings_values[OF assms(1) r(1)] by blast
  with kube_ns.bound_roles_done[OF assms(1) r] show ?thesis by blast
qed

text \<open>A role, a binding of the node to it, and one that does not contain the node and dangles.\<close>

theorem node_roles_are_those_bound_witness:
  "\<exists>s s'. ran (role_binding_content mem_view ''default'' s) =
      {\<lparr>rb_name = ''web'', rb_role = ''web'', rb_subjects = []\<rparr>, \<lparr>rb_name = ''db'', rb_role = ''gone'', rb_subjects = []\<rparr>}
    \<and> ListNodeRoles (\<lambda>rb i. rb_name rb = ''web'') (NewRBAC mem_client ''default'') ''node-a'' s
      = (Inr [\<lparr>role_name = ''web'', role_rules = []\<rparr>], s')"
proof -
  let ?role = "\<lparr>role_name = ''web'', role_rules = []\<rparr>"
  let ?rb = "\<lparr>rb_name = ''web'', rb_role = ''web'', rb_subjects = []\<rparr>"
  let ?other = "\<lparr>rb_name = ''db'', rb_role = ''gone'', rb_subjects = []\<rparr>"
  let ?o = "role_object ''default'' ?role" and ?b = "role_binding_object ''default'' ?rb"
    and ?d = "role_binding_object ''default'' ?other"
  let ?contains = "\<lambda>rb i. rb_name rb = ''web''"
  have db: "dns1123_subdomain ''db''"
    by (simp add: dns1123_subdomain_def dns1123_part_def is_lower_alnum_def is_alnum_def is_upper_def)
  have a: "mem_admits (StripPatchMeta ?o)" "mem_admits (StripPatchMeta ?b)" "mem_admits (StripPatchMeta ?d)"
    by (simp_all add: mem_admits_rbac example_name db)
  obtain s1 where s1: "mem_up s1" "mem_view s1 = (mem_view mem_init)(key_of ?o \<mapsto> shown ?o)"
    by (rule mem.PatchObject_up[OF mem_up_init a(1)])
  obtain s2 where s2: "mem_up s2" "mem_view s2 = (mem_view s1)(key_of ?b \<mapsto> shown ?b)"
    by (rule mem.PatchObject_up[OF s1(1) a(2)])
  obtain s where s: "mem_up s" "mem_view s = (mem_view s2)(key_of ?d \<mapsto> shown ?d)"
    by (rule mem.PatchObject_up[OF s2(1) a(3)])
  have v: "mem_view s = (mem_view mem_init)((RoleT, ''default'', ''web'') \<mapsto> (om_labels zero_object_meta, Plain (PRole ?role)),
      (RoleBindingT, ''default'', ''web'') \<mapsto> (om_labels zero_object_meta, Plain (PRoleBinding ?rb)),
      (RoleBindingT, ''default'', ''db'') \<mapsto> (om_labels zero_object_meta, Plain (PRoleBinding ?other)))"
    by (simp add: s(2) s2(2) s1(2) role_binding_object_def role_object_def shown_def key_of_def)
  have c: "role_content mem_view ''default'' s = [''web'' \<mapsto> ?role]"
    "role_binding_content mem_view ''default'' s = [''web'' \<mapsto> ?rb, ''db'' \<mapsto> ?other]"
  proof -
    show "role_content mem_view ''default'' s = [''web'' \<mapsto> ?role]"
      by (rule ext) (simp add: role_content_def named_content_def v)
    show "role_binding_content mem_view ''default'' s = [''web'' \<mapsto> ?rb, ''db'' \<mapsto> ?other]"
      by (rule ext) (simp add: role_binding_content_def named_content_def v)
  qed
  have r: "ran (role_binding_content mem_view ''default'' s) = {?rb, ?other}"
    by (simp add: c(2) ran_map_upd insert_commute)
  obtain res s' where l: "ListNodeRoles ?contains (NewRBAC mem_client ''default'') ''node-a'' s = (Inr res, s')"
    by (rule mem_ns.ListNodeRoles_live[OF s(1), where contains = ?contains and i = "''node-a''"])
      (use r c in auto)
  have n: "card (dom (role_binding_content mem_view ''default'' s)) = 2" by (simp add: c(2))
  obtain rbs where rbs: "set rbs = {?rb, ?other}"
    "length rbs = 2" "res = map (\<lambda>rb. the (role_content mem_view ''default'' s (rb_role rb)))
      (filter (\<lambda>rb. ?contains rb ''node-a'') rbs)"
    using node_roles_are_those_bound[OF mem_kube_ns l, unfolded r n] by blast
  from rbs(2) obtain x y where xy: "rbs = [x, y]"
    by (metis (no_types, opaque_lifting) One_nat_def Suc_1 length_0_conv length_Suc_conv)
  with rbs(1) have "x = ?rb \<and> y = ?other \<or> x = ?other \<and> y = ?rb" by (simp add: doubleton_eq_iff)
  then have "res = [?role]" by (elim disjE) (simp_all add: rbs(3) xy c(1))
  with l r show ?thesis by blast
qed

text \<open>
  One binding of the node (or user) whose role does not exist makes the whole listing fail
  with the not-found error of roles; the branch that would skip such a role is never taken.
\<close>

theorem dangling_binding_fails_listing:
  assumes "kube_ns_server cli view up admissible ns" and "up s"
    and "role_binding_content view ns s n = Some rb" and "contains rb i"
    and "role_content view ns s (rb_role rb) = None"
  shows "(\<exists>s'. ListNodeRoles contains (NewRBAC cli ns) i s = (Inl ErrRoleNotFound, s'))
    \<and> (\<exists>s'. ListUserRoles contains (NewRBAC cli ns) i s = (Inl ErrRoleNotFound, s'))"
  using kube_ns_server.ListNodeRoles_dangling[where contains = contains and i = i, OF assms] by blast

theorem dangling_binding_fails_listing_witness:
  "\<exists>s s'. role_binding_content mem_view ''default'' s ''web''
      = Some \<lparr>rb_name = ''web'', rb_role = ''gone'', rb_subjects = []\<rparr>
    \<and> ListNodeRoles (\<lambda>rb i. True) (NewRBAC mem_client ''default'') ''node-a'' s = (Inl ErrRoleNotFound, s')"
proof -
  let ?rb = "\<lparr>rb_name = ''web'', rb_role = ''gone'', rb_subjects = []\<rparr>"
  have a: "mem_admits (StripPatchMeta (role_binding_object ''default'' ?rb))"
    by (rule mem_admits_rbac(2)) (simp add: example_name)
  obtain s where s: "PatchObject mem_client (role_binding_object ''default'' ?rb) mem_init = (Inr (), s)" "mem_up s"
    "mem_view s = (mem_view mem_init)(key_of (role_binding_object ''default'' ?rb)
      \<mapsto> shown (role_binding_object ''default'' ?rb))"
    by (rule mem.PatchObject_up[OF mem_up_init a])
  have rb: "role_binding_content mem_view ''default'' s ''web'' = Some ?rb"
    "role_content mem_view ''default'' s ''gone'' = None"
    by (simp_all add: role_binding_content_def role_content_def named_content_def s(3)
        role_binding_object_def shown_def)
  from dangling_binding_fails_listing[where contains = "\<lambda>rb i. True" and i = "''node-a''",
      OF mem_kube_ns_server s(2) rb(1)] rb
  show ?thesis by auto
qed

end
