(* ===== verification/Networking.thy ===== *)
theory Networking
  imports MemApi Netip
begin

text \<open>
  \<open>provider/database/networking.go\<close>: network ACLs and routes, kept as one custom object per
  name; a route carries a label with the node that broadcasts it. The destination prefixes of
  a route (\<open>types.Route.DestinationPrefixes\<close>) belong to webmesh and are a parameter.
\<close>

record 's networking =
  nw_cli :: "'s client"
  nw_namespace :: string

definition NewNetworking :: "'s client \<Rightarrow> string \<Rightarrow> 's networking" where
  "NewNetworking cli namespace = \<lparr>nw_cli = cli, nw_namespace = namespace\<rparr>"

definition RouteNodeLabel :: string where
  "RouteNodeLabel = ''webmesh.io/node-id''"

subsection \<open>Network ACLs\<close>

definition acl_object :: "string \<Rightarrow> network_acl \<Rightarrow> kobject" where
  "acl_object namespace acl =
     \<lparr>ko_type = NetworkACLTypeMeta,
      ko_meta = zero_object_meta\<lparr>om_namespace := namespace, om_name := acl_name acl\<rparr>,
      ko_payload = PNetworkACL acl\<rparr>"

definition PutNetworkACL :: "'s networking \<Rightarrow> network_acl \<Rightarrow> ('s, unit) act" where
  "PutNetworkACL nw acl = PatchObject (nw_cli nw) (acl_object (nw_namespace nw) acl)"

definition GetNetworkACL :: "'s networking \<Rightarrow> string \<Rightarrow> ('s, network_acl) act" where
  "GetNetworkACL nw name s =
     (case api_get (nw_cli nw) NetworkACLT (nw_namespace nw) name s of
        (Inl err, s') \<Rightarrow>
          (if IgnoreNotFound err = None then (Inl ErrACLNotFound, s') else (Inl err, s'))
      | (Inr obj, s') \<Rightarrow> (Inr (as_network_acl (ko_payload obj)), s'))"

definition DeleteNetworkACL :: "'s networking \<Rightarrow> string \<Rightarrow> ('s, unit) act" where
  "DeleteNetworkACL nw name =
     ignoring_not_found (api_delete (nw_cli nw)
       \<lparr>ko_type = NetworkACLTypeMeta,
        ko_meta = zero_object_meta\<lparr>om_namespace := nw_namespace nw, om_name := name\<rparr>,
        ko_payload = PNetworkACL zero_network_acl\<rparr>)"

definition ListNetworkACLs :: "'s networking \<Rightarrow> ('s, network_acl list) act" where
  "ListNetworkACLs nw s =
     (case api_list (nw_cli nw) NetworkACLT (nw_namespace nw) [] s of
        (Inl err, s') \<Rightarrow>
          (if IgnoreNotFound err = None then (Inr [], s') else (Inl err, s'))
      | (Inr objs, s') \<Rightarrow> (Inr (map (\<lambda>obj. as_network_acl (ko_payload obj)) objs), s'))"

subsection \<open>Routes\<close>

definition route_object :: "string \<Rightarrow> route \<Rightarrow> kobject" where
  "route_object namespace route =
     \<lparr>ko_type = RouteTypeMeta,
      ko_meta = zero_object_meta\<lparr>om_namespace := namespace, om_name := route_name route,
                                 om_labels := Map.empty(RouteNodeLabel \<mapsto> route_node route)\<rparr>,
      ko_payload = PRoute route\<rparr>"

definition PutRoute :: "'s networking \<Rightarrow> route \<Rightarrow> ('s, unit) act" where
  "PutRoute nw route = PatchObject (nw_cli nw) (route_object (nw_namespace nw) route)"

definition GetRoute :: "'s networking \<Rightarrow> string \<Rightarrow> ('s, route) act" where
  "GetRoute nw name s =
     (case api_get (nw_cli nw) RouteT (nw_namespace nw) name s of
        (Inl err, s') \<Rightarrow>
          (if IgnoreNotFound err = None then (Inl ErrRouteNotFound, s') else (Inl err, s'))
      | (Inr obj, s') \<Rightarrow> (Inr (as_route (ko_payload obj)), s'))"

definition GetRoutesByNode :: "'s networking \<Rightarrow> string \<Rightarrow> ('s, route list) act" where
  "GetRoutesByNode nw nodeID s =
     (case api_list (nw_cli nw) RouteT (nw_namespace nw) [(RouteNodeLabel, nodeID)] s of
        (Inl err, s') \<Rightarrow>
          (if IgnoreNotFound err = None then (Inr [], s') else (Inl err, s'))
      | (Inr objs, s') \<Rightarrow> (Inr (map (\<lambda>obj. as_route (ko_payload obj)) objs), s'))"

text \<open>The inner loop stops at the first prefix that is the given one.\<close>

fun prefix_listed :: "prefix \<Rightarrow> prefix list \<Rightarrow> bool" where
  "prefix_listed cidr [] = False"
| "prefix_listed cidr (p # ps) =
     (if pfx_bits p = pfx_bits cidr \<and> addr_Compare (pfx_addr p) (pfx_addr cidr) = 0 then True
      else prefix_listed cidr ps)"

definition GetRoutesByCIDR ::
    "(route \<Rightarrow> prefix list) \<Rightarrow> 's networking \<Rightarrow> prefix \<Rightarrow> ('s, route list) act" where
  "GetRoutesByCIDR DestinationPrefixes nw cidr s =
     (case api_list (nw_cli nw) RouteT (nw_namespace nw) [] s of
        (Inl err, s') \<Rightarrow>
          (if IgnoreNotFound err = None then (Inr [], s') else (Inl err, s'))
      | (Inr objs, s') \<Rightarrow>
          (Inr (filter (\<lambda>route. prefix_listed cidr (DestinationPrefixes route))
                  (map (\<lambda>obj. as_route (ko_payload obj)) objs)), s'))"

definition DeleteRoute :: "'s networking \<Rightarrow> string \<Rightarrow> ('s, unit) act" where
  "DeleteRoute nw name =
     ignoring_not_found (api_delete (nw_cli nw)
       \<lparr>ko_type = RouteTypeMeta,
        ko_meta = zero_object_meta\<lparr>om_namespace := nw_namespace nw, om_name := name\<rparr>,
        ko_payload = PRoute zero_route\<rparr>)"

definition ListRoutes :: "'s networking \<Rightarrow> ('s, route list) act" where
  "ListRoutes nw s =
     (case api_list (nw_cli nw) RouteT (nw_namespace nw) [] s of
        (Inl err, s') \<Rightarrow>
          (if IgnoreNotFound err = None then (Inr [], s') else (Inl err, s'))
      | (Inr objs, s') \<Rightarrow> (Inr (map (\<lambda>obj. as_route (ko_payload obj)) objs), s'))"

subsection \<open>The collections keep their contract\<close>

definition acl_content :: "('s \<Rightarrow> objkey \<Rightarrow> stored option) \<Rightarrow> string \<Rightarrow> 's \<Rightarrow> string \<Rightarrow> network_acl option" where
  "acl_content = named_content as_network_acl NetworkACLT"

definition route_content :: "('s \<Rightarrow> objkey \<Rightarrow> stored option) \<Rightarrow> string \<Rightarrow> 's \<Rightarrow> string \<Rightarrow> route option" where
  "route_content = named_content as_route RouteT"

lemma NewNetworking_simps [simp]:
  "nw_cli (NewNetworking cli ns) = cli" "nw_namespace (NewNetworking cli ns) = ns"
  by (simp_all add: NewNetworking_def)

lemmas networking_shapes = PutNetworkACL_def GetNetworkACL_def DeleteNetworkACL_def
  ListNetworkACLs_def PutRoute_def GetRoute_def DeleteRoute_def ListRoutes_def
  acl_object_def route_object_def IgnoreNotFound_def

sublocale kube_ns \<subseteq> acls: named_store "PutNetworkACL (NewNetworking cli ns)"
  "GetNetworkACL (NewNetworking cli ns)" "DeleteNetworkACL (NewNetworking cli ns)"
  "ListNetworkACLs (NewNetworking cli ns)" acl_name "acl_content view ns" ErrACLNotFound
  unfolding acl_content_def
  by (rule named_storeI[where w = id])
    (auto simp: networking_shapes fun_eq_iff split: prod.split sum.split)

sublocale kube_ns \<subseteq> routes: named_store "PutRoute (NewNetworking cli ns)"
  "GetRoute (NewNetworking cli ns)" "DeleteRoute (NewNetworking cli ns)"
  "ListRoutes (NewNetworking cli ns)" route_name "route_content view ns" ErrRouteNotFound
  unfolding route_content_def
  by (rule named_storeI[where w = id])
    (auto simp: networking_shapes key_of_def fun_eq_iff split: prod.split sum.split)

sublocale kube_ns_server \<subseteq> live_acls: live_store "PutNetworkACL (NewNetworking cli ns)"
  "GetNetworkACL (NewNetworking cli ns)" "DeleteNetworkACL (NewNetworking cli ns)"
  "ListNetworkACLs (NewNetworking cli ns)" acl_name "acl_content view ns" ErrACLNotFound
  up "\<lambda>v. admissible (StripPatchMeta (acl_object ns v))"
  using acls.named_store_axioms unfolding acl_content_def
  by (rule live_storeI[where t = NetworkACLT and w = id])
    (auto simp: networking_shapes fun_eq_iff split: prod.split sum.split)

sublocale kube_ns_server \<subseteq> live_routes: live_store "PutRoute (NewNetworking cli ns)"
  "GetRoute (NewNetworking cli ns)" "DeleteRoute (NewNetworking cli ns)"
  "ListRoutes (NewNetworking cli ns)" route_name "route_content view ns" ErrRouteNotFound
  up "\<lambda>v. admissible (StripPatchMeta (route_object ns v))"
  using routes.named_store_axioms unfolding route_content_def
  by (rule live_storeI[where t = RouteT and w = id])
    (auto simp: networking_shapes fun_eq_iff split: prod.split sum.split)

subsection \<open>Routes by node and by destination\<close>

text \<open>Every route object is named and labelled by its route.\<close>

definition routes_labelled :: "('s \<Rightarrow> objkey \<Rightarrow> stored option) \<Rightarrow> string \<Rightarrow> 's \<Rightarrow> bool" where
  "routes_labelled view ns s \<longleftrightarrow>
     (\<forall>n l c. view s (RouteT, ns, n) = Some (l, c) \<longrightarrow>
        (\<exists>r. n = route_name r \<and> l = Map.empty(RouteNodeLabel \<mapsto> route_node r) \<and> c = Plain (PRoute r)))"

lemma route_object_simps [simp]:
  "key_of (route_object ns r) = (RouteT, ns, route_name r)"
  "shown (route_object ns r) = (Map.empty(RouteNodeLabel \<mapsto> route_node r), Plain (PRoute r))"
  by (simp_all add: route_object_def key_of_def shown_def)

lemma routes_labelled_put:
  "routes_labelled view ns s \<Longrightarrow>
     view s' = (view s)((RouteT, ns, route_name r) \<mapsto> (Map.empty(RouteNodeLabel \<mapsto> route_node r), Plain (PRoute r))) \<Longrightarrow>
     routes_labelled view ns s'"
  unfolding routes_labelled_def by auto

lemma routes_labelled_delete:
  "routes_labelled view ns s \<Longrightarrow> view s' = (view s)(k := None) \<Longrightarrow> routes_labelled view ns s'"
  unfolding routes_labelled_def by auto

lemma routes_labelled_cong: "routes_labelled view ns s \<Longrightarrow> view s' = view s \<Longrightarrow> routes_labelled view ns s'"
  unfolding routes_labelled_def by simp

lemma prefix_listed_iff: "prefix_listed cidr ps \<longleftrightarrow>
    (\<exists>p \<in> set ps. pfx_bits p = pfx_bits cidr \<and> addr_Compare (pfx_addr p) (pfx_addr cidr) = 0)"
  by (induction ps) auto

context kube_ns begin

lemmas networking_run_refines = acls.run_refines routes.run_refines

lemma route_op_labelled:
  assumes "routes_labelled view ns s"
    and "(case op of OpPut r \<Rightarrow> PutRoute (NewNetworking cli ns) r s
          | OpDelete n \<Rightarrow> DeleteRoute (NewNetworking cli ns) n s) = (res, s')"
  shows "routes_labelled view ns s'"
proof (cases op)
  case (OpPut r)
  then have p: "PatchObject cli (route_object ns r) s = (res, s')" using assms(2) by (simp add: PutRoute_def)
  have "view s' = view s \<or> view s' = (view s)(key_of (route_object ns r) \<mapsto> shown (route_object ns r))"
    using p PatchObject_done[of "route_object ns r" s _ s'] PatchObject_failed[of "route_object ns r" s _ s']
    by (cases res) blast+
  then show ?thesis
    using routes_labelled_cong[OF assms(1)] routes_labelled_put[OF assms(1)] by auto
next
  case (OpDelete n)
  then obtain obj where p: "ignoring_not_found (api_delete cli obj) s = (res, s')"
    using assms(2) by (auto simp: DeleteRoute_def)
  have "view s' = view s \<or> view s' = (view s)(key_of obj := None)"
    using p delete_ignored_done[of obj s _ s'] delete_ignored_failed[of obj s _ s'] by (cases res) blast+
  then show ?thesis
    using routes_labelled_cong[OF assms(1)] routes_labelled_delete[OF assms(1)] by blast
qed

lemma route_run_labelled:
  "routes_labelled view ns s \<Longrightarrow>
   run_store (PutRoute (NewNetworking cli ns)) (DeleteRoute (NewNetworking cli ns)) ops s = (res, s') \<Longrightarrow>
   routes_labelled view ns s'"
proof (induction ops arbitrary: s)
  case (Cons op ops)
  obtain r1 s1 where step: "(case op of OpPut r \<Rightarrow> PutRoute (NewNetworking cli ns) r s
      | OpDelete n \<Rightarrow> DeleteRoute (NewNetworking cli ns) n s) = (r1, s1)" by fastforce
  then have "routes_labelled view ns s1" by (rule route_op_labelled[OF Cons.prems(1)])
  with Cons step show ?case by (cases r1) auto
qed simp

lemma GetRoutesByNode_done:
  assumes "routes_labelled view ns s" and "GetRoutesByNode (NewNetworking cli ns) i s = (Inr rs, s')"
  shows "set rs = {r \<in> ran (route_content view ns s). route_node r = i}"
proof (cases "api_list cli RouteT ns [(RouteNodeLabel, i)] s")
  case (Pair res s1)
  have stored: "\<exists>r. c = Plain (PRoute r) \<and> l RouteNodeLabel = Some (route_node r)"
    if "view s (RouteT, ns, n) = Some (l, c)" for n l c
    using assms(1) that unfolding routes_labelled_def by fastforce
  have ran: "r \<in> ran (route_content view ns s) \<longleftrightarrow> (\<exists>n l. view s (RouteT, ns, n) = Some (l, Plain (PRoute r)))" for r
  proof -
    have "r \<in> ran (route_content view ns s) \<longleftrightarrow>
        (\<exists>n l c. view s (RouteT, ns, n) = Some (l, c) \<and> as_route (plain c) = r)"
      by (auto simp: ran_def route_content_def named_content_def)
    also have "\<dots> \<longleftrightarrow> (\<exists>n l. view s (RouteT, ns, n) = Some (l, Plain (PRoute r)))"
      using stored by fastforce
    finally show ?thesis .
  qed
  show ?thesis
  proof (cases res)
    case (Inl e)
    with Pair assms(2) have "is_not_found e" "rs = []" by (auto simp: GetRoutesByNode_def split: if_splits)
    with list_content_absent[OF Pair[unfolded Inl], of as_route] show ?thesis by (simp add: route_content_def)
  next
    case (Inr objs)
    have mem: "r \<in> set rs \<longleftrightarrow> Plain (PRoute r) \<in> snd ` shown ` set objs" for r
    proof -
      have rs: "rs = map (\<lambda>obj. as_route (ko_payload obj)) objs"
        using Pair Inr assms(2) by (auto simp: GetRoutesByNode_def)
      have "snd (shown obj) = Plain (PRoute (as_route (ko_payload obj)))" if "obj \<in> set objs" for obj
      proof -
        have "gvk_of (ko_payload obj) = RouteT"
          using list_sound[OF Pair[unfolded Inr] that] by (simp add: selected_def)
        then show ?thesis by (cases "ko_payload obj") (auto simp: shown_def)
      qed
      then show ?thesis unfolding rs by (force simp: image_iff)
    qed
    have "snd ` shown ` set objs = {c. \<exists>n l. view s (RouteT, ns, n) = Some (l, c) \<and> l RouteNodeLabel = Some i}"
      unfolding list_stored[OF Pair[unfolded Inr]] using ns_nonempty by force
    with mem show ?thesis using stored ran by fastforce
  qed
qed

lemma GetRoutesByCIDR_done:
  assumes "GetRoutesByCIDR Prefixes (NewNetworking cli ns) cidr s = (Inr rs, s')"
  shows "set rs = {r \<in> ran (route_content view ns s). cidr \<in> set (Prefixes r)}"
proof (cases "api_list cli RouteT ns [] s")
  case (Pair res s1)
  show ?thesis
  proof (cases res)
    case (Inl e)
    with Pair assms have "is_not_found e" "rs = []" by (auto simp: GetRoutesByCIDR_def split: if_splits)
    with list_content_absent[OF Pair[unfolded Inl], of as_route] show ?thesis by (simp add: route_content_def)
  next
    case (Inr objs)
    have "pfx_bits p = pfx_bits cidr \<and> pfx_addr p = pfx_addr cidr \<longleftrightarrow> p = cidr" for p
      by auto
    then have "prefix_listed cidr ps \<longleftrightarrow> cidr \<in> set ps" for ps
      by (simp add: prefix_listed_iff)
    with Pair Inr assms list_content(1)[OF Pair[unfolded Inr], of as_route] show ?thesis
      by (auto simp: GetRoutesByCIDR_def route_content_def)
  qed
qed

end

lemma mem_admits_networking:
  "dns1123_subdomain (acl_name a) \<Longrightarrow> mem_admits (StripPatchMeta (acl_object ns a))"
  "dns1123_subdomain (route_name r) \<Longrightarrow> mem_admits (StripPatchMeta (route_object ns r))"
  by (simp_all add: mem_admits_def StripPatchMeta_def acl_object_def route_object_def type_meta_defs
      gv_String_def GroupVersion_def as_secret_def)

definition example_route :: route where
  "example_route = zero_route\<lparr>route_name := ''r1'', route_node := ''node-a''\<rparr>"

lemma example_route_stored:
  obtains s' where "run_store (PutRoute (NewNetworking mem_client ''default''))
      (DeleteRoute (NewNetworking mem_client ''default'')) [OpPut example_route] mem_init = (Inr (), s')"
    and "mem_up s'"
proof -
  have "dns1123_subdomain (route_name example_route)"
    by (simp add: example_route_def dns1123_subdomain_def dns1123_part_def is_lower_alnum_def
        is_alnum_def is_upper_def)
  then show ?thesis
    using mem_ns.live_routes.run_live[OF mem_up_init, of "[OpPut example_route]"] mem_admits_networking(2) that
    by auto
qed

text \<open>
  Any sequence of puts and deletes of network ACLs or of routes that reports no error
  leaves in the namespace what the same updates leave in a map from names to values.
\<close>

theorem networking_stores_refine_maps:
  assumes "kube_ns cli view ns"
  shows "(\<forall>ops s u s'. run_store (PutNetworkACL (NewNetworking cli ns)) (DeleteNetworkACL (NewNetworking cli ns)) ops s
        = (Inr u, s') \<longrightarrow>
      acl_content view ns s' = fold (apply_op acl_name) ops (acl_content view ns s))
    \<and> (\<forall>ops s u s'. run_store (PutRoute (NewNetworking cli ns)) (DeleteRoute (NewNetworking cli ns)) ops s
        = (Inr u, s') \<longrightarrow>
      route_content view ns s' = fold (apply_op route_name) ops (route_content view ns s))"
  using kube_ns.networking_run_refines[OF assms] by blast

theorem networking_stores_refine_maps_witness:
  "\<exists>s'. PutRoute (NewNetworking mem_client ''default'') example_route mem_init = (Inr (), s')
    \<and> route_content mem_view ''default'' s' = (route_content mem_view ''default'' mem_init)
        (''r1'' \<mapsto> example_route)"
proof -
  obtain s' where r: "run_store (PutRoute (NewNetworking mem_client ''default''))
      (DeleteRoute (NewNetworking mem_client ''default'')) [OpPut example_route] mem_init = (Inr (), s')"
    by (rule example_route_stored)
  with networking_stores_refine_maps[OF mem_kube_ns]
  have "route_content mem_view ''default'' s' =
      fold (apply_op route_name) [OpPut example_route] (route_content mem_view ''default'' mem_init)" by blast
  with r show ?thesis by (auto simp: example_route_def split: prod.splits sum.splits)
qed

text \<open>
  C20. However routes were put and deleted before, and whichever call failed, the routes of a
  node are exactly the stored routes whose node field is that node: the label they are looked
  up by never goes out of step with the route.
\<close>

theorem routes_by_node_exact:
  assumes "kube_ns cli view ns" and "routes_labelled view ns s"
    and "run_store (PutRoute (NewNetworking cli ns)) (DeleteRoute (NewNetworking cli ns)) ops s = (res, s1)"
    and "GetRoutesByNode (NewNetworking cli ns) i s1 = (Inr rs, s2)"
  shows "set rs = {r \<in> ran (route_content view ns s1). route_node r = i}"
  by (rule kube_ns.GetRoutesByNode_done[OF assms(1) kube_ns.route_run_labelled[OF assms(1-3)] assms(4)])

theorem routes_by_node_exact_witness:
  "\<exists>s rs s'. GetRoutesByNode (NewNetworking mem_client ''default'') ''node-a'' s = (Inr rs, s')
    \<and> set rs = {r \<in> ran (route_content mem_view ''default'' s). route_node r = ''node-a''}"
proof -
  obtain s where r: "run_store (PutRoute (NewNetworking mem_client ''default''))
      (DeleteRoute (NewNetworking mem_client ''default'')) [OpPut example_route] mem_init = (Inr (), s)" "mem_up s"
    by (rule example_route_stored)
  obtain objs s1 where "api_list mem_client RouteT ''default'' [(RouteNodeLabel, ''node-a'')] s = (Inr objs, s1)"
    using mem.up_list[OF r(2)] by blast
  then obtain rs where l: "GetRoutesByNode (NewNetworking mem_client ''default'') ''node-a'' s = (Inr rs, s1)"
    by (simp add: GetRoutesByNode_def)
  have "routes_labelled mem_view ''default'' mem_init" by (simp add: routes_labelled_def)
  from routes_by_node_exact[OF mem_kube_ns this r(1) l] l show ?thesis by blast
qed

text \<open>
  The routes found by a destination are exactly the stored routes that have this very
  prefix among their destinations: no containing, contained or differently masked prefix.
\<close>

theorem routes_by_cidr_exact:
  assumes "kube_ns cli view ns"
    and "GetRoutesByCIDR Prefixes (NewNetworking cli ns) cidr s = (Inr rs, s')"
  shows "set rs = {r \<in> ran (route_content view ns s). cidr \<in> set (Prefixes r)}"
  by (rule kube_ns.GetRoutesByCIDR_done[OF assms])

theorem routes_by_cidr_exact_witness:
  "\<exists>s rs s'. GetRoutesByCIDR (\<lambda>r. [\<lparr>pfx_addr = Addr4 0, pfx_bits = 0\<rparr>])
      (NewNetworking mem_client ''default'') \<lparr>pfx_addr = Addr4 0, pfx_bits = 0\<rparr> s = (Inr rs, s')
    \<and> set rs = ran (route_content mem_view ''default'' s)"
proof -
  obtain s where "mem_up s" by (rule example_route_stored)
  then obtain objs s1 where "api_list mem_client RouteT ''default'' [] s = (Inr objs, s1)"
    using mem.up_list by blast
  then obtain rs where l: "GetRoutesByCIDR (\<lambda>r. [\<lparr>pfx_addr = Addr4 0, pfx_bits = 0\<rparr>])
      (NewNetworking mem_client ''default'') \<lparr>pfx_addr = Addr4 0, pfx_bits = 0\<rparr> s = (Inr rs, s1)"
    by (simp add: GetRoutesByCIDR_def)
  from routes_by_cidr_exact[OF mem_kube_ns l] l show ?thesis by auto
qed

end
