(* ===== verification/GraphStore.thy ===== *)
theory GraphStore
  imports MemApi Sha1 GoContext
begin

text \<open>
  \<open>provider/database/graphstore.go\<close>: the peer graph. A vertex is a \<open>Peer\<close> object named by the
  hash of the node id, an edge a \<open>MeshEdge\<close> object named by the hash of its end points, and
  both are looked up by labels. Subscribers to node changes are kept in memory.
  Webmesh's \<open>types.TruncateIDTo\<close>, \<open>types.Edge.ToMeshEdge\<close>, \<open>types.MeshEdge.AsGraphEdge\<close> and
  \<open>types.MeshNode.NodeID\<close> are parameters; \<open>'e\<close> is \<open>graph.Edge[types.NodeID]\<close>. The vertex
  properties, which the code ignores and returns empty, are left out.
\<close>

subsection \<open>Names and labels\<close>

definition TruncateNodeID :: "(string \<Rightarrow> nat \<Rightarrow> string) \<Rightarrow> string \<Rightarrow> string" where
  "TruncateNodeID TruncateIDTo nodeID = TruncateIDTo nodeID 63"

definition HashLabelValue :: "string \<Rightarrow> string" where
  "HashLabelValue addr = sha1_hex addr"

definition HashEncodedKey :: "string \<Rightarrow> string" where
  "HashEncodedKey encoded = HashLabelValue encoded"

text \<open>\<open>crypto.PublicKey.Encode\<close> is webmesh's; it is a parameter with its error.\<close>

definition SumKey :: "('k \<Rightarrow> goerr + string) \<Rightarrow> 'k \<Rightarrow> goerr + string" where
  "SumKey Encode key =
     (case Encode key of Inl err \<Rightarrow> Inl err | Inr encoded \<Rightarrow> Inr (HashEncodedKey encoded))"

definition HashNodeID :: "string \<Rightarrow> string" where
  "HashNodeID nodeID = HashLabelValue nodeID"

definition HashEdge :: "string \<Rightarrow> string \<Rightarrow> string" where
  "HashEdge source target = HashLabelValue (source @ ''-'' @ target)"

subsection \<open>The store\<close>

text \<open>A callback of a subscriber is a number; a call of it is an entry of a list of notifications.\<close>

record subscription =
  sub_ctx :: ctx
  sub_fn :: nat
  sub_cancel :: nat

record 's graph_store =
  gs_cli :: "'s client"
  gs_namespace :: string
  gs_subs :: "(string \<times> subscription) list"

definition NewGraphStore :: "'s client \<Rightarrow> string \<Rightarrow> 's graph_store" where
  "NewGraphStore cli namespace = \<lparr>gs_cli = cli, gs_namespace = namespace, gs_subs = []\<rparr>"

subsection \<open>Vertices\<close>

definition peer_labels :: "(string \<Rightarrow> nat \<Rightarrow> string) \<Rightarrow> string \<Rightarrow> mesh_node \<Rightarrow> (string \<rightharpoonup> string)" where
  "peer_labels TruncateIDTo nodeID node =
     [PublicKeyLabel \<mapsto> HashEncodedKey (mn_publicKey node),
      NodeIDLabel \<mapsto> TruncateNodeID TruncateIDTo nodeID,
      NodeIPv4Label \<mapsto> (if mn_privateIPv4 node \<noteq> [] then HashLabelValue (mn_privateIPv4 node) else []),
      NodeIPv6Label \<mapsto> (if mn_privateIPv6 node \<noteq> [] then HashLabelValue (mn_privateIPv6 node) else [])]"

definition peer_object :: "(string \<Rightarrow> nat \<Rightarrow> string) \<Rightarrow> string \<Rightarrow> string \<Rightarrow> mesh_node \<Rightarrow> kobject" where
  "peer_object TruncateIDTo namespace nodeID node =
     \<lparr>ko_type = PeerTypeMeta,
      ko_meta = zero_object_meta\<lparr>om_namespace := namespace, om_name := HashNodeID nodeID,
                                 om_labels := peer_labels TruncateIDTo nodeID node\<rparr>,
      ko_payload = PPeer node\<rparr>"

definition AddVertex ::
    "(string \<Rightarrow> nat \<Rightarrow> string) \<Rightarrow> 's graph_store \<Rightarrow> string \<Rightarrow> mesh_node \<Rightarrow> ('s, unit) act" where
  "AddVertex TruncateIDTo g nodeID node =
     PatchObject (gs_cli g) (peer_object TruncateIDTo (gs_namespace g) nodeID node)"

text \<open>The lookup names no namespace: it lists the peers of all of them.\<close>

definition Vertex :: "(string \<Rightarrow> nat \<Rightarrow> string) \<Rightarrow> 's graph_store \<Rightarrow> string \<Rightarrow> ('s, mesh_node) act" where
  "Vertex TruncateIDTo g nodeID s =
     (case api_list (gs_cli g) PeerT [] [(NodeIDLabel, TruncateNodeID TruncateIDTo nodeID)] s of
        (Inl err, s') \<Rightarrow>
          (if IgnoreNotFound err = None then (Inl ErrVertexNotFound, s') else (Inl err, s'))
      | (Inr [], s') \<Rightarrow> (Inl ErrVertexNotFound, s')
      | (Inr (peer # _), s') \<Rightarrow> (Inr (as_peer (ko_payload peer)), s'))"

definition RemoveVertex :: "'s graph_store \<Rightarrow> string \<Rightarrow> ('s, unit) act" where
  "RemoveVertex g nodeID =
     ignoring_not_found (api_delete (gs_cli g)
       \<lparr>ko_type = PeerTypeMeta,
        ko_meta = zero_object_meta\<lparr>om_namespace := gs_namespace g, om_name := HashNodeID nodeID\<rparr>,
        ko_payload = PPeer zero_mesh_node\<rparr>)"

definition ListVertices :: "(mesh_node \<Rightarrow> string) \<Rightarrow> 's graph_store \<Rightarrow> ('s, string list) act" where
  "ListVertices NodeID g s =
     (case api_list (gs_cli g) PeerT (gs_namespace g) [] s of
        (Inl err, s') \<Rightarrow>
          (if IgnoreNotFound err = None then (Inr [], s') else (Inl err, s'))
      | (Inr peers, s') \<Rightarrow> (Inr (map (\<lambda>peer. NodeID (as_peer (ko_payload peer))) peers), s'))"

definition VertexCount :: "(mesh_node \<Rightarrow> string) \<Rightarrow> 's graph_store \<Rightarrow> ('s, nat) act" where
  "VertexCount NodeID g s =
     (case ListVertices NodeID g s of
        (Inl err, s') \<Rightarrow> (Inl err, s')
      | (Inr verts, s') \<Rightarrow> (Inr (length verts), s'))"

subsection \<open>Edges\<close>

definition edge_object ::
    "(string \<Rightarrow> nat \<Rightarrow> string) \<Rightarrow> string \<Rightarrow> string \<Rightarrow> string \<Rightarrow> mesh_edge \<Rightarrow> kobject" where
  "edge_object TruncateIDTo namespace sourceNode targetNode edge =
     \<lparr>ko_type = MeshEdgeTypeMeta,
      ko_meta = zero_object_meta\<lparr>om_namespace := namespace, om_name := HashEdge sourceNode targetNode,
                  om_labels := [EdgeSourceLabel \<mapsto> TruncateNodeID TruncateIDTo sourceNode,
                                EdgeTargetLabel \<mapsto> TruncateNodeID TruncateIDTo targetNode]\<rparr>,
      ko_payload = PMeshEdge edge\<rparr>"

definition AddEdge ::
    "(string \<Rightarrow> nat \<Rightarrow> string) \<Rightarrow> ('e \<Rightarrow> string \<Rightarrow> string \<Rightarrow> mesh_edge) \<Rightarrow> 's graph_store
      \<Rightarrow> string \<Rightarrow> string \<Rightarrow> 'e \<Rightarrow> ('s, unit) act" where
  "AddEdge TruncateIDTo ToMeshEdge g sourceNode targetNode edge =
     PatchObject (gs_cli g)
       (edge_object TruncateIDTo (gs_namespace g) sourceNode targetNode
          (ToMeshEdge edge sourceNode targetNode))"

definition UpdateEdge ::
    "(string \<Rightarrow> nat \<Rightarrow> string) \<Rightarrow> ('e \<Rightarrow> string \<Rightarrow> string \<Rightarrow> mesh_edge) \<Rightarrow> 's graph_store
      \<Rightarrow> string \<Rightarrow> string \<Rightarrow> 'e \<Rightarrow> ('s, unit) act" where
  "UpdateEdge TruncateIDTo ToMeshEdge g sourceNode targetNode edge =
     PatchObject (gs_cli g)
       (edge_object TruncateIDTo (gs_namespace g) sourceNode targetNode
          (ToMeshEdge edge sourceNode targetNode))"

definition RemoveEdge :: "'s graph_store \<Rightarrow> string \<Rightarrow> string \<Rightarrow> ('s, unit) act" where
  "RemoveEdge g sourceNode targetNode =
     ignoring_not_found (api_delete (gs_cli g)
       \<lparr>ko_type = MeshEdgeTypeMeta,
        ko_meta = zero_object_meta\<lparr>om_namespace := gs_namespace g,
                                   om_name := HashEdge sourceNode targetNode\<rparr>,
        ko_payload = PMeshEdge zero_mesh_edge\<rparr>)"

definition Edge ::
    "(string \<Rightarrow> nat \<Rightarrow> string) \<Rightarrow> (mesh_edge \<Rightarrow> 'e) \<Rightarrow> 's graph_store \<Rightarrow> string \<Rightarrow> string \<Rightarrow> ('s, 'e) act" where
  "Edge TruncateIDTo AsGraphEdge g sourceNode targetNode s =
     (case api_list (gs_cli g) MeshEdgeT (gs_namespace g)
             [(EdgeSourceLabel, TruncateNodeID TruncateIDTo sourceNode),
              (EdgeTargetLabel, TruncateNodeID TruncateIDTo targetNode)] s of
        (Inl err, s') \<Rightarrow>
          (if IgnoreNotFound err = None then (Inl ErrEdgeNotFound, s') else (Inl err, s'))
      | (Inr [], s') \<Rightarrow> (Inl ErrEdgeNotFound, s')
      | (Inr (edge # _), s') \<Rightarrow> (Inr (AsGraphEdge (as_mesh_edge (ko_payload edge))), s'))"

definition ListEdges :: "(mesh_edge \<Rightarrow> 'e) \<Rightarrow> 's graph_store \<Rightarrow> ('s, 'e list) act" where
  "ListEdges AsGraphEdge g s =
     (case api_list (gs_cli g) MeshEdgeT (gs_namespace g) [] s of
        (Inl err, s') \<Rightarrow>
          (if IgnoreNotFound err = None then (Inr [], s') else (Inl err, s'))
      | (Inr edges, s') \<Rightarrow> (Inr (map (\<lambda>edge. AsGraphEdge (as_mesh_edge (ko_payload edge))) edges), s'))"

subsection \<open>Subscriptions\<close>

text \<open>
  \<open>uuid.NewRandom\<close> is a third-party package's; its result is an argument. The returned cancel
  function is the number of the derived context.
\<close>

definition Graph_Subscribe ::
    "goerr + string \<Rightarrow> ctx \<Rightarrow> nat \<Rightarrow> 's graph_store \<Rightarrow> runtime \<Rightarrow> (goerr + nat) \<times> 's graph_store \<times> runtime" where
  "Graph_Subscribe uuid ctx fn g rt =
     (case uuid of
        Inl err \<Rightarrow> (Inl err, g, rt)
      | Inr i \<Rightarrow>
          (let ((ctx', cancel), rt') = WithCancel rt ctx;
               sub = \<lparr>sub_ctx = ctx', sub_fn = fn, sub_cancel = cancel\<rparr>
           in (Inr cancel, g\<lparr>gs_subs := AList.update i sub (gs_subs g)\<rparr>, rt')))"

subsection \<open>Hashes are names and label values\<close>

lemma hex_lower_alnum: "c \<in> set ''0123456789abcdef'' \<Longrightarrow> is_lower_alnum c"
  by (auto simp: is_lower_alnum_def is_alnum_def is_upper_def)

lemma length_HashLabelValue [simp]: "length (HashLabelValue v) = 40"
  by (simp add: HashLabelValue_def)

lemma HashLabelValue_chars: "c \<in> set (HashLabelValue v) \<Longrightarrow> is_lower_alnum c"
  unfolding HashLabelValue_def by (rule hex_lower_alnum) (rule sha1_hex_chars)

lemma HashLabelValue_nonempty [simp]: "HashLabelValue v \<noteq> []"
  using length_HashLabelValue[of v] by (metis length_0_conv zero_neq_numeral)

lemma HashLabelValue_valid: "valid_label_value (HashLabelValue v)" "dns1123_subdomain (HashLabelValue v)"
  by (rule valid_label_valueI dns1123_subdomainI;
      auto dest: HashLabelValue_chars simp: is_lower_alnum_def)+

lemmas hash_defs = HashNodeID_def HashEdge_def HashEncodedKey_def

subsection \<open>Reading back\<close>

lemma NewGraphStore_simps [simp]:
  "gs_cli (NewGraphStore cli ns) = cli" "gs_namespace (NewGraphStore cli ns) = ns"
  "gs_subs (NewGraphStore cli ns) = []"
  by (simp_all add: NewGraphStore_def)

lemma peer_object_simps [simp]:
  "key_of (peer_object T ns i node) = (PeerT, ns, HashNodeID i)"
  "shown (peer_object T ns i node) = (peer_labels T i node, Plain (PPeer node))"
  by (simp_all add: peer_object_def shown_def key_of_def)

lemma edge_object_simps [simp]:
  "key_of (edge_object T ns a b e) = (MeshEdgeT, ns, HashEdge a b)"
  "shown (edge_object T ns a b e) = ([EdgeSourceLabel \<mapsto> TruncateNodeID T a,
     EdgeTargetLabel \<mapsto> TruncateNodeID T b], Plain (PMeshEdge e))"
  by (simp_all add: edge_object_def shown_def key_of_def)

lemma peer_labels_lookup [simp]:
  "peer_labels T i node NodeIDLabel = Some (TruncateNodeID T i)"
  "peer_labels T i node PublicKeyLabel = Some (HashEncodedKey (mn_publicKey node))"
  "peer_labels T i node NodeIPv4Label =
     Some (if mn_privateIPv4 node \<noteq> [] then HashLabelValue (mn_privateIPv4 node) else [])"
  "peer_labels T i node NodeIPv6Label =
     Some (if mn_privateIPv6 node \<noteq> [] then HashLabelValue (mn_privateIPv6 node) else [])"
  by (simp_all add: peer_labels_def label_defs)

text \<open>
  The object of a node is the only one a lookup by its label can find: no other stored peer,
  in any namespace, has the same truncated id.
\<close>

definition vertex_label_unique ::
    "(string \<Rightarrow> nat \<Rightarrow> string) \<Rightarrow> ('s \<Rightarrow> objkey \<Rightarrow> stored option) \<Rightarrow> string \<Rightarrow> 's \<Rightarrow> string \<Rightarrow> bool" where
  "vertex_label_unique T view ns s i \<longleftrightarrow>
     (\<forall>ns' n l c. view s (PeerT, ns', n) = Some (l, c) \<and> l NodeIDLabel = Some (TruncateNodeID T i)
        \<longrightarrow> ns' = ns \<and> n = HashNodeID i)"

definition edge_label_unique ::
    "(string \<Rightarrow> nat \<Rightarrow> string) \<Rightarrow> ('s \<Rightarrow> objkey \<Rightarrow> stored option) \<Rightarrow> string \<Rightarrow> 's \<Rightarrow> string \<Rightarrow> string \<Rightarrow> bool" where
  "edge_label_unique T view ns s a b \<longleftrightarrow>
     (\<forall>n l c. view s (MeshEdgeT, ns, n) = Some (l, c) \<and> l EdgeSourceLabel = Some (TruncateNodeID T a)
        \<and> l EdgeTargetLabel = Some (TruncateNodeID T b) \<longrightarrow> n = HashEdge a b)"

lemma vertex_label_uniqueD:
  "vertex_label_unique T view ns s i \<Longrightarrow> view s (PeerT, ns', n) = Some (l, c) \<Longrightarrow>
     l NodeIDLabel = Some (TruncateNodeID T i) \<Longrightarrow> ns' = ns \<and> n = HashNodeID i"
  unfolding vertex_label_unique_def by blast

lemma edge_label_uniqueD:
  "edge_label_unique T view ns s a b \<Longrightarrow> view s (MeshEdgeT, ns, n) = Some (l, c) \<Longrightarrow>
     l EdgeSourceLabel = Some (TruncateNodeID T a) \<Longrightarrow>
     l EdgeTargetLabel = Some (TruncateNodeID T b) \<Longrightarrow> n = HashEdge a b"
  unfolding edge_label_unique_def by blast

context kube_ns_server begin

lemma Vertex_found:
  assumes "up s" and "view s (PeerT, ns, HashNodeID i) = Some (l, Plain (PPeer node))"
    and "l NodeIDLabel = Some (TruncateNodeID T i)" and "vertex_label_unique T view ns s i"
  obtains s' where "Vertex T (NewGraphStore cli ns) i s = (Inr node, s')" and "up s'"
proof -
  obtain objs s' where objs: "api_list cli PeerT [] [(NodeIDLabel, TruncateNodeID T i)] s = (Inr objs, s')"
    "up s'" using up_list[OF assms(1)] by blast
  have only: "ns' = ns \<and> n = HashNodeID i" if "view s (PeerT, ns', n) = Some (l', c)"
    "matching_labels [(NodeIDLabel, TruncateNodeID T i)] l'" for ns' n l' c
    using vertex_label_uniqueD[OF assms(4) that(1)] that(2) by simp
  obtain obj where "objs = [obj]" "shown obj = (l, Plain (PPeer node))"
    by (rule list_only[OF objs(1) _ assms(2)]) (auto dest: only simp: assms(3))
  with objs that show ?thesis by (auto simp: Vertex_def shown_def)
qed

lemma Vertex_absent:
  assumes "up s" and "view s (PeerT, ns, HashNodeID i) = None" and "vertex_label_unique T view ns s i"
  obtains s' where "Vertex T (NewGraphStore cli ns) i s = (Inl ErrVertexNotFound, s')" and "up s'"
proof -
  obtain objs s' where objs: "api_list cli PeerT [] [(NodeIDLabel, TruncateNodeID T i)] s = (Inr objs, s')"
    "up s'" using up_list[OF assms(1)] by blast
  have "\<not> matching_labels [(NodeIDLabel, TruncateNodeID T i)] l"
    if "view s (PeerT, ns', n) = Some (l, c)" for ns' n l c
    using vertex_label_uniqueD[OF assms(3) that] that assms(2) by auto
  then have "objs = []" by (intro list_none[OF objs(1)])
  with objs that show ?thesis by (auto simp: Vertex_def)
qed

lemma Edge_found:
  assumes "up s" and "view s (MeshEdgeT, ns, HashEdge a b) = Some (l, Plain (PMeshEdge e))"
    and "l EdgeSourceLabel = Some (TruncateNodeID T a)" "l EdgeTargetLabel = Some (TruncateNodeID T b)"
    and "edge_label_unique T view ns s a b"
  obtains s' where "Edge T As (NewGraphStore cli ns) a b s = (Inr (As e), s')" and "up s'"
proof -
  obtain objs s' where objs: "api_list cli MeshEdgeT ns [(EdgeSourceLabel, TruncateNodeID T a),
      (EdgeTargetLabel, TruncateNodeID T b)] s = (Inr objs, s')" "up s'"
    using up_list[OF assms(1)] by blast
  have only: "ns' = ns \<and> n = HashEdge a b" if "view s (MeshEdgeT, ns', n) = Some (l', c)"
    "in_namespace ns ns'"
    "matching_labels [(EdgeSourceLabel, TruncateNodeID T a), (EdgeTargetLabel, TruncateNodeID T b)] l'"
    for ns' n l' c
    using edge_label_uniqueD[OF assms(5), of n l' c] that ns_nonempty by auto
  obtain obj where "objs = [obj]" "shown obj = (l, Plain (PMeshEdge e))"
    by (rule list_only[OF objs(1) _ assms(2)]) (use ns_nonempty assms(3,4) in \<open>auto dest: only\<close>)
  with objs that show ?thesis by (auto simp: Edge_def shown_def)
qed

lemma Edge_absent:
  assumes "up s" and "view s (MeshEdgeT, ns, HashEdge a b) = None" and "edge_label_unique T view ns s a b"
  obtains s' where "Edge T As (NewGraphStore cli ns) a b s = (Inl ErrEdgeNotFound, s')" and "up s'"
proof -
  obtain objs s' where objs: "api_list cli MeshEdgeT ns [(EdgeSourceLabel, TruncateNodeID T a),
      (EdgeTargetLabel, TruncateNodeID T b)] s = (Inr objs, s')" "up s'"
    using up_list[OF assms(1)] by blast
  have "\<not> matching_labels [(EdgeSourceLabel, TruncateNodeID T a), (EdgeTargetLabel, TruncateNodeID T b)] l"
    if "view s (MeshEdgeT, ns', n) = Some (l, c)" "in_namespace ns ns'" for ns' n l c
    using edge_label_uniqueD[OF assms(3), of n l c] that assms(2) ns_nonempty by auto
  then have "objs = []" by (intro list_none[OF objs(1)])
  with objs that show ?thesis by (auto simp: Edge_def)
qed

text \<open>An object put under the name of the node itself keeps the lookup by label unambiguous.\<close>

lemma vertex_label_unique_put:
  "vertex_label_unique T view ns s i \<Longrightarrow> view s' = (view s)((PeerT, ns, HashNodeID i) := x) \<Longrightarrow>
     vertex_label_unique T view ns s' i"
  by (auto simp: vertex_label_unique_def)

lemma edge_label_unique_put:
  "edge_label_unique T view ns s a b \<Longrightarrow> view s' = (view s)((MeshEdgeT, ns, HashEdge a b) := x) \<Longrightarrow>
     edge_label_unique T view ns s' a b"
  by (auto simp: edge_label_unique_def)

lemma AddVertex_live:
  assumes "up s" and "admissible (StripPatchMeta (peer_object T ns i node))"
    and "vertex_label_unique T view ns s i"
  shows "\<exists>s1 s2. AddVertex T (NewGraphStore cli ns) i node s = (Inr (), s1)
    \<and> Vertex T (NewGraphStore cli ns) i s1 = (Inr node, s2)"
proof -
  obtain s1 where s1: "PatchObject cli (peer_object T ns i node) s = (Inr (), s1)" "up s1"
    "view s1 = (view s)(key_of (peer_object T ns i node) \<mapsto> shown (peer_object T ns i node))"
    by (rule PatchObject_up[OF assms(1,2)])
  have v: "view s1 (PeerT, ns, HashNodeID i) = Some (peer_labels T i node, Plain (PPeer node))"
    using s1(3) by simp
  have u: "vertex_label_unique T view ns s1 i"
    by (rule vertex_label_unique_put[OF assms(3)]) (simp add: s1(3))
  obtain s2 where "Vertex T (NewGraphStore cli ns) i s1 = (Inr node, s2)"
    by (rule Vertex_found[OF s1(2) v _ u]) simp_all
  with s1(1) show ?thesis by (auto simp: AddVertex_def)
qed

lemma RemoveVertex_live:
  assumes "up s" and "vertex_label_unique T view ns s i"
  shows "\<exists>s1 s2. RemoveVertex (NewGraphStore cli ns) i s = (Inr (), s1)
    \<and> Vertex T (NewGraphStore cli ns) i s1 = (Inl ErrVertexNotFound, s2)"
proof -
  obtain s1 where s1: "RemoveVertex (NewGraphStore cli ns) i s = (Inr (), s1)" "up s1"
    using delete_ignored_up[OF assms(1)] by (auto simp: RemoveVertex_def)
  then have v: "view s1 = (view s)((PeerT, ns, HashNodeID i) := None)"
    by (auto simp: RemoveVertex_def dest: delete_ignored_done)
  obtain s2 where "Vertex T (NewGraphStore cli ns) i s1 = (Inl ErrVertexNotFound, s2)"
    by (rule Vertex_absent[OF s1(2) _ vertex_label_unique_put[OF assms(2) v]]) (simp_all add: v)
  with s1(1) show ?thesis by blast
qed

lemma AddEdge_live:
  assumes "up s" and "admissible (StripPatchMeta (edge_object T ns a b (To e a b)))"
    and "edge_label_unique T view ns s a b"
  shows "\<exists>s1 s2. AddEdge T To (NewGraphStore cli ns) a b e s = (Inr (), s1)
    \<and> Edge T As (NewGraphStore cli ns) a b s1 = (Inr (As (To e a b)), s2)"
proof -
  let ?o = "edge_object T ns a b (To e a b)"
  obtain s1 where s1: "PatchObject cli ?o s = (Inr (), s1)" "up s1"
    "view s1 = (view s)(key_of ?o \<mapsto> shown ?o)"
    by (rule PatchObject_up[OF assms(1,2)])
  let ?l = "[EdgeSourceLabel \<mapsto> TruncateNodeID T a, EdgeTargetLabel \<mapsto> TruncateNodeID T b]"
  have v: "view s1 (MeshEdgeT, ns, HashEdge a b) = Some (?l, Plain (PMeshEdge (To e a b)))"
    using s1(3) by simp
  have u: "edge_label_unique T view ns s1 a b"
    by (rule edge_label_unique_put[OF assms(3)]) (simp add: s1(3))
  obtain s2 where "Edge T As (NewGraphStore cli ns) a b s1 = (Inr (As (To e a b)), s2)"
    by (rule Edge_found[OF s1(2) v _ _ u]) simp_all
  with s1(1) show ?thesis by (auto simp: AddEdge_def)
qed

lemma RemoveEdge_live:
  assumes "up s" and "edge_label_unique T view ns s a b"
  shows "\<exists>s1 s2. RemoveEdge (NewGraphStore cli ns) a b s = (Inr (), s1)
    \<and> Edge T As (NewGraphStore cli ns) a b s1 = (Inl ErrEdgeNotFound, s2)"
proof -
  obtain s1 where s1: "RemoveEdge (NewGraphStore cli ns) a b s = (Inr (), s1)" "up s1"
    using delete_ignored_up[OF assms(1)] by (auto simp: RemoveEdge_def)
  then have v: "view s1 = (view s)((MeshEdgeT, ns, HashEdge a b) := None)"
    by (auto simp: RemoveEdge_def dest: delete_ignored_done)
  obtain s2 where "Edge T As (NewGraphStore cli ns) a b s1 = (Inl ErrEdgeNotFound, s2)"
    by (rule Edge_absent[OF s1(2) _ edge_label_unique_put[OF assms(2) v]]) (simp_all add: v)
  with s1(1) show ?thesis by blast
qed

text \<open>The name of an edge joins the two ids with a dash, so different edges can have one name.\<close>

lemma HashEdge_collide: "HashEdge (a @ ''-'' @ b) c = HashEdge a (b @ ''-'' @ c)"
  by (simp add: HashEdge_def)

lemma AddEdge_collision:
  assumes "up s" and "\<And>e a b. admissible (StripPatchMeta (edge_object T ns a b e))"
    and "edge_label_unique T view ns s (a @ ''-'' @ b) c"
    and "TruncateNodeID T (a @ ''-'' @ b) \<noteq> TruncateNodeID T a"
  shows "\<exists>s1 s2 s3. AddEdge T To (NewGraphStore cli ns) (a @ ''-'' @ b) c e1 s = (Inr (), s1)
    \<and> AddEdge T To (NewGraphStore cli ns) a (b @ ''-'' @ c) e2 s1 = (Inr (), s2)
    \<and> Edge T As (NewGraphStore cli ns) (a @ ''-'' @ b) c s2 = (Inl ErrEdgeNotFound, s3)"
proof -
  let ?x = "a @ ''-'' @ b" and ?y = "b @ ''-'' @ c"
  let ?o1 = "edge_object T ns ?x c (To e1 ?x c)" and ?o2 = "edge_object T ns a ?y (To e2 a ?y)"
  obtain s1 where s1: "PatchObject cli ?o1 s = (Inr (), s1)" "up s1" "view s1 = (view s)(key_of ?o1 \<mapsto> shown ?o1)"
    by (rule PatchObject_up[OF assms(1,2)])
  obtain s2 where s2: "PatchObject cli ?o2 s1 = (Inr (), s2)" "up s2" "view s2 = (view s1)(key_of ?o2 \<mapsto> shown ?o2)"
    by (rule PatchObject_up[OF s1(2) assms(2)])
  have key: "key_of ?o2 = (MeshEdgeT, ns, HashEdge ?x c)" by (simp only: edge_object_simps HashEdge_collide)
  have "edge_label_unique T view ns s1 ?x c"
    by (rule edge_label_unique_put[OF assms(3)]) (simp add: s1(3))
  then have u: "edge_label_unique T view ns s2 ?x c"
    by (rule edge_label_unique_put) (simp only: s2(3) key)
  obtain objs s3 where objs: "api_list cli MeshEdgeT ns [(EdgeSourceLabel, TruncateNodeID T ?x),
      (EdgeTargetLabel, TruncateNodeID T c)] s2 = (Inr objs, s3)"
    using up_list[OF s2(2)] by blast
  have at: "view s2 (MeshEdgeT, ns, HashEdge ?x c) = Some (shown ?o2)"
    by (simp only: s2(3) key fun_upd_same)
  have "\<not> matching_labels [(EdgeSourceLabel, TruncateNodeID T ?x), (EdgeTargetLabel, TruncateNodeID T c)] l"
    if v: "view s2 (MeshEdgeT, ns', n) = Some (l, d)" and "in_namespace ns ns'" for ns' n l d
  proof
    assume "matching_labels [(EdgeSourceLabel, TruncateNodeID T ?x), (EdgeTargetLabel, TruncateNodeID T c)] l"
    then have l: "l EdgeSourceLabel = Some (TruncateNodeID T ?x)" "l EdgeTargetLabel = Some (TruncateNodeID T c)"
      by simp_all
    from that ns_nonempty have ns': "ns' = ns" by simp
    with edge_label_uniqueD[OF u _ l] v have "n = HashEdge ?x c" by blast
    with ns' v at have "(l, d) = shown ?o2" by simp
    with l(1) assms(4) show False by simp
  qed
  then have "objs = []" by (intro list_none[OF objs])
  with objs s1(1) s2(1) show ?thesis by (auto simp: AddEdge_def Edge_def)
qed

end

context kube_ns begin

lemma ListVertices_done:
  assumes "ListVertices NodeID (NewGraphStore cli ns) s = (Inr vs, s')"
  shows "set vs = NodeID ` ran (named_content as_peer PeerT view ns s)"
    and "length vs = card (dom (named_content as_peer PeerT view ns s))"
proof -
  let ?C = "named_content as_peer PeerT view ns s"
  have "set vs = NodeID ` ran ?C \<and> length vs = card (dom ?C)"
  proof (cases "api_list cli PeerT ns [] s")
    case (Pair r s1)
    show ?thesis
    proof (cases r)
      case (Inl e)
      with Pair assms list_content_absent[of PeerT "[]" s e s1 as_peer] show ?thesis
        by (auto simp: ListVertices_def split: if_splits)
    next
      case (Inr objs)
      then have vs: "vs = map NodeID (map (\<lambda>obj. as_peer (ko_payload obj)) objs)"
        using Pair assms by (auto simp: ListVertices_def)
      show ?thesis
        using list_content(1,2)[OF Pair[unfolded Inr], where as = as_peer]
        unfolding vs set_map[of NodeID] by simp
    qed
  qed
  then show "set vs = NodeID ` ran ?C" and "length vs = card (dom ?C)" by blast+
qed

lemma VertexCount_done:
  assumes "VertexCount NodeID (NewGraphStore cli ns) s = (Inr k, s')"
  shows "k = card (dom (named_content as_peer PeerT view ns s))"
  using assms ListVertices_done(2)
  by (auto simp: VertexCount_def split: prod.splits sum.splits)

end

subsection \<open>What the graph keeps of its objects\<close>

text \<open>
  The well-formedness of the graph's objects in a namespace: every peer object is named by the
  hash of an id that fits a label, and labelled from that id and its node; every edge object
  by its end points.
\<close>

definition graph_wf :: "(string \<Rightarrow> nat \<Rightarrow> string) \<Rightarrow> ('s \<Rightarrow> objkey \<Rightarrow> stored option) \<Rightarrow> string \<Rightarrow> 's \<Rightarrow> bool" where
  "graph_wf T view ns s \<longleftrightarrow>
     (\<forall>n l c. view s (PeerT, ns, n) = Some (l, c) \<longrightarrow>
        (\<exists>i node. length i \<le> 63 \<and> n = HashNodeID i \<and> l = peer_labels T i node \<and> c = Plain (PPeer node)))
   \<and> (\<forall>n l c. view s (MeshEdgeT, ns, n) = Some (l, c) \<longrightarrow>
        (\<exists>a b e. length a \<le> 63 \<and> length b \<le> 63 \<and> n = HashEdge a b
           \<and> l = [EdgeSourceLabel \<mapsto> TruncateNodeID T a, EdgeTargetLabel \<mapsto> TruncateNodeID T b]
           \<and> c = Plain (PMeshEdge e)))"

datatype 'e graph_op =
    OpAddVertex string mesh_node
  | OpRemoveVertex string
  | OpAddEdge string string 'e
  | OpUpdateEdge string string 'e
  | OpRemoveEdge string string

text \<open>The ids an operation stores an object for.\<close>

fun op_ids :: "'e graph_op \<Rightarrow> string set" where
  "op_ids (OpAddVertex i _) = {i}"
| "op_ids (OpAddEdge a b _) = {a, b}"
| "op_ids (OpUpdateEdge a b _) = {a, b}"
| "op_ids _ = {}"

fun graph_step ::
    "(string \<Rightarrow> nat \<Rightarrow> string) \<Rightarrow> ('e \<Rightarrow> string \<Rightarrow> string \<Rightarrow> mesh_edge) \<Rightarrow> 's graph_store \<Rightarrow> 'e graph_op \<Rightarrow> ('s, unit) act" where
  "graph_step T To g (OpAddVertex i node) s = AddVertex T g i node s"
| "graph_step T To g (OpRemoveVertex i) s = RemoveVertex g i s"
| "graph_step T To g (OpAddEdge a b e) s = AddEdge T To g a b e s"
| "graph_step T To g (OpUpdateEdge a b e) s = UpdateEdge T To g a b e s"
| "graph_step T To g (OpRemoveEdge a b) s = RemoveEdge g a b s"

text \<open>A run goes on after an error, as independent callers do.\<close>

fun graph_run ::
    "(string \<Rightarrow> nat \<Rightarrow> string) \<Rightarrow> ('e \<Rightarrow> string \<Rightarrow> string \<Rightarrow> mesh_edge) \<Rightarrow> 's graph_store \<Rightarrow> 'e graph_op list \<Rightarrow> 's \<Rightarrow> 's" where
  "graph_run T To g [] s = s"
| "graph_run T To g (op # ops) s = graph_run T To g ops (snd (graph_step T To g op s))"

text \<open>The peers and edges an operation stores, whatever is there already.\<close>

fun op_peers :: "'e graph_op \<Rightarrow> (string \<times> mesh_node) set" where
  "op_peers (OpAddVertex i node) = {(i, node)}"
| "op_peers _ = {}"

fun op_edges :: "('e \<Rightarrow> string \<Rightarrow> string \<Rightarrow> mesh_edge) \<Rightarrow> 'e graph_op \<Rightarrow> (string \<times> string \<times> mesh_edge) set" where
  "op_edges To (OpAddEdge a b e) = {(a, b, To e a b)}"
| "op_edges To (OpUpdateEdge a b e) = {(a, b, To e a b)}"
| "op_edges _ _ = {}"

text \<open>
  The objects of the graph in a namespace are those of some of the given peers and edges, with
  their names, labels and contents.
\<close>

definition graph_of ::
    "(string \<times> mesh_node) set \<Rightarrow> (string \<times> string \<times> mesh_edge) set \<Rightarrow> (string \<Rightarrow> nat \<Rightarrow> string)
      \<Rightarrow> ('s \<Rightarrow> objkey \<Rightarrow> stored option) \<Rightarrow> string \<Rightarrow> 's \<Rightarrow> bool" where
  "graph_of P E T view ns s \<longleftrightarrow>
     (\<forall>n l c. view s (PeerT, ns, n) = Some (l, c) \<longrightarrow>
        (\<exists>i node. (i, node) \<in> P \<and> n = HashNodeID i \<and> l = peer_labels T i node \<and> c = Plain (PPeer node)))
   \<and> (\<forall>n l c. view s (MeshEdgeT, ns, n) = Some (l, c) \<longrightarrow>
        (\<exists>a b e. (a, b, e) \<in> E \<and> n = HashEdge a b
           \<and> l = [EdgeSourceLabel \<mapsto> TruncateNodeID T a, EdgeTargetLabel \<mapsto> TruncateNodeID T b]
           \<and> c = Plain (PMeshEdge e)))"

lemma graph_of_put_peer:
  "graph_of P E T view ns s \<Longrightarrow> (i, node) \<in> P \<Longrightarrow>
     view s' = (view s)((PeerT, ns, HashNodeID i) \<mapsto> (peer_labels T i node, Plain (PPeer node))) \<Longrightarrow>
     graph_of P E T view ns s'"
  unfolding graph_of_def by auto

lemma graph_of_put_edge:
  "graph_of P E T view ns s \<Longrightarrow> (a, b, e) \<in> E \<Longrightarrow>
     view s' = (view s)((MeshEdgeT, ns, HashEdge a b) \<mapsto> ([EdgeSourceLabel \<mapsto> TruncateNodeID T a,
       EdgeTargetLabel \<mapsto> TruncateNodeID T b], Plain (PMeshEdge e))) \<Longrightarrow>
     graph_of P E T view ns s'"
  unfolding graph_of_def by auto

lemma graph_of_delete:
  "graph_of P E T view ns s \<Longrightarrow> view s' = (view s)(k := None) \<Longrightarrow> graph_of P E T view ns s'"
  unfolding graph_of_def by auto

lemma graph_of_cong: "graph_of P E T view ns s \<Longrightarrow> view s' = view s \<Longrightarrow> graph_of P E T view ns s'"
  unfolding graph_of_def by simp

lemma graph_of_peerE:
  assumes "graph_of P E T view ns s" and "view s (PeerT, ns, n) = Some (l, c)"
  obtains i node where "(i, node) \<in> P" "n = HashNodeID i" "l = peer_labels T i node" "c = Plain (PPeer node)"
  using assms unfolding graph_of_def by blast

lemma graph_of_edgeE:
  assumes "graph_of P E T view ns s" and "view s (MeshEdgeT, ns, n) = Some (l, c)"
  obtains a b e where "(a, b, e) \<in> E" "n = HashEdge a b"
    "l = [EdgeSourceLabel \<mapsto> TruncateNodeID T a, EdgeTargetLabel \<mapsto> TruncateNodeID T b]"
    "c = Plain (PMeshEdge e)"
  using assms unfolding graph_of_def by blast

lemma graph_wf_of:
  "graph_wf T view ns s \<longleftrightarrow>
     graph_of {(i, node). length i \<le> 63} {(a, b, e). length a \<le> 63 \<and> length b \<le> 63} T view ns s"
  unfolding graph_wf_def graph_of_def by simp

lemma graph_wf_put_peer:
  "graph_wf T view ns s \<Longrightarrow> length i \<le> 63 \<Longrightarrow>
     view s' = (view s)((PeerT, ns, HashNodeID i) \<mapsto> (peer_labels T i node, Plain (PPeer node))) \<Longrightarrow>
     graph_wf T view ns s'"
  unfolding graph_wf_of by (rule graph_of_put_peer) simp_all

text \<open>An id that fits a label is its own truncation, so its label is that of no other node.\<close>

lemma graph_wf_vertex_label:
  assumes "graph_wf T view ns s" and "\<And>i n. length i \<le> n \<Longrightarrow> T i n = i" and "length i \<le> 63"
    and "\<And>ns' n. view s (PeerT, ns', n) \<noteq> None \<Longrightarrow> ns' = ns"
  shows "vertex_label_unique T view ns s i"
  unfolding vertex_label_unique_def
proof (intro allI impI, elim conjE)
  fix ns' n l c
  assume v: "view s (PeerT, ns', n) = Some (l, c)" and l: "l NodeIDLabel = Some (TruncateNodeID T i)"
  from v assms(4) have ns': "ns' = ns" by blast
  with v assms(1) obtain j node where "length j \<le> 63" "n = HashNodeID j" "l = peer_labels T j node"
    unfolding graph_wf_def by blast
  with ns' l assms(2,3) show "ns' = ns \<and> n = HashNodeID i" by (simp add: TruncateNodeID_def)
qed

lemma graph_wf_edge_label:
  assumes "graph_wf T view ns s" and "\<And>i n. length i \<le> n \<Longrightarrow> T i n = i"
    and "length a \<le> 63" and "length b \<le> 63"
  shows "edge_label_unique T view ns s a b"
  unfolding edge_label_unique_def
proof (intro allI impI, elim conjE)
  fix n l c
  assume v: "view s (MeshEdgeT, ns, n) = Some (l, c)"
    and l: "l EdgeSourceLabel = Some (TruncateNodeID T a)" "l EdgeTargetLabel = Some (TruncateNodeID T b)"
  from v assms(1) obtain a' b' where "length a' \<le> 63" "length b' \<le> 63" "n = HashEdge a' b'"
    "l = [EdgeSourceLabel \<mapsto> TruncateNodeID T a', EdgeTargetLabel \<mapsto> TruncateNodeID T b']"
    unfolding graph_wf_def by blast
  with l assms(2-4) show "n = HashEdge a b" by (simp add: TruncateNodeID_def)
qed

context kube_ns begin

lemma graph_step_of:
  assumes "graph_of P E T view ns s" and "op_peers op \<subseteq> P" and "op_edges To op \<subseteq> E"
    and "graph_step T To (NewGraphStore cli ns) op s = (r, s')"
  shows "graph_of P E T view ns s'"
proof -
  have put: "graph_of P E T view ns s'"
    if "PatchObject cli obj s = (r, s')"
      and "\<And>s'. view s' = (view s)(key_of obj \<mapsto> shown obj) \<Longrightarrow> graph_of P E T view ns s'"
    for obj
    using that PatchObject_done[of obj s _ s'] PatchObject_failed[of obj s _ s'] graph_of_cong[OF assms(1)]
    by (cases r) blast+
  have del: "graph_of P E T view ns s'" if "ignoring_not_found (api_delete cli obj) s = (r, s')" for obj
    using that delete_ignored_done[of obj s _ s'] delete_ignored_failed[of obj s _ s']
      graph_of_cong[OF assms(1)] graph_of_delete[OF assms(1)]
    by (cases r) blast+
  have peer: "graph_of P E T view ns s'" if "(i, node) \<in> P"
    "PatchObject cli (peer_object T ns i node) s = (r, s')" for i node
    by (rule put[OF that(2)]) (rule graph_of_put_peer[OF assms(1) that(1)], simp)
  have edge: "graph_of P E T view ns s'" if "(a, b, e) \<in> E"
    "PatchObject cli (edge_object T ns a b e) s = (r, s')" for a b e
    by (rule put[OF that(2)]) (rule graph_of_put_edge[OF assms(1) that(1)], simp)
  show ?thesis
    using assms(2-4) peer edge del
    by (cases op) (auto simp: AddVertex_def RemoveVertex_def AddEdge_def UpdateEdge_def RemoveEdge_def)
qed

lemma graph_run_of:
  "graph_of P E T view ns s \<Longrightarrow> (\<Union>op \<in> set ops. op_peers op) \<subseteq> P \<Longrightarrow>
     (\<Union>op \<in> set ops. op_edges To op) \<subseteq> E \<Longrightarrow>
     graph_of P E T view ns (graph_run T To (NewGraphStore cli ns) ops s)"
proof (induction ops arbitrary: s)
  case (Cons op ops)
  have "graph_of P E T view ns (snd (graph_step T To (NewGraphStore cli ns) op s))"
    by (rule graph_step_of[OF Cons.prems(1) _ _ prod.collapse[symmetric]]) (use Cons.prems(2,3) in auto)
  with Cons show ?case by simp
qed simp

lemma graph_run_wf:
  assumes "graph_wf T view ns s" and "\<forall>op \<in> set ops. \<forall>i \<in> op_ids op. length i \<le> 63"
  shows "graph_wf T view ns (graph_run T To (NewGraphStore cli ns) ops s)"
proof -
  have "op_peers op \<subseteq> {(i, node). length i \<le> 63}"
    "op_edges To op \<subseteq> {(a, b, e). length a \<le> 63 \<and> length b \<le> 63}" if "op \<in> set ops" for op
    using assms(2) that by (cases op; force)+
  then show ?thesis
    using assms(1) unfolding graph_wf_of by (intro graph_run_of) blast+
qed

end

subsection \<open>The graph as its users see it\<close>

lemma gv_String_GroupVersion: "gv_String GroupVersion \<noteq> []"
  by (simp add: gv_String_def GroupVersion_def)

lemma mem_admits_graph:
  "mem_admits (StripPatchMeta (peer_object T ns i node))"
  "mem_admits (StripPatchMeta (edge_object T ns a b e))"
  by (simp_all add: mem_admits_def StripPatchMeta_def peer_object_def edge_object_def type_meta_defs
      gv_String_GroupVersion HashLabelValue_valid hash_defs as_secret_def)

lemma mem_init_unique:
  "vertex_label_unique T mem_view ns mem_init i" "edge_label_unique T mem_view ns mem_init a b"
  by (simp_all add: vertex_label_unique_def edge_label_unique_def)

text \<open>
  A vertex that was added is found again, with the node that was added, when no other
  peer carries its truncated id.
\<close>

theorem graph_add_vertex:
  assumes "kube_ns_server cli view up admissible ns" and "up s"
    and "admissible (StripPatchMeta (peer_object T ns i node))"
    and "vertex_label_unique T view ns s i"
  shows "\<exists>s1 s2. AddVertex T (NewGraphStore cli ns) i node s = (Inr (), s1)
    \<and> Vertex T (NewGraphStore cli ns) i s1 = (Inr node, s2)"
  by (rule kube_ns_server.AddVertex_live[OF assms])

theorem graph_add_vertex_witness:
  "\<exists>s1 s2. AddVertex (\<lambda>i n. take n i) (NewGraphStore mem_client ''default'') ''node-a'' zero_mesh_node mem_init
      = (Inr (), s1)
    \<and> Vertex (\<lambda>i n. take n i) (NewGraphStore mem_client ''default'') ''node-a'' s1 = (Inr zero_mesh_node, s2)"
  by (rule graph_add_vertex[OF mem_kube_ns_server mem_up_init mem_admits_graph(1) mem_init_unique(1)])

text \<open>
  A vertex that was removed is reported as not found, by the error the graph library asks
  for.
\<close>

theorem graph_remove_vertex:
  assumes "kube_ns_server cli view up admissible ns" and "up s"
    and "vertex_label_unique T view ns s i"
  shows "\<exists>s1 s2. RemoveVertex (NewGraphStore cli ns) i s = (Inr (), s1)
    \<and> Vertex T (NewGraphStore cli ns) i s1 = (Inl ErrVertexNotFound, s2)"
  by (rule kube_ns_server.RemoveVertex_live[OF assms])

theorem graph_remove_vertex_witness:
  "\<exists>s1 s2. RemoveVertex (NewGraphStore mem_client ''default'') ''node-a'' mem_init = (Inr (), s1)
    \<and> Vertex (\<lambda>i n. take n i) (NewGraphStore mem_client ''default'') ''node-a'' s1 = (Inl ErrVertexNotFound, s2)"
  by (rule graph_remove_vertex[OF mem_kube_ns_server mem_up_init mem_init_unique(1)])

text \<open>
  An edge that was added or updated is found between its end points, and only then removed
  is it not found again. Neither operation looks at the vertices or at an edge that is
  already there: both succeed whatever the server holds.
\<close>

theorem graph_edge_lifecycle:
  assumes "kube_ns_server cli view up admissible ns" and "up s"
    and "admissible (StripPatchMeta (edge_object T ns a b (To e a b)))"
    and "edge_label_unique T view ns s a b"
  shows "(\<exists>s1 s2. AddEdge T To (NewGraphStore cli ns) a b e s = (Inr (), s1)
      \<and> Edge T As (NewGraphStore cli ns) a b s1 = (Inr (As (To e a b)), s2))
    \<and> (\<exists>s1 s2. UpdateEdge T To (NewGraphStore cli ns) a b e s = (Inr (), s1)
      \<and> Edge T As (NewGraphStore cli ns) a b s1 = (Inr (As (To e a b)), s2))
    \<and> (\<exists>s1 s2. RemoveEdge (NewGraphStore cli ns) a b s = (Inr (), s1)
      \<and> Edge T As (NewGraphStore cli ns) a b s1 = (Inl ErrEdgeNotFound, s2))"
  using kube_ns_server.AddEdge_live[where To = To and e = e and As = As, OF assms]
    kube_ns_server.RemoveEdge_live[where As = As, OF assms(1,2,4)]
  by (simp add: UpdateEdge_def AddEdge_def)

theorem graph_edge_lifecycle_witness:
  "\<exists>s1 s2. UpdateEdge (\<lambda>i n. take n i) (\<lambda>e a b. e) (NewGraphStore mem_client ''default'') ''a'' ''b''
      zero_mesh_edge mem_init = (Inr (), s1)
    \<and> Edge (\<lambda>i n. take n i) id (NewGraphStore mem_client ''default'') ''a'' ''b'' s1 = (Inr zero_mesh_edge, s2)"
  using graph_edge_lifecycle[OF mem_kube_ns_server mem_up_init mem_admits_graph(2) mem_init_unique(2),
      where T = "\<lambda>i n. take n i" and To = "\<lambda>e a b. e" and e = zero_mesh_edge and As = id] by simp

text \<open>
  Two edges whose ids join to the same text share one object: adding the second one makes
  the first one disappear from the graph.
\<close>

theorem graph_edges_collide:
  assumes "kube_ns_server cli view up admissible ns" and "up s"
    and "\<And>e a b. admissible (StripPatchMeta (edge_object T ns a b e))"
    and "edge_label_unique T view ns s (a @ ''-'' @ b) c"
    and "TruncateNodeID T (a @ ''-'' @ b) \<noteq> TruncateNodeID T a"
  shows "\<exists>s1 s2 s3. AddEdge T To (NewGraphStore cli ns) (a @ ''-'' @ b) c e1 s = (Inr (), s1)
    \<and> AddEdge T To (NewGraphStore cli ns) a (b @ ''-'' @ c) e2 s1 = (Inr (), s2)
    \<and> Edge T As (NewGraphStore cli ns) (a @ ''-'' @ b) c s2 = (Inl ErrEdgeNotFound, s3)"
  by (rule kube_ns_server.AddEdge_collision[OF assms])

theorem graph_edges_collide_witness:
  "\<exists>s1 s2 s3. AddEdge (\<lambda>i n. take n i) (\<lambda>e a b. e) (NewGraphStore mem_client ''default'')
      ''node-a'' ''b'' zero_mesh_edge mem_init = (Inr (), s1)
    \<and> AddEdge (\<lambda>i n. take n i) (\<lambda>e a b. e) (NewGraphStore mem_client ''default'')
      ''node'' ''a-b'' zero_mesh_edge s1 = (Inr (), s2)
    \<and> Edge (\<lambda>i n. take n i) id (NewGraphStore mem_client ''default'') ''node-a'' ''b'' s2 = (Inl ErrEdgeNotFound, s3)"
  using graph_edges_collide[OF mem_kube_ns_server mem_up_init mem_admits_graph(2) mem_init_unique(2),
      where T = "\<lambda>i n. take n i" and a = "''node''" and b = "''a''" and c = "''b''"
        and To = "\<lambda>e a b. e" and ?e1.0 = zero_mesh_edge and ?e2.0 = zero_mesh_edge and As = id]
  by (simp add: TruncateNodeID_def)

text \<open>
  The vertices listed are the ids of exactly the peers of the namespace, and the count is
  the number of their objects.
\<close>

theorem graph_list_vertices:
  assumes "kube_ns cli view ns"
    and "ListVertices NodeID (NewGraphStore cli ns) s = (Inr vs, s1)"
    and "VertexCount NodeID (NewGraphStore cli ns) s = (Inr k, s2)"
  shows "set vs = NodeID ` ran (named_content as_peer PeerT view ns s)
    \<and> k = card (dom (named_content as_peer PeerT view ns s)) \<and> length vs = k"
  using kube_ns.ListVertices_done[OF assms(1,2)] kube_ns.VertexCount_done[OF assms(1,3)] by simp

theorem graph_list_vertices_witness:
  "\<exists>s1. ListVertices mn_id (NewGraphStore mem_client ''default'') mem_init = (Inr [], s1)
    \<and> card (dom (named_content as_peer PeerT mem_view ''default'' mem_init)) = 0"
proof -
  obtain s1 where l: "ListVertices mn_id (NewGraphStore mem_client ''default'') mem_init = (Inr [], s1)"
    by (simp add: ListVertices_def mem_ops fault_of_def mem_init_def tick_def DAList.empty.rep_eq)
  then have "VertexCount mn_id (NewGraphStore mem_client ''default'') mem_init = (Inr 0, s1)"
    by (simp add: VertexCount_def)
  from graph_list_vertices[OF mem_kube_ns l this] l show ?thesis by auto
qed

text \<open>
  C21. Whatever sequence of graph operations runs, and whichever of its calls fail, every peer
  and every edge object of the namespace keeps the name and the labels its ids give it; so, for
  ids that fit a label, the lookups by label stay unambiguous.
\<close>

theorem graph_objects_well_formed:
  assumes "kube_ns cli view ns" and "graph_wf T view ns s"
    and "\<forall>op \<in> set ops. \<forall>i \<in> op_ids op. length i \<le> 63"
    and "\<And>i n. length i \<le> n \<Longrightarrow> T i n = i"
    and "s' = graph_run T To (NewGraphStore cli ns) ops s"
  shows "graph_wf T view ns s'
    \<and> (length a \<le> 63 \<and> length b \<le> 63 \<longrightarrow> edge_label_unique T view ns s' a b)
    \<and> (length i \<le> 63 \<and> (\<forall>ns' n. view s' (PeerT, ns', n) \<noteq> None \<longrightarrow> ns' = ns)
        \<longrightarrow> vertex_label_unique T view ns s' i)"
  using kube_ns.graph_run_wf[OF assms(1-3), of To, folded assms(5)]
    graph_wf_vertex_label[of T view ns s' i] graph_wf_edge_label[of T view ns s' a b] assms(4) by blast

theorem graph_objects_well_formed_witness:
  "edge_label_unique (\<lambda>i n. take n i) mem_view ''default''
     (graph_run (\<lambda>i n. take n i) (\<lambda>e a b. e) (NewGraphStore mem_client ''default'')
        [OpAddVertex ''node-a'' zero_mesh_node, OpAddEdge ''node-a'' ''node-b'' zero_mesh_edge] mem_init)
     ''node-a'' ''node-b''"
proof -
  let ?T = "\<lambda>i n. take n i :: string"
    and ?ops = "[OpAddVertex ''node-a'' zero_mesh_node, OpAddEdge ''node-a'' ''node-b'' zero_mesh_edge]"
  have "graph_wf ?T mem_view ''default'' mem_init" by (simp add: graph_wf_def)
  from graph_objects_well_formed[OF mem_kube_ns this, where ops = ?ops and To = "\<lambda>e a b. e"
      and a = "''node-a''" and b = "''node-b''"]
  show ?thesis by simp
qed

lemma peer_labels_ran:
  "valid_label_value (T i 63) \<Longrightarrow> v \<in> ran (peer_labels T i node) \<Longrightarrow> valid_label_value v"
  by (auto simp: peer_labels_def label_defs ran_def TruncateNodeID_def hash_defs HashLabelValue_valid
      split: if_splits) (simp_all add: valid_label_value_def)

lemma op_peers_iff: "(i, node) \<in> op_peers op \<longleftrightarrow> op = OpAddVertex i node"
  by (cases op) auto

lemma op_edges_iff:
  "(a, b, e) \<in> op_edges To op \<longleftrightarrow> (\<exists>e'. (op = OpAddEdge a b e' \<or> op = OpUpdateEdge a b e') \<and> e = To e' a b)"
  by (cases op) auto

text \<open>The names of the stored peers are the sums of their ids, so there are no more of them.\<close>

lemma peers_bounded:
  assumes "graph_of (\<Union>op \<in> set ops. op_peers op) E T view ns s"
  shows "card {n. view s (PeerT, ns, n) \<noteq> None} \<le> card {i. \<exists>node. OpAddVertex i node \<in> set ops}"
proof -
  let ?ids = "{i. \<exists>node. OpAddVertex i node \<in> set ops}"
  have "?ids \<subseteq> (\<Union>op \<in> set ops. fst ` op_peers op)" by force
  moreover have "finite (fst ` op_peers op)" for op :: "'e graph_op" by (cases op) simp_all
  ultimately have "finite ?ids" by (rule finite_subset[OF _ finite_UN_I[OF finite_set]])
  moreover have "{n. view s (PeerT, ns, n) \<noteq> None} \<subseteq> HashNodeID ` ?ids"
    by (auto simp: op_peers_iff intro!: imageI elim!: graph_of_peerE[OF assms])
  ultimately show ?thesis by (rule surj_card_le)
qed

lemma stored_peer_named:
  assumes "l = peer_labels T i node" and "n = HashNodeID i" and "valid_label_value (T i 63)"
  shows "n = sha1_hex i \<and> l NodeIDLabel = Some (T i 63) \<and> dns1123_subdomain n \<and> length n = 40
    \<and> (\<forall>v \<in> ran l. valid_label_value v)"
  using assms peer_labels_ran[where T = T and i = i]
  by (simp add: hash_defs HashLabelValue_valid TruncateNodeID_def) (simp add: HashLabelValue_def)

lemma stored_edge_named:
  assumes "l = [EdgeSourceLabel \<mapsto> TruncateNodeID T a, EdgeTargetLabel \<mapsto> TruncateNodeID T b]"
    and "n = HashEdge a b" and "valid_label_value (T a 63)" and "valid_label_value (T b 63)"
  shows "n = sha1_hex (a @ ''-'' @ b) \<and> l EdgeSourceLabel = Some (T a 63) \<and> l EdgeTargetLabel = Some (T b 63)
    \<and> dns1123_subdomain n \<and> length n = 40 \<and> (\<forall>v \<in> ran l. valid_label_value v)"
proof -
  have "\<forall>v \<in> ran l. valid_label_value v"
    using assms(3,4) by (auto simp: assms(1) ran_def TruncateNodeID_def split: if_splits)
  with assms(1,2) show ?thesis
    by (simp add: hash_defs HashLabelValue_valid TruncateNodeID_def label_defs) (simp add: HashLabelValue_def)
qed

text \<open>
  C40. In a namespace that had no peers and edges, every peer object left by a run of graph
  operations, whichever of its calls fail, is that of a vertex the run added: it holds the node
  as it was added and is named by the SHA-1 sum of the id, in hex, which is a valid object name
  of 40 characters however long the id is. Every edge object is that of an edge the run added or
  updated and is named by the sum of both ids. All their labels have valid values, when the ids
  shortened to 63 characters do, and there are at most as many peers as ids.
\<close>

theorem graph_objects_were_added:
  assumes "kube_ns cli view ns"
    and "\<And>n. view s (PeerT, ns, n) = None" and "\<And>n. view s (MeshEdgeT, ns, n) = None"
    and "\<forall>op \<in> set ops. \<forall>i \<in> op_ids op. valid_label_value (T i 63)"
    and "s' = graph_run T To (NewGraphStore cli ns) ops s"
  shows "(\<forall>n l c. view s' (PeerT, ns, n) = Some (l, c) \<longrightarrow>
      (\<exists>i node. OpAddVertex i node \<in> set ops \<and> n = sha1_hex i \<and> l NodeIDLabel = Some (T i 63)
        \<and> c = Plain (PPeer node))
      \<and> dns1123_subdomain n \<and> length n = 40 \<and> (\<forall>v \<in> ran l. valid_label_value v))
    \<and> (\<forall>n l c. view s' (MeshEdgeT, ns, n) = Some (l, c) \<longrightarrow>
      (\<exists>a b e. (OpAddEdge a b e \<in> set ops \<or> OpUpdateEdge a b e \<in> set ops) \<and> n = sha1_hex (a @ ''-'' @ b)
        \<and> l EdgeSourceLabel = Some (T a 63) \<and> l EdgeTargetLabel = Some (T b 63)
        \<and> c = Plain (PMeshEdge (To e a b)))
      \<and> dns1123_subdomain n \<and> length n = 40 \<and> (\<forall>v \<in> ran l. valid_label_value v))
    \<and> card {n. view s' (PeerT, ns, n) \<noteq> None} \<le> card {i. \<exists>node. OpAddVertex i node \<in> set ops}"
proof -
  let ?P = "\<Union>op \<in> set ops. op_peers op" and ?E = "\<Union>op \<in> set ops. op_edges To op"
  have "graph_of ?P ?E T view ns s" unfolding graph_of_def by (simp add: assms(2,3))
  then have "graph_of ?P ?E T view ns (graph_run T To (NewGraphStore cli ns) ops s)"
    by (rule kube_ns.graph_run_of[OF assms(1)]) simp_all
  note g = this[folded assms(5)]
  note ids = assms(4)[rule_format]
  have peers: "(\<exists>i node. OpAddVertex i node \<in> set ops \<and> n = sha1_hex i \<and> l NodeIDLabel = Some (T i 63)
        \<and> c = Plain (PPeer node))
      \<and> dns1123_subdomain n \<and> length n = 40 \<and> (\<forall>v \<in> ran l. valid_label_value v)"
    if v: "view s' (PeerT, ns, n) = Some (l, c)" for n l c
  proof -
    obtain i node where i: "(i, node) \<in> ?P" "n = HashNodeID i" "l = peer_labels T i node"
      "c = Plain (PPeer node)" by (rule graph_of_peerE[OF g v])
    from i(1) have op: "OpAddVertex i node \<in> set ops" by (simp add: op_peers_iff)
    from stored_peer_named[OF i(3,2) ids[OF op]] op i(4) show ?thesis by auto
  qed
  have edges: "(\<exists>a b e. (OpAddEdge a b e \<in> set ops \<or> OpUpdateEdge a b e \<in> set ops) \<and> n = sha1_hex (a @ ''-'' @ b)
        \<and> l EdgeSourceLabel = Some (T a 63) \<and> l EdgeTargetLabel = Some (T b 63)
        \<and> c = Plain (PMeshEdge (To e a b)))
      \<and> dns1123_subdomain n \<and> length n = 40 \<and> (\<forall>v \<in> ran l. valid_label_value v)"
    if v: "view s' (MeshEdgeT, ns, n) = Some (l, c)" for n l c
  proof -
    obtain a b e where e: "(a, b, e) \<in> ?E" "n = HashEdge a b"
      "l = [EdgeSourceLabel \<mapsto> TruncateNodeID T a, EdgeTargetLabel \<mapsto> TruncateNodeID T b]"
      "c = Plain (PMeshEdge e)" by (rule graph_of_edgeE[OF g v])
    from e(1) obtain e' where op: "OpAddEdge a b e' \<in> set ops \<or> OpUpdateEdge a b e' \<in> set ops"
      and e': "e = To e' a b" by (auto simp: op_edges_iff)
    from op have "valid_label_value (T a 63)" "valid_label_value (T b 63)"
      using ids[of "OpAddEdge a b e'"] ids[of "OpUpdateEdge a b e'"] by auto
    from stored_edge_named[OF e(3,2) this] op e(4) e' show ?thesis by blast
  qed
  from peers_bounded[OF g] peers edges show ?thesis by blast
qed

text \<open>An id of more than 63 characters is the target of an edge.\<close>

theorem graph_objects_were_added_witness:
  "\<exists>s1 n l c. AddEdge (\<lambda>i n. take n i) (\<lambda>e a b. e) (NewGraphStore mem_client ''default'') ''node-a''
        (replicate 70 CHR ''b'') zero_mesh_edge mem_init = (Inr (), s1)
    \<and> mem_view s1 (MeshEdgeT, ''default'', n) = Some (l, c) \<and> dns1123_subdomain n \<and> length n = 40
    \<and> n = sha1_hex (''node-a-'' @ replicate 70 CHR ''b'') \<and> l EdgeTargetLabel = Some (replicate 63 CHR ''b'')"
proof -
  let ?T = "\<lambda>i n. take n i :: string" and ?b = "replicate 70 CHR ''b''"
  let ?ops = "[OpAddEdge ''node-a'' ?b zero_mesh_edge]" and ?o = "edge_object ?T ''default'' ''node-a'' ?b zero_mesh_edge"
  obtain s1 where s1: "PatchObject mem_client ?o mem_init = (Inr (), s1)"
    and v: "mem_view s1 = (mem_view mem_init)(key_of ?o \<mapsto> shown ?o)"
    by (rule kube_server.PatchObject_up[OF mem.kube_server_axioms mem_up_init mem_admits_graph(2)])
  have run: "s1 = graph_run ?T (\<lambda>e a b. e) (NewGraphStore mem_client ''default'') ?ops mem_init"
    using s1 by (simp add: AddEdge_def)
  have ids: "\<forall>op \<in> set ?ops. \<forall>i \<in> op_ids op. valid_label_value (?T i 63)"
    by (simp add: valid_label_value_def is_alnum_def is_upper_def)
  obtain l c where e: "mem_view s1 (MeshEdgeT, ''default'', HashEdge ''node-a'' ?b) = Some (l, c)"
    by (simp add: v)
  from graph_objects_were_added[OF mem_kube_ns _ _ ids run] e
  have "dns1123_subdomain (HashEdge ''node-a'' ?b) \<and> length (HashEdge ''node-a'' ?b) = 40
    \<and> HashEdge ''node-a'' ?b = sha1_hex (''node-a-'' @ ?b) \<and> l EdgeTargetLabel = Some (take 63 ?b)"
    by fastforce
  with s1 e show ?thesis by (fastforce simp: AddEdge_def)
qed

end
