(* ===== verification/MeshStateDb.thy ===== *)
theory MeshStateDb
  imports MemApi
begin

text \<open>
  \<open>provider/database/meshstate.go\<close>: the state of the mesh, one object with a fixed name. It is
  read with a get, and written by a get of the current object and a server-side apply of it
  with the message replaced. The reads are refused until a domain and a network are set.
\<close>

record 's mesh_state =
  ms_cli :: "'s client"
  ms_namespace :: string

definition NewMeshState :: "'s client \<Rightarrow> string \<Rightarrow> 's mesh_state" where
  "NewMeshState cli namespace = \<lparr>ms_cli = cli, ms_namespace = namespace\<rparr>"

definition MeshStateConfigName :: string where
  "MeshStateConfigName = ''webmesh-mesh-state''"

definition empty_state_object :: "string \<Rightarrow> kobject" where
  "empty_state_object namespace =
     \<lparr>ko_type = MeshStateTypeMeta,
      ko_meta = zero_object_meta\<lparr>om_namespace := namespace, om_name := MeshStateConfigName\<rparr>,
      ko_payload = PMeshState zero_network_state\<rparr>"

definition fetchState :: "'s mesh_state \<Rightarrow> ('s, kobject) act" where
  "fetchState st s =
     (case api_get (ms_cli st) MeshStateT (ms_namespace st) MeshStateConfigName s of
        (Inl err, s') \<Rightarrow>
          (if IgnoreNotFound err = None then (Inr (empty_state_object (ms_namespace st)), s')
           else (Inl (Wrap ''fetch mesh state'' err), s'))
      | (Inr state, s') \<Rightarrow> (Inr (state\<lparr>ko_type := MeshStateTypeMeta\<rparr>), s'))"

definition SetMeshState :: "'s mesh_state \<Rightarrow> network_state \<Rightarrow> ('s, unit) act" where
  "SetMeshState st state s =
     (case fetchState st s of
        (Inl err, s') \<Rightarrow> (Inl err, s')
      | (Inr currentState, s') \<Rightarrow>
          PatchObject (ms_cli st) (currentState\<lparr>ko_payload := PMeshState state\<rparr>) s')"

definition GetMeshState :: "'s mesh_state \<Rightarrow> ('s, network_state) act" where
  "GetMeshState st s =
     (case fetchState st s of
        (Inl err, s') \<Rightarrow> (Inl err, s')
      | (Inr state, s') \<Rightarrow>
          (let ns = as_mesh_state (ko_payload state)
           in if ns_domain ns = [] then (Inl (ErrKeyNotFound ''mesh domain''), s')
              else if ns_networkV4 ns = [] \<and> ns_networkV6 ns = []
              then (Inl (ErrKeyNotFound ''mesh network''), s')
              else (Inr ns, s')))"

subsection \<open>What is stored\<close>

text \<open>The message the namespace holds: the zero value while there is no object.\<close>

definition mesh_state_content ::
    "('s \<Rightarrow> objkey \<Rightarrow> stored option) \<Rightarrow> string \<Rightarrow> 's \<Rightarrow> network_state" where
  "mesh_state_content view ns s =
     (case named_content as_mesh_state MeshStateT view ns s MeshStateConfigName of
        None \<Rightarrow> zero_network_state | Some x \<Rightarrow> x)"

text \<open>What a reader is told of a message.\<close>

fun readable_state :: "network_state \<Rightarrow> goerr + network_state" where
  "readable_state ns =
     (if ns_domain ns = [] then Inl (ErrKeyNotFound ''mesh domain'')
      else if ns_networkV4 ns = [] \<and> ns_networkV6 ns = [] then Inl (ErrKeyNotFound ''mesh network'')
      else Inr ns)"

lemma NewMeshState_simps [simp]:
  "ms_cli (NewMeshState cli ns) = cli" "ms_namespace (NewMeshState cli ns) = ns"
  by (simp_all add: NewMeshState_def)

lemma empty_state_object_simps [simp]:
  "key_of (empty_state_object ns) = (MeshStateT, ns, MeshStateConfigName)"
  "ko_type (empty_state_object ns) = MeshStateTypeMeta"
  "ko_payload (empty_state_object ns) = PMeshState zero_network_state"
  by (simp_all add: empty_state_object_def)

context kube_ns begin

lemma fetchState_done:
  assumes "fetchState (NewMeshState cli ns) s = (Inr obj, s')"
  shows "key_of obj = (MeshStateT, ns, MeshStateConfigName)" and "ko_type obj = MeshStateTypeMeta"
    and "as_mesh_state (ko_payload obj) = mesh_state_content view ns s" and "view s' = view s"
proof -
  have "key_of obj = (MeshStateT, ns, MeshStateConfigName) \<and> ko_type obj = MeshStateTypeMeta
    \<and> as_mesh_state (ko_payload obj) = mesh_state_content view ns s \<and> view s' = view s"
  proof (cases "api_get cli MeshStateT ns MeshStateConfigName s")
    case (Pair r s1)
    note frame = get_frame[OF Pair]
    show ?thesis
    proof (cases r)
      case (Inl e)
      with assms Pair have e: "is_not_found e" "obj = empty_state_object ns" "s1 = s'"
        by (auto simp: fetchState_def split: if_splits)
      with get_absent[of MeshStateT ns MeshStateConfigName s e s1] Pair Inl frame show ?thesis
        by (simp add: mesh_state_content_def named_content_def)
    next
      case (Inr x)
      with assms Pair have e: "obj = x\<lparr>ko_type := MeshStateTypeMeta\<rparr>" "s1 = s'"
        by (auto simp: fetchState_def)
      with get_found[of MeshStateT ns MeshStateConfigName s x s1] Pair Inr frame
        get_content[of MeshStateT MeshStateConfigName s x s1 as_mesh_state]
      show ?thesis by (simp add: mesh_state_content_def key_of_def)
    qed
  qed
  then show "key_of obj = (MeshStateT, ns, MeshStateConfigName)" "ko_type obj = MeshStateTypeMeta"
    "as_mesh_state (ko_payload obj) = mesh_state_content view ns s" "view s' = view s" by blast+
qed

lemma SetMeshState_done:
  assumes "SetMeshState (NewMeshState cli ns) x s = (Inr u, s')"
  shows "mesh_state_content view ns s' = x"
proof -
  obtain obj s1 where obj: "fetchState (NewMeshState cli ns) s = (Inr obj, s1)"
    "PatchObject cli (obj\<lparr>ko_payload := PMeshState x\<rparr>) s1 = (Inr u, s')"
    using assms by (auto simp: SetMeshState_def split: prod.splits sum.splits)
  have "key_of (obj\<lparr>ko_payload := PMeshState x\<rparr>) = (MeshStateT, ns, MeshStateConfigName)"
    using fetchState_done(1)[OF obj(1)] by (simp add: key_of_def)
  from put_content[OF obj(2) this, where as = as_mesh_state] show ?thesis
    by (simp add: mesh_state_content_def)
qed

lemma SetMeshState_failed:
  assumes "SetMeshState (NewMeshState cli ns) x s = (Inl e, s')"
  shows "mesh_state_content view ns s' \<in> {mesh_state_content view ns s, x}"
proof (cases "fetchState (NewMeshState cli ns) s")
  case (Pair r s1)
  show ?thesis
  proof (cases r)
    case (Inl e1)
    with assms Pair have "s' = s1" by (simp add: SetMeshState_def)
    moreover have "view s1 = view s"
    proof (cases "api_get cli MeshStateT ns MeshStateConfigName s")
      case (Pair r' s2)
      with get_frame[OF this] \<open>fetchState _ s = (r, s1)\<close> show ?thesis
        by (auto simp: fetchState_def split: sum.splits if_splits)
    qed
    ultimately show ?thesis by (simp add: mesh_state_content_def named_content_def)
  next
    case (Inr obj)
    note f = fetchState_done[of s obj s1]
    from Inr assms Pair have p: "PatchObject cli (obj\<lparr>ko_payload := PMeshState x\<rparr>) s1 = (Inl e, s')"
      by (simp add: SetMeshState_def)
    have "key_of (obj\<lparr>ko_payload := PMeshState x\<rparr>) = (MeshStateT, ns, MeshStateConfigName)"
      using f(1) Pair Inr by (simp add: key_of_def)
    from put_content_failed[OF p this, where as = as_mesh_state]
      named_content_cong[of view s1 s as_mesh_state MeshStateT ns] f(4) Pair Inr show ?thesis
      by (auto simp: mesh_state_content_def)
  qed
qed

lemma GetMeshState_done:
  assumes "GetMeshState (NewMeshState cli ns) s = (Inr x, s')"
  shows "readable_state (mesh_state_content view ns s) = Inr x"
proof -
  obtain obj where "fetchState (NewMeshState cli ns) s = (Inr obj, s')"
    using assms by (auto simp: GetMeshState_def Let_def split: prod.splits sum.splits if_splits)
  with assms fetchState_done(3)[of s obj s'] show ?thesis
    by (auto simp: GetMeshState_def Let_def split: if_splits)
qed

end

context kube_ns_server begin

lemma fetchState_up:
  assumes "up s"
  obtains obj s' where "fetchState (NewMeshState cli ns) s = (Inr obj, s')" and "up s'"
  by (cases rule: get_live[OF assms, of MeshStateT MeshStateConfigName as_mesh_state])
    (auto simp: fetchState_def intro: that)

lemma GetMeshState_up:
  assumes "up s"
  obtains s' where "GetMeshState (NewMeshState cli ns) s = (readable_state (mesh_state_content view ns s), s')"
    and "up s'"
proof -
  obtain obj s' where obj: "fetchState (NewMeshState cli ns) s = (Inr obj, s')" "up s'"
    by (rule fetchState_up[OF assms])
  with fetchState_done(3)[OF obj(1)]
  have "GetMeshState (NewMeshState cli ns) s = (readable_state (mesh_state_content view ns s), s')"
    by (simp add: GetMeshState_def Let_def)
  with obj(2) that show ?thesis by blast
qed

lemma SetMeshState_up:
  assumes "up s"
    and "\<And>obj. key_of obj = (MeshStateT, ns, MeshStateConfigName) \<Longrightarrow> ko_type obj = MeshStateTypeMeta \<Longrightarrow>
      ko_payload obj = PMeshState x \<Longrightarrow> admissible obj"
  obtains s' where "SetMeshState (NewMeshState cli ns) x s = (Inr (), s')" and "up s'"
proof -
  obtain obj s1 where obj: "fetchState (NewMeshState cli ns) s = (Inr obj, s1)" "up s1"
    by (rule fetchState_up[OF assms(1)])
  let ?o = "obj\<lparr>ko_payload := PMeshState x\<rparr>"
  have "key_of ?o = (MeshStateT, ns, MeshStateConfigName)" "ko_type ?o = MeshStateTypeMeta"
    using fetchState_done(1,2)[OF obj(1)] by (simp_all add: key_of_def)
  then have "admissible (StripPatchMeta ?o)" by (intro assms(2)) simp_all
  then obtain s' where "PatchObject cli ?o s1 = (Inr (), s')" "up s'"
    by (rule PatchObject_up[OF obj(2)])
  with obj that show ?thesis by (simp add: SetMeshState_def)
qed

lemma set_get_live:
  assumes "up s"
    and "\<And>obj. key_of obj = (MeshStateT, ns, MeshStateConfigName) \<Longrightarrow> ko_type obj = MeshStateTypeMeta \<Longrightarrow>
      ko_payload obj = PMeshState x \<Longrightarrow> admissible obj"
  shows "\<exists>s1 s2. SetMeshState (NewMeshState cli ns) x s = (Inr (), s1)
    \<and> GetMeshState (NewMeshState cli ns) s1 = (readable_state x, s2)"
proof -
  obtain s1 where s1: "SetMeshState (NewMeshState cli ns) x s = (Inr (), s1)" "up s1"
    by (rule SetMeshState_up[OF assms])
  obtain s2 where "GetMeshState (NewMeshState cli ns) s1
      = (readable_state (mesh_state_content view ns s1), s2)"
    by (rule GetMeshState_up[OF s1(2)])
  with s1(1) SetMeshState_done[OF s1(1)] show ?thesis by auto
qed

end

subsection \<open>Writing and reading the state\<close>

lemma valid_state_name: "dns1123_subdomain MeshStateConfigName"
  by (simp add: MeshStateConfigName_def dns1123_subdomain_def dns1123_part_def is_lower_alnum_def
      is_alnum_def is_upper_def)

lemma mem_admits_state:
  "key_of obj = (MeshStateT, ns, MeshStateConfigName) \<Longrightarrow> ko_type obj = MeshStateTypeMeta \<Longrightarrow>
     ko_payload obj = PMeshState x \<Longrightarrow> mem_admits obj"
  by (simp add: mem_admits_def key_of_def valid_state_name type_meta_defs gv_String_def GroupVersion_def
      as_secret_def)

text \<open>
  C38. With a server that answers and admits the object, a state that was set is read back: the
  read returns it when it has a domain and a network, and otherwise the not-found error that
  says which of the two is missing.
\<close>

theorem set_get_mesh_state:
  assumes "kube_ns_server cli view up admissible ns" and "up s"
    and "\<And>obj. key_of obj = (MeshStateT, ns, MeshStateConfigName) \<Longrightarrow> ko_type obj = MeshStateTypeMeta \<Longrightarrow>
      ko_payload obj = PMeshState x \<Longrightarrow> admissible obj"
  shows "\<exists>s1 s2. SetMeshState (NewMeshState cli ns) x s = (Inr (), s1)
    \<and> GetMeshState (NewMeshState cli ns) s1 =
        (if ns_domain x = [] then Inl (ErrKeyNotFound ''mesh domain'')
          else if ns_networkV4 x = [] \<and> ns_networkV6 x = [] then Inl (ErrKeyNotFound ''mesh network'')
          else Inr x, s2)"
  using kube_ns_server.set_get_live[OF assms] by (simp only: readable_state.simps)

theorem set_get_mesh_state_witness:
  "\<exists>s1 s2. SetMeshState (NewMeshState mem_client ''default'')
      \<lparr>ns_networkV4 = ''172.16.0.0/12'', ns_networkV6 = [], ns_domain = ''webmesh.internal.''\<rparr> mem_init
      = (Inr (), s1)
    \<and> GetMeshState (NewMeshState mem_client ''default'') s1 =
        (Inr \<lparr>ns_networkV4 = ''172.16.0.0/12'', ns_networkV6 = [], ns_domain = ''webmesh.internal.''\<rparr>, s2)"
  using set_get_mesh_state[OF mem_kube_ns_server mem_up_init mem_admits_state,
    of "\<lparr>ns_networkV4 = ''172.16.0.0/12'', ns_networkV6 = [], ns_domain = ''webmesh.internal.''\<rparr>"]
  by simp

end
