(* ===== verification/Database.thy ===== *)
theory Database
  imports Rbac Networking GraphStore MeshStateDb
begin

text \<open>
  \<open>provider/database/database.go\<close>: the database ties the graph, the RBAC, the mesh state and
  the networking stores together, and its controller tells the subscribers of the graph about
  changed peers. The controller reconciles the peers themselves and, through two map functions,
  the peers that the labels of a changed route or edge name. The mesh database of webmesh that
  \<open>New\<close> wraps around it and the controller builder are not part of the repository.
\<close>

record tcp_addr =
  tcp_ip :: addr
  tcp_port :: int

record options =
  opt_NodeID :: string
  opt_Namespace :: string
  opt_ListenAddr :: tcp_addr

record 's database =
  db_cli :: "'s client"
  db_laddr :: tcp_addr
  db_graph :: "'s graph_store"
  db_rbac :: "'s rbac"
  db_state :: "'s mesh_state"
  db_network :: "'s networking"

definition NewFromClient :: "'s client \<Rightarrow> options \<Rightarrow> 's database" where
  "NewFromClient cli opts =
     \<lparr>db_cli = cli,
      db_laddr = opt_ListenAddr opts,
      db_graph = NewGraphStore cli (opt_Namespace opts),
      db_rbac = NewRBAC cli (opt_Namespace opts),
      db_state = NewMeshState cli (opt_Namespace opts),
      db_network = NewNetworking cli (opt_Namespace opts)\<rparr>"

text \<open>
  \<open>NewDB\<close> also registers the controller under its name, which may fail; \<open>New\<close> wraps the result in
  webmesh's mesh database too, which is left out.
\<close>

definition NewDB :: "(string \<Rightarrow> goerr + unit) \<Rightarrow> 's client \<Rightarrow> options \<Rightarrow> goerr + 's database" where
  "NewDB complete cli opts =
     (let db = NewFromClient cli opts
      in case complete ''meshdb-k8s'' of
           Inl err \<Rightarrow> Inl (Wrap ''register controller'' err)
         | Inr _ \<Rightarrow> Inr db)"

definition New_database :: "(string \<Rightarrow> goerr + unit) \<Rightarrow> 's client \<Rightarrow> options \<Rightarrow> goerr + 's database" where
  "New_database complete cli opts =
     (case NewDB complete cli opts of Inl err \<Rightarrow> Inl err | Inr db \<Rightarrow> Inr db)"

subsection \<open>The controller\<close>

text \<open>The map function of the watch on routes.\<close>

definition route_requests :: "string \<Rightarrow> kobject \<Rightarrow> request list" where
  "route_requests namespace o' =
     (case om_labels (ko_meta o') RouteNodeLabel of
        Some peerID \<Rightarrow>
          (if peerID \<noteq> [] then [\<lparr>req_Namespace = namespace, req_Name = peerID\<rparr>] else [])
      | None \<Rightarrow> [])"

text \<open>The map function of the watch on edges: its source first, then its target.\<close>

definition label_request :: "string \<Rightarrow> kobject \<Rightarrow> string \<Rightarrow> request list" where
  "label_request namespace o' lbl =
     (case om_labels (ko_meta o') lbl of
        Some peerID \<Rightarrow>
          (if peerID \<noteq> [] then [\<lparr>req_Namespace = namespace, req_Name = peerID\<rparr>] else [])
      | None \<Rightarrow> [])"

definition edge_requests :: "string \<Rightarrow> kobject \<Rightarrow> request list" where
  "edge_requests namespace o' =
     label_request namespace o' EdgeSourceLabel @ label_request namespace o' EdgeTargetLabel"

text \<open>
  The loop over the subscriptions. A call of a subscriber's function is the number of the
  function with its argument; the order of the list is that of Go's range over the map, in
  which the entry being visited may be deleted.
\<close>

type_synonym notification = "nat \<times> mesh_node list"

fun notify_subs ::
    "runtime \<Rightarrow> mesh_node \<Rightarrow> (string \<times> subscription) list \<Rightarrow> (string \<times> subscription) list
      \<Rightarrow> notification list \<times> (string \<times> subscription) list" where
  "notify_subs rt node [] subs = ([], subs)"
| "notify_subs rt node ((i, sub) # rest) subs =
     (if ctx_done rt (sub_ctx sub) then notify_subs rt node rest (AList.delete i subs)
      else (let (calls, subs') = notify_subs rt node rest subs
            in ((sub_fn sub, [node]) # calls, subs')))"

definition Database_Reconcile ::
    "runtime \<Rightarrow> 's database \<Rightarrow> request \<Rightarrow> 's
      \<Rightarrow> (goerr + unit) \<times> notification list \<times> 's database \<times> 's" where
  "Database_Reconcile rt db req s =
     (case api_get (gs_cli (db_graph db)) PeerT (req_Namespace req) (req_Name req) s of
        (r, s') \<Rightarrow>
          (let notify = (\<lambda>node.
                 case notify_subs rt node (gs_subs (db_graph db)) (gs_subs (db_graph db)) of
                   (calls, subs) \<Rightarrow>
                     (Inr (), calls, db\<lparr>db_graph := (db_graph db)\<lparr>gs_subs := subs\<rparr>\<rparr>, s'))
           in case r of
                Inl err \<Rightarrow>
                  (if IgnoreNotFound err \<noteq> None then (Inl (Wrap ''get peer'' err), [], db, s')
                   else notify (zero_mesh_node\<lparr>mn_id := req_Name req\<rparr>))
              | Inr peer \<Rightarrow> notify (as_peer (ko_payload peer))))"

definition Database_Subscribe ::
    "goerr + string \<Rightarrow> ctx \<Rightarrow> nat \<Rightarrow> 's database \<Rightarrow> runtime \<Rightarrow> (goerr + nat) \<times> 's database \<times> runtime" where
  "Database_Subscribe uuid c fn db rt =
     (case Graph_Subscribe uuid c fn (db_graph db) rt of
        (r, g, rt') \<Rightarrow> (r, db\<lparr>db_graph := g\<rparr>, rt'))"

text \<open>The loop of \<open>Close\<close>: every subscription is cancelled and deleted.\<close>

fun close_subs :: "(string \<times> subscription) list \<Rightarrow> (string \<times> subscription) list \<Rightarrow> runtime
      \<Rightarrow> (string \<times> subscription) list \<times> runtime" where
  "close_subs [] subs rt = (subs, rt)"
| "close_subs ((i, sub) # rest) subs rt =
     close_subs rest (AList.delete i subs) (cancel_ctx (sub_cancel sub) rt)"

definition Database_Close :: "'s database \<Rightarrow> runtime \<Rightarrow> (goerr + unit) \<times> 's database \<times> runtime" where
  "Database_Close db rt =
     (case close_subs (gs_subs (db_graph db)) (gs_subs (db_graph db)) rt of
        (subs, rt') \<Rightarrow> (Inr (), db\<lparr>db_graph := (db_graph db)\<lparr>gs_subs := subs\<rparr>\<rparr>, rt'))"

subsection \<open>Peers by address\<close>

definition GetPeerByIPv4Addr :: "'s database \<Rightarrow> prefix \<Rightarrow> ('s, mesh_node) act" where
  "GetPeerByIPv4Addr db addr s =
     (case api_list (db_cli db) PeerT (gs_namespace (db_graph db))
             [(NodeIPv4Label, HashLabelValue (prefix_String addr))] s of
        (Inl err, s') \<Rightarrow> (Inl (Wrap ''list peers'' err), s')
      | (Inr [], s') \<Rightarrow> (Inl ErrNodeNotFound, s')
      | (Inr (peer # _), s') \<Rightarrow> (Inr (as_peer (ko_payload peer)), s'))"

definition GetPeerByIPv6Addr :: "'s database \<Rightarrow> prefix \<Rightarrow> ('s, mesh_node) act" where
  "GetPeerByIPv6Addr db addr s =
     (case api_list (db_cli db) PeerT (gs_namespace (db_graph db))
             [(NodeIPv6Label, HashLabelValue (prefix_String addr))] s of
        (Inl err, s') \<Rightarrow> (Inl (Wrap ''list peers'' err), s')
      | (Inr [], s') \<Rightarrow> (Inl ErrNodeNotFound, s')
      | (Inr (peer # _), s') \<Rightarrow> (Inr (as_peer (ko_payload peer)), s'))"

subsection \<open>What the loops do\<close>

lemma NewFromClient_simps [simp]:
  "db_cli (NewFromClient cli opts) = cli"
  "db_graph (NewFromClient cli opts) = NewGraphStore cli (opt_Namespace opts)"
  by (simp_all add: NewFromClient_def)

definition live_subs :: "runtime \<Rightarrow> (string \<times> subscription) list \<Rightarrow> (string \<times> subscription) list" where
  "live_subs rt subs = filter (\<lambda>(i, sub). \<not> ctx_done rt (sub_ctx sub)) subs"

lemma notify_subs_calls:
  "fst (notify_subs rt node ents subs) = map (\<lambda>(i, sub). (sub_fn sub, [node])) (live_subs rt ents)"
  by (induction rt node ents subs rule: notify_subs.induct)
    (simp_all add: live_subs_def Let_def case_prod_unfold)

lemma notify_subs_left:
  "snd (notify_subs rt node ents subs) =
     filter (\<lambda>(i, sub). i \<notin> fst ` {(j, x) \<in> set ents. ctx_done rt (sub_ctx x)}) subs"
proof (induction rt node ents subs rule: notify_subs.induct)
  case (2 rt node i sub rest subs)
  show ?case
  proof (cases "ctx_done rt (sub_ctx sub)")
    case True
    with 2(1) show ?thesis
      by (auto simp: AList.delete_eq filter_filter image_iff intro!: filter_cong)
  next
    case False
    then have "{(j, x) \<in> set ((i, sub) # rest). ctx_done rt (sub_ctx x)}
        = {(j, x) \<in> set rest. ctx_done rt (sub_ctx x)}" by auto
    with 2(2)[OF False] False show ?thesis by (simp add: Let_def case_prod_unfold)
  qed
qed simp

lemma notify_subs_self:
  assumes "distinct (map fst subs)"
  shows "notify_subs rt node subs subs =
     (map (\<lambda>(i, sub). (sub_fn sub, [node])) (live_subs rt subs), live_subs rt subs)"
proof -
  have "i \<notin> fst ` {(j, x) \<in> set subs. ctx_done rt (sub_ctx x)} \<longleftrightarrow> \<not> ctx_done rt (sub_ctx sub)"
    if "(i, sub) \<in> set subs" for i sub
    using that assms by (force simp: image_iff dest: eq_key_imp_eq_value)
  then have "snd (notify_subs rt node subs subs) = live_subs rt subs"
    unfolding notify_subs_left live_subs_def by (intro filter_cong) auto
  then show ?thesis by (metis notify_subs_calls prod.collapse)
qed

lemma close_subs_left:
  "x \<in> set (fst (close_subs ents subs rt)) \<Longrightarrow> x \<in> set subs \<and> fst x \<notin> fst ` set ents"
  by (induction ents subs rt rule: close_subs.induct) (auto simp: AList.delete_eq)

lemma close_subs_cancelled:
  "rt_cancelled (snd (close_subs ents subs rt)) =
     rev (map (\<lambda>(i, sub). sub_cancel sub) ents) @ rt_cancelled rt"
  by (induction ents subs rt rule: close_subs.induct) (auto simp: cancel_ctx_def)

lemma NewDB_subs_distinct:
  assumes "distinct (map fst (gs_subs (db_graph db)))" and "Database_Subscribe uuid c fn db rt = (r, db', rt')"
  shows "distinct (map fst (gs_subs (db_graph db')))"
  using assms
  by (auto simp: Database_Subscribe_def Graph_Subscribe_def WithCancel_def distinct_update split: sum.splits)

context kube_ns begin

lemma Reconcile_notifies:
  assumes "Database_Reconcile rt db req s = (Inr (), calls, db', s')"
    and "gs_cli (db_graph db) = cli" and "req_Namespace req = ns"
    and "distinct (map fst (gs_subs (db_graph db)))"
  shows "calls = map (\<lambda>(i, sub). (sub_fn sub,
      [case named_content as_peer PeerT view ns s (req_Name req) of
         Some node \<Rightarrow> node | None \<Rightarrow> zero_mesh_node\<lparr>mn_id := req_Name req\<rparr>]))
        (live_subs rt (gs_subs (db_graph db)))
    \<and> gs_subs (db_graph db') = live_subs rt (gs_subs (db_graph db)) \<and> view s' = view s"
proof (cases "api_get cli PeerT ns (req_Name req) s")
  case (Pair r s1)
  note frame = get_frame[OF Pair] and subs = notify_subs_self[OF assms(4)]
  show ?thesis
  proof (cases r)
    case (Inl e)
    with Pair assms(1-3) have "is_not_found e" by (auto simp: Database_Reconcile_def split: if_splits)
    with get_content_absent[OF Pair[unfolded Inl], of as_peer] Pair Inl assms(1-3) frame subs show ?thesis
      by (auto simp: Database_Reconcile_def)
  next
    case (Inr obj)
    with get_content[OF Pair[unfolded Inr], of as_peer] Pair assms(1-3) frame subs show ?thesis
      by (auto simp: Database_Reconcile_def)
  qed
qed

end

context kube_ns_server begin

lemma Reconcile_live:
  assumes "up s" and "gs_cli (db_graph db) = cli" and "req_Namespace req = ns"
  shows "\<exists>calls db' s'. Database_Reconcile rt db req s = (Inr (), calls, db', s') \<and> up s'"
  by (cases rule: get_live[OF assms(1), of PeerT "req_Name req" as_peer])
    (auto simp: Database_Reconcile_def assms split: prod.split)

text \<open>
  An event of an edge, told to the subscribers: the request carries the id of the label, under
  which no peer is stored, as peers are named by the hash of their id.
\<close>

lemma edge_event_misses_peer:
  assumes "up s" and "gs_cli (db_graph db) = cli" and "distinct (map fst (gs_subs (db_graph db)))"
    and "view s (PeerT, ns, HashNodeID i) = Some (peer_labels T i node, Plain (PPeer node))"
    and "graph_wf T view ns s" and "length (TruncateNodeID T i) \<noteq> 40" and "TruncateNodeID T i \<noteq> []"
  shows "\<exists>calls db' s'. Database_Reconcile rt db
      (hd (edge_requests ns (edge_object T ns i j e))) s = (Inr (), calls, db', s')
    \<and> (\<forall>(fn, nodes) \<in> set calls. nodes = [zero_mesh_node\<lparr>mn_id := TruncateNodeID T i\<rparr>])
    \<and> length calls = length (live_subs rt (gs_subs (db_graph db)))"
proof -
  let ?req = "\<lparr>req_Namespace = ns, req_Name = TruncateNodeID T i\<rparr>"
  have req: "hd (edge_requests ns (edge_object T ns i j e)) = ?req"
    using assms(7) by (simp add: edge_requests_def label_request_def edge_object_def)
  have "view s (PeerT, ns, TruncateNodeID T i) = None"
  proof (rule ccontr)
    assume "view s (PeerT, ns, TruncateNodeID T i) \<noteq> None"
    then obtain l c where "view s (PeerT, ns, TruncateNodeID T i) = Some (l, c)" by auto
    with assms(5) obtain k where "TruncateNodeID T i = HashNodeID k" unfolding graph_wf_def by blast
    then have "length (TruncateNodeID T i) = 40" by (simp add: HashNodeID_def)
    with assms(6) show False by simp
  qed
  then have none: "named_content as_peer PeerT view ns s (TruncateNodeID T i) = None"
    by (simp add: named_content_def)
  obtain calls db' s' where r: "Database_Reconcile rt db ?req s = (Inr (), calls, db', s')"
    using Reconcile_live[OF assms(1,2), where req = ?req and rt = rt] by auto
  from Reconcile_notifies[OF r assms(2) _ assms(3)] none
  have "calls = map (\<lambda>(i', sub). (sub_fn sub, [zero_mesh_node\<lparr>mn_id := TruncateNodeID T i\<rparr>]))
      (live_subs rt (gs_subs (db_graph db)))" by simp
  with r req show ?thesis by auto
qed

text \<open>A lookup by address finds a node stored with that address.\<close>

lemma GetPeerByIPv4Addr_found:
  assumes "up s" and "gs_namespace (db_graph db) = ns" and "db_cli db = cli" and "graph_wf T view ns s"
    and "view s (PeerT, ns, n) = Some (peer_labels T i node, Plain (PPeer node))"
    and "mn_privateIPv4 node = prefix_String addr" and "prefix_String addr \<noteq> []"
  shows "\<exists>j node' s'. GetPeerByIPv4Addr db addr s = (Inr node', s')
    \<and> view s (PeerT, ns, HashNodeID j) = Some (peer_labels T j node', Plain (PPeer node'))
    \<and> HashLabelValue (mn_privateIPv4 node') = HashLabelValue (prefix_String addr)"
proof -
  let ?sel = "[(NodeIPv4Label, HashLabelValue (prefix_String addr))]"
  obtain objs s' where objs: "api_list cli PeerT ns ?sel s = (Inr objs, s')"
    using up_list[OF assms(1)] by blast
  have "matching_labels ?sel (peer_labels T i node)" using assms(6,7) by simp
  then have "(PeerT, ns, n) \<in> key_of ` set objs"
    using list_complete[OF objs assms(5)] ns_nonempty by simp
  then obtain peer rest where o: "objs = peer # rest" by (cases objs) auto
  then have p: "peer \<in> set objs" by simp
  have sel: "gvk_of (ko_payload peer) = PeerT" "om_namespace (ko_meta peer) = ns"
    "om_labels (ko_meta peer) NodeIPv4Label = Some (HashLabelValue (prefix_String addr))"
    and v: "view s (key_of peer) = Some (shown peer)"
    using list_sound[OF objs p] ns_nonempty unfolding selected_def by auto
  have k: "key_of peer = (PeerT, ns, om_name (ko_meta peer))" by (simp only: key_of_def sel)
  from v have "view s (PeerT, ns, om_name (ko_meta peer)) = Some (shown peer)" by (simp only: k)
  with assms(4) obtain j node' where j: "om_name (ko_meta peer) = HashNodeID j"
    "om_labels (ko_meta peer) = peer_labels T j node'" "content_of (ko_payload peer) = Plain (PPeer node')"
    unfolding graph_wf_def shown_def by blast
  then have "as_peer (ko_payload peer) = node'" by simp
  moreover have "HashLabelValue (mn_privateIPv4 node') = HashLabelValue (prefix_String addr)"
    using sel(3) j(2) HashLabelValue_nonempty[symmetric] by (auto split: if_splits)
  moreover have "view s (PeerT, ns, HashNodeID j) = Some (peer_labels T j node', Plain (PPeer node'))"
    using v unfolding k j(1) shown_def j(2,3) .
  ultimately show ?thesis using objs o assms(2,3) by (auto simp: GetPeerByIPv4Addr_def)
qed

end

text \<open>After \<open>Close\<close> there is nobody to notify, and every derived context is cancelled.\<close>

lemma Close_subs:
  assumes "Database_Close db rt = (r, db', rt')"
  shows "gs_subs (db_graph db') = []" and "r = Inr ()"
    and "\<forall>(i, sub) \<in> set (gs_subs (db_graph db)). sub_cancel sub \<in> set (rt_cancelled rt')"
proof -
  let ?subs = "gs_subs (db_graph db)"
  have c: "r = Inr ()" "gs_subs (db_graph db') = fst (close_subs ?subs ?subs rt)"
    "rt' = snd (close_subs ?subs ?subs rt)"
    using assms by (auto simp: Database_Close_def split: prod.splits)
  show "r = Inr ()" by (rule c)
  have "x \<notin> set (fst (close_subs ?subs ?subs rt))" for x
    using close_subs_left[of x ?subs ?subs rt] by auto
  then have "set (fst (close_subs ?subs ?subs rt)) = {}" using subset_empty by (intro equals0I) blast
  then show "gs_subs (db_graph db') = []" using c(2) by simp
  show "\<forall>(i, sub) \<in> set ?subs. sub_cancel sub \<in> set (rt_cancelled rt')"
    unfolding c(3) close_subs_cancelled by force
qed

subsection \<open>What the database tells its users\<close>

text \<open>
  A reconcile that succeeds calls every subscriber whose context is still live exactly
  once, with the stored node of the peer, or with a node that has only the name of the request
  when there is no such peer, and forgets the others; it changes nothing on the server.
\<close>

theorem reconcile_notifies_live_subscribers:
  assumes "kube_ns cli view ns"
    and "Database_Reconcile rt db req s = (Inr (), calls, db', s')"
    and "gs_cli (db_graph db) = cli" and "req_Namespace req = ns"
    and "distinct (map fst (gs_subs (db_graph db)))"
  shows "calls = map (\<lambda>(i, sub). (sub_fn sub,
      [case named_content as_peer PeerT view ns s (req_Name req) of
         Some node \<Rightarrow> node | None \<Rightarrow> zero_mesh_node\<lparr>mn_id := req_Name req\<rparr>]))
        (filter (\<lambda>(i, sub). \<not> ctx_done rt (sub_ctx sub)) (gs_subs (db_graph db)))
    \<and> gs_subs (db_graph db') = filter (\<lambda>(i, sub). \<not> ctx_done rt (sub_ctx sub)) (gs_subs (db_graph db))
    \<and> view s' = view s"
  using kube_ns.Reconcile_notifies[OF assms] by (simp only: live_subs_def)

definition example_db :: "mem_state database" where
  "example_db = (NewFromClient mem_client
       \<lparr>opt_NodeID = ''node-a'', opt_Namespace = ''default'', opt_ListenAddr = \<lparr>tcp_ip = Addr4 0, tcp_port = 8443\<rparr>\<rparr>)
     \<lparr>db_graph := (NewGraphStore mem_client ''default'')\<lparr>gs_subs :=
        [(''1'', \<lparr>sub_ctx = Derived Background 0, sub_fn = 7, sub_cancel = 0\<rparr>),
         (''2'', \<lparr>sub_ctx = Derived Background 1, sub_fn = 8, sub_cancel = 1\<rparr>)]\<rparr>\<rparr>"

lemma example_db_simps [simp]:
  "gs_cli (db_graph example_db) = mem_client" "db_cli example_db = mem_client"
  "gs_namespace (db_graph example_db) = ''default''"
  "distinct (map fst (gs_subs (db_graph example_db)))"
  by (simp_all add: example_db_def)

theorem reconcile_notifies_live_subscribers_witness:
  "\<exists>db' s'. Database_Reconcile \<lparr>rt_cancelled = [0], rt_next = 2\<rparr> example_db
      \<lparr>req_Namespace = ''default'', req_Name = ''x''\<rparr> mem_init
      = (Inr (), [(8, [zero_mesh_node\<lparr>mn_id := ''x''\<rparr>])], db', s')"
proof -
  let ?rt = "\<lparr>rt_cancelled = [0], rt_next = 2\<rparr>" and ?req = "\<lparr>req_Namespace = ''default'', req_Name = ''x''\<rparr>"
  obtain calls db' s' where r: "Database_Reconcile ?rt example_db ?req mem_init = (Inr (), calls, db', s')"
    using mem_ns.Reconcile_live[OF mem_up_init, of example_db ?req ?rt] by auto
  from reconcile_notifies_live_subscribers[OF mem_kube_ns r]
  have "calls = [(8, [zero_mesh_node\<lparr>mn_id := ''x''\<rparr>])]"
    by (simp add: example_db_def named_content_def)
  with r show ?thesis by blast
qed

text \<open>
  After the database is closed no reconcile calls a subscriber, and the context of every
  subscription there was is cancelled.
\<close>

theorem close_ends_notifications:
  assumes "Database_Close db rt = (r, db', rt')"
    and "Database_Reconcile rt2 db' req s = (r2, calls, db'', s')"
  shows "calls = [] \<and> (\<forall>(i, sub) \<in> set (gs_subs (db_graph db)).
    sub_cancel sub \<in> ctx_ids (sub_ctx sub) \<longrightarrow> ctx_done rt' (sub_ctx sub))"
  using assms(2) Close_subs[OF assms(1)]
  by (auto simp: Database_Reconcile_def ctx_done_iff split: prod.splits sum.splits if_splits)

theorem close_ends_notifications_witness:
  "ctx_done (snd (snd (Database_Close example_db \<lparr>rt_cancelled = [], rt_next = 2\<rparr>))) (Derived Background 0)"
proof -
  obtain r db' rt' where c: "Database_Close example_db \<lparr>rt_cancelled = [], rt_next = 2\<rparr> = (r, db', rt')"
    by (metis prod_cases3)
  obtain r2 calls db'' s' where "Database_Reconcile rt' db' \<lparr>req_Namespace = [], req_Name = []\<rparr> mem_init
      = (r2, calls, db'', s')" by (metis prod_cases4)
  from close_ends_notifications[OF c this] c show ?thesis by (simp add: example_db_def)
qed

text \<open>
  C36. An event of an edge between two nodes makes the subscribers see the source node as a
  peer without any data, although the peer is stored: the request carries the id in the label
  of the edge, and peers are named by the hash of their id.
\<close>

theorem edge_event_reports_stored_peer_empty:
  assumes "kube_ns_server cli view up admissible ns" and "up s" and "gs_cli (db_graph db) = cli"
    and "distinct (map fst (gs_subs (db_graph db)))" and "graph_wf T view ns s"
    and "view s (PeerT, ns, HashNodeID i) = Some (peer_labels T i node, Plain (PPeer node))"
    and "length (TruncateNodeID T i) \<noteq> 40" and "TruncateNodeID T i \<noteq> []"
  shows "\<exists>calls db' s'. Database_Reconcile rt db (hd (edge_requests ns (edge_object T ns i j e))) s
      = (Inr (), calls, db', s')
    \<and> (\<forall>(fn, nodes) \<in> set calls. nodes = [zero_mesh_node\<lparr>mn_id := TruncateNodeID T i\<rparr>])
    \<and> length calls = length (live_subs rt (gs_subs (db_graph db)))"
  by (rule kube_ns_server.edge_event_misses_peer[OF assms(1-4,6,5,7,8)])

text \<open>
  A node stored with the text of an address as its private IPv4 address is found by that
  address: the lookup returns a stored node whose address has the same hash.
\<close>

theorem peer_found_by_ipv4:
  assumes "kube_ns_server cli view up admissible ns" and "up s"
    and "gs_namespace (db_graph db) = ns" and "db_cli db = cli" and "graph_wf T view ns s"
    and "view s (PeerT, ns, n) = Some (peer_labels T i node, Plain (PPeer node))"
    and "mn_privateIPv4 node = prefix_String addr" and "prefix_String addr \<noteq> []"
  shows "\<exists>j node' s'. GetPeerByIPv4Addr db addr s = (Inr node', s')
    \<and> view s (PeerT, ns, HashNodeID j) = Some (peer_labels T j node', Plain (PPeer node'))
    \<and> HashLabelValue (mn_privateIPv4 node') = HashLabelValue (prefix_String addr)"
  by (rule kube_ns_server.GetPeerByIPv4Addr_found[OF assms])

lemma example_peer_stored:
  obtains s where "mem_up s" and "graph_wf (\<lambda>i n. take n i) mem_view ''default'' s"
    and "mem_view s (PeerT, ''default'', HashNodeID ''a'')
      = Some (peer_labels (\<lambda>i n. take n i) ''a'' node, Plain (PPeer node))"
proof -
  let ?T = "\<lambda>i n. take n i :: string"
  obtain s1 where s1: "PatchObject mem_client (peer_object ?T ''default'' ''a'' node) mem_init = (Inr (), s1)"
    "mem_up s1" "mem_view s1 = (mem_view mem_init)(key_of (peer_object ?T ''default'' ''a'' node)
      \<mapsto> shown (peer_object ?T ''default'' ''a'' node))"
    by (rule mem.PatchObject_up[OF mem_up_init mem_admits_graph(1)])
  have "graph_wf ?T mem_view ''default'' s1"
    by (rule graph_wf_put_peer[where s = mem_init and i = "''a''" and node = node])
      (simp_all add: graph_wf_def s1(3))
  with s1 that show ?thesis by simp
qed

theorem edge_event_reports_stored_peer_empty_witness:
  "\<exists>s calls db' s'. mem_view s (PeerT, ''default'', HashNodeID ''a'') \<noteq> None
    \<and> Database_Reconcile \<lparr>rt_cancelled = [0], rt_next = 2\<rparr> example_db
        (hd (edge_requests ''default'' (edge_object (\<lambda>i n. take n i) ''default'' ''a'' ''b'' zero_mesh_edge))) s
      = (Inr (), calls, db', s') \<and> length calls = 1"
proof -
  obtain s where s: "mem_up s" "graph_wf (\<lambda>i n. take n i) mem_view ''default'' s"
    "mem_view s (PeerT, ''default'', HashNodeID ''a'')
      = Some (peer_labels (\<lambda>i n. take n i) ''a'' zero_mesh_node, Plain (PPeer zero_mesh_node))"
    by (rule example_peer_stored)
  from edge_event_reports_stored_peer_empty[where view = mem_view and s = s and db = example_db and T = "\<lambda>i n. take n i"
      and ns = "''default''" and i = "''a''" and node = zero_mesh_node and j = "''b''" and e = zero_mesh_edge
      and rt = "\<lparr>rt_cancelled = [0], rt_next = 2\<rparr>",
      OF mem_kube_ns_server s(1) example_db_simps(1,4) s(2,3)] s(3)
  show ?thesis by (fastforce simp: TruncateNodeID_def example_db_def live_subs_def)
qed

theorem peer_found_by_ipv4_witness:
  "\<exists>s node' s'. GetPeerByIPv4Addr example_db \<lparr>pfx_addr = Addr4 2886729729, pfx_bits = 32\<rparr> s = (Inr node', s')"
proof -
  let ?p = "\<lparr>pfx_addr = Addr4 2886729729, pfx_bits = 32\<rparr>"
  obtain s where s: "mem_up s" "graph_wf (\<lambda>i n. take n i) mem_view ''default'' s"
    "mem_view s (PeerT, ''default'', HashNodeID ''a'')
      = Some (peer_labels (\<lambda>i n. take n i) ''a'' (zero_mesh_node\<lparr>mn_privateIPv4 := prefix_String ?p\<rparr>),
          Plain (PPeer (zero_mesh_node\<lparr>mn_privateIPv4 := prefix_String ?p\<rparr>)))"
    by (rule example_peer_stored)
  from peer_found_by_ipv4[where view = mem_view and s = s and db = example_db and T = "\<lambda>i n. take n i"
      and ns = "''default''" and i = "''a''" and node = "zero_mesh_node\<lparr>mn_privateIPv4 := prefix_String ?p\<rparr>" and addr = ?p,
      OF mem_kube_ns_server s(1) example_db_simps(3,2) s(2,3)]
  show ?thesis by (auto simp: prefix_String_def)
qed

end
