(* ===== verification/Provider.thy ===== *)
theory Provider
  imports Consensus Manager Reconciler Database
begin

text \<open>
  \<open>provider/provider.go\<close>: the storage provider ties the manager, the database, the key-value
  store and the consensus together: construction, start and stop, bootstrap and status. The
  calls of the network, the file system, controller-runtime and client-go are the fields of
  \<open>setup_env\<close>. The mutex makes every operation atomic; the goroutines it starts are recorded
  with their contexts. A status message is the error it comes from, if any.
\<close>

definition LeaderElectionID :: string where
  "LeaderElectionID = ''storage-provider-k8s-leader-election''"

record provider_options =
  po_NodeID :: string
  po_ListenPort :: int
  po_MetricsPort :: int
  po_ProbePort :: int
  po_ShutdownTimeout :: int
  po_Namespace :: string
  po_LeaseDuration :: int
  po_RenewDeadline :: int
  po_RetryPeriod :: int
  po_DisableCache :: bool

text \<open>What the provider starts in goroutines of its own.\<close>

datatype goroutine = RunManager ctx | RunElection ctx

fun goroutine_ctx :: "goroutine \<Rightarrow> ctx" where
  "goroutine_ctx (RunManager c) = c"
| "goroutine_ctx (RunElection c) = c"

text \<open>
  The options are embedded, so \<open>p.Namespace\<close> is a field of them. The consensus holds a pointer
  to the provider, and its own fields \<open>isObserver\<close> and \<open>self\<close> are kept here.
\<close>

record 's provider =
  pv_Options :: provider_options
  pv_started :: bool
  pv_laddr :: tcp_addr
  pv_lport :: "16 word"
  pv_cli :: "'s client"
  pv_datastore :: "'s database option"
  pv_leaders :: "'s elector option"
  pv_subs :: kv_subs
  pv_stop :: "nat option"
  pv_isObserver :: bool
  pv_self :: "storage_peer option"
  pv_goroutines :: "goroutine list"

definition provider_consensus :: "'s provider \<Rightarrow> 's consensus" where
  "provider_consensus p = \<lparr>co_cli = pv_cli p, co_Namespace = po_Namespace (pv_Options p),
     co_NodeID = po_NodeID (pv_Options p), co_leaders = pv_leaders p, co_isObserver = pv_isObserver p,
     co_self = pv_self p\<rparr>"

subsection \<open>Construction\<close>

datatype stat_result = StatOk | StatNotExist | StatError goerr

record ('s, 'l) setup_env =
  se_ResolveTCPAddr :: "string \<Rightarrow> goerr + tcp_addr"
  se_Stat :: "string \<Rightarrow> stat_result"
  se_ReadFile :: "string \<Rightarrow> goerr + string"
  se_Complete :: "string \<Rightarrow> goerr + unit"
  se_NewCoreV1 :: "goerr + unit"
  se_NewCoordination :: "goerr + unit"
  se_NewLock :: "string \<Rightarrow> string \<Rightarrow> string \<Rightarrow> string \<Rightarrow> goerr + 'l"
  se_NewLeaderElector :: "'l \<Rightarrow> int \<Rightarrow> int \<Rightarrow> int \<Rightarrow> goerr + 's elector"

definition inClusterNamespacePath :: string where
  "inClusterNamespacePath = ''/var/run/secrets/kubernetes.io/serviceaccount/namespace''"

definition getInClusterNamespace :: "('s, 'l) setup_env \<Rightarrow> goerr + string" where
  "getInClusterNamespace env =
     (case se_Stat env inClusterNamespacePath of
        StatNotExist \<Rightarrow> Inl (Errorf ''not running in-cluster, please specify LeaderElectionNamespace'')
      | StatError err \<Rightarrow> Inl (Wrap ''error checking namespace file'' err)
      | StatOk \<Rightarrow>
          (case se_ReadFile env inClusterNamespacePath of
             Inl err \<Rightarrow> Inl (Wrap ''error reading namespace file'' err)
           | Inr namespace \<Rightarrow> Inr namespace))"

text \<open>The part after the database was created: the elector.\<close>

definition setup_election ::
    "('s, 'l) setup_env \<Rightarrow> provider_options \<Rightarrow> 's provider \<Rightarrow> goerr + 's provider" where
  "setup_election env opts p =
     (case se_NewCoreV1 env of
        Inl err \<Rightarrow> Inl (Wrap ''create corev1 client'' err)
      | Inr _ \<Rightarrow>
     (case se_NewCoordination env of
        Inl err \<Rightarrow> Inl (Wrap ''create coordinationv1 client'' err)
      | Inr _ \<Rightarrow>
     (case se_NewLock env ''leases'' (po_Namespace opts) LeaderElectionID (po_NodeID opts) of
        Inl err \<Rightarrow> Inl (Wrap ''create leader election resource lock'' err)
      | Inr rlock \<Rightarrow>
     (case se_NewLeaderElector env rlock (po_LeaseDuration opts) (po_RenewDeadline opts) (po_RetryPeriod opts) of
        Inl err \<Rightarrow> Inl (Wrap ''create leader elector'' err)
      | Inr leaders \<Rightarrow> Inr (p\<lparr>pv_leaders := Some leaders\<rparr>)))))"

definition setupWithManager ::
    "('s, 'l) setup_env \<Rightarrow> provider_options \<Rightarrow> bool \<Rightarrow> 's provider \<Rightarrow> goerr + 's provider" where
  "setupWithManager env opts isObserver p =
     (case se_ResolveTCPAddr env (''[::]:'' @ itoa_int (po_ListenPort opts)) of
        Inl err \<Rightarrow> Inl (Wrap ''resolve listen address'' err)
      | Inr laddr \<Rightarrow>
     (let p1 = p\<lparr>pv_laddr := laddr, pv_lport := word_of_int (tcp_port laddr)\<rparr>
      in case (if po_Namespace (pv_Options p1) = [] then getInClusterNamespace env
               else Inr (po_Namespace (pv_Options p1))) of
           Inl err \<Rightarrow> Inl (Wrap ''get in-cluster namespace'' err)
         | Inr ns \<Rightarrow>
     (let p2 = p1\<lparr>pv_Options := (pv_Options p1)\<lparr>po_Namespace := ns\<rparr>\<rparr>
      in case se_Complete env (po_NodeID (pv_Options p2)) of
           Inl err \<Rightarrow> Inl (Wrap ''register controller'' err)
         | Inr _ \<Rightarrow>
     (case New_database (se_Complete env) (pv_cli p2)
             \<lparr>opt_NodeID = po_NodeID opts, opt_Namespace = po_Namespace opts, opt_ListenAddr = laddr\<rparr> of
        Inl err \<Rightarrow> Inl (Wrap ''create database'' err)
      | Inr db \<Rightarrow>
     (let p3 = p2\<lparr>pv_datastore := Some db\<rparr>
      in if isObserver then Inr p3 else setup_election env opts p3)))))"

definition new_provider :: "'s client \<Rightarrow> provider_options \<Rightarrow> bool \<Rightarrow> 's provider" where
  "new_provider cli opts isObserver =
     \<lparr>pv_Options = opts, pv_started = False, pv_laddr = \<lparr>tcp_ip = Addr4 0, tcp_port = 0\<rparr>, pv_lport = 0,
      pv_cli = cli, pv_datastore = None, pv_leaders = None, pv_subs = [], pv_stop = None,
      pv_isObserver = isObserver, pv_self = None, pv_goroutines = []\<rparr>"

definition NewWithManager ::
    "('s, 'l) setup_env \<Rightarrow> 's client \<Rightarrow> provider_options \<Rightarrow> goerr + 's provider" where
  "NewWithManager env cli opts =
     (case setupWithManager env opts False (new_provider cli opts False) of
        Inl err \<Rightarrow> Inl (Wrap ''setup provider with manager'' err)
      | Inr p \<Rightarrow> Inr p)"

definition NewObserverWithManager ::
    "('s, 'l) setup_env \<Rightarrow> 's client \<Rightarrow> provider_options \<Rightarrow> goerr + 's provider" where
  "NewObserverWithManager env cli opts =
     (case setupWithManager env opts True (new_provider cli opts True) of
        Inl err \<Rightarrow> Inl (Wrap ''setup provider with manager'' err)
      | Inr p \<Rightarrow> Inr p)"

definition to_manager_options :: "provider_options \<Rightarrow> manager_options" where
  "to_manager_options opts =
     \<lparr>mo_MetricsPort = po_MetricsPort opts, mo_ProbePort = po_ProbePort opts,
      mo_ShutdownTimeout = po_ShutdownTimeout opts, mo_DisableCache = po_DisableCache opts\<rparr>"

definition New ::
    "('c, 'h, 'm) manager_env \<Rightarrow> ('m \<Rightarrow> 's client) \<Rightarrow> ('s, 'l) setup_env \<Rightarrow> provider_options \<Rightarrow> goerr + 's provider" where
  "New menv GetClient env opts =
     (case New_manager menv (to_manager_options opts) of
        Inl err \<Rightarrow> Inl (Wrap ''create controller manager'' err)
      | Inr mgr \<Rightarrow> NewWithManager env (GetClient mgr) opts)"

definition NewObserverWithConfig ::
    "('c, 'h, 'm) manager_env \<Rightarrow> ('m \<Rightarrow> 's client) \<Rightarrow> ('s, 'l) setup_env \<Rightarrow> 'c \<Rightarrow> provider_options \<Rightarrow> goerr + 's provider" where
  "NewObserverWithConfig menv GetClient env cfg opts =
     (case NewFromConfig menv cfg (to_manager_options opts) of
        Inl err \<Rightarrow> Inl (Wrap ''create controller manager'' err)
      | Inr mgr \<Rightarrow> NewObserverWithManager env (GetClient mgr) opts)"

subsection \<open>Start and stop\<close>

definition StartManaged :: "ctx \<Rightarrow> 's provider \<Rightarrow> runtime \<Rightarrow> (goerr + unit) \<times> 's provider \<times> runtime" where
  "StartManaged c p rt =
     (if pv_started p then (Inl ErrStarted, p, rt)
      else (case WithCancel rt c of
              ((c', stop), rt') \<Rightarrow>
                (Inr (),
                 p\<lparr>pv_started := True, pv_stop := Some stop,
                   pv_goroutines := pv_goroutines p @ RunManager c'
                     # (if \<not> pv_isObserver p then [RunElection c'] else [])\<rparr>,
                 rt')))"

definition Start :: "ctx \<Rightarrow> 's provider \<Rightarrow> runtime \<Rightarrow> (goerr + unit) \<times> 's provider \<times> runtime" where
  "Start c p rt = StartManaged c p rt"

definition StartUnmanaged :: "ctx \<Rightarrow> 's provider \<Rightarrow> runtime \<Rightarrow> (goerr + unit) \<times> 's provider \<times> runtime" where
  "StartUnmanaged c p rt =
     (if pv_started p then (Inl ErrStarted, p, rt)
      else (case WithCancel rt c of
              ((c', stop), rt') \<Rightarrow>
                (Inr (),
                 p\<lparr>pv_started := True, pv_stop := Some stop,
                   pv_goroutines := pv_goroutines p
                     @ (if \<not> pv_isObserver p then [RunElection c'] else [])\<rparr>,
                 rt')))"

text \<open>The loop of \<open>Close\<close> over the subscriptions of the store.\<close>

fun close_kv_subs :: "kv_subs \<Rightarrow> kv_subs \<Rightarrow> runtime \<Rightarrow> kv_subs \<times> runtime" where
  "close_kv_subs [] subs rt = (subs, rt)"
| "close_kv_subs ((subID, sub) # rest) subs rt =
     close_kv_subs rest (AList.delete subID subs) (cancel_ctx (ks_cancel sub) rt)"

definition Provider_Close :: "'s provider \<Rightarrow> runtime \<Rightarrow> (goerr + unit) \<times> 's provider \<times> runtime" where
  "Provider_Close p rt =
     (if \<not> pv_started p then (Inl ErrClosed, p, rt)
      else (case close_kv_subs (pv_subs p) (pv_subs p) rt of
              (subs, rt') \<Rightarrow>
                (case pv_stop p of
                   None \<Rightarrow> (Inl NilDereference, p\<lparr>pv_subs := subs\<rparr>, rt')
                 | Some stop \<Rightarrow> (Inr (), p\<lparr>pv_subs := subs\<rparr>, cancel_ctx stop rt'))))"

text \<open>
  The loop of the leader election. \<open>run\<close> is \<open>leaders.Run\<close>, which returns when the lease is lost
  or the context done, and \<open>fin\<close> asks the context.
\<close>

partial_function (option) RunLeaderElection :: "('w \<Rightarrow> 'w) \<Rightarrow> ('w \<Rightarrow> bool) \<Rightarrow> 'w \<Rightarrow> 'w option" where
  "RunLeaderElection run fin w =
     (let w' = run w in if fin w' then Some w' else RunLeaderElection run fin w')"

text \<open>
  The store of the provider is a pointer to the provider with a mutex of its own: it uses the
  client, the namespace and the elector of the provider. The clock, the codec and the test of
  keys are parameters of the store.
\<close>

record 's store_env =
  sn_now :: "'s \<Rightarrow> int \<times> 's"
  sn_Marshal :: "data_item \<Rightarrow> goerr + string"
  sn_Unmarshal :: "string \<Rightarrow> goerr + data_item"
  sn_IsValidPathID :: "string \<Rightarrow> bool"

definition MeshStorage :: "'s store_env \<Rightarrow> 's provider \<Rightarrow> 's storage" where
  "MeshStorage e p = \<lparr>st_cli = pv_cli p, st_Namespace = po_Namespace (pv_Options p),
     st_leaders = map_option el_IsLeader (pv_leaders p), st_now = sn_now e,
     st_Marshal = sn_Marshal e, st_Unmarshal = sn_Unmarshal e, st_IsValidPathID = sn_IsValidPathID e\<rparr>"

definition Datastore :: "'s provider \<Rightarrow> 's database option" where
  "Datastore p = pv_datastore p"

definition ListenPort :: "'s provider \<Rightarrow> 16 word" where
  "ListenPort p = pv_lport p"

subsection \<open>Bootstrap\<close>

definition Bootstrap :: "'s provider \<Rightarrow> ('s, unit) act" where
  "Bootstrap p s =
     (if \<not> pv_started p then (Inl ErrClosed, s)
      else (case getPeers (provider_consensus p) s of
              (Inl err, s') \<Rightarrow> (Inl err, s')
            | (Inr peers, s') \<Rightarrow>
                (if 0 < length peers then (Inl ErrAlreadyBootstrapped, s')
                 else AddVoter (provider_consensus p)
                        (zero_storage_peer\<lparr>sp_id := po_NodeID (pv_Options p),
                           sp_address := po_NodeID (pv_Options p) @ '':'' @ itoa (unat (pv_lport p)),
                           sp_clusterStatus := CLUSTER_LEADER\<rparr>) s')))"

subsection \<open>Status\<close>

record storage_status =
  ss_IsWritable :: bool
  ss_ClusterStatus :: cluster_status
  ss_Peers :: "storage_peer list"
  ss_Message :: "goerr option"

text \<open>\<open>net.TCPAddr.String\<close>: an address with a colon is put in brackets.\<close>

definition tcp_String :: "tcp_addr \<Rightarrow> string" where
  "tcp_String a =
     (let ip = addr_String (tcp_ip a)
      in (if CHR '':'' \<in> set ip then ''['' @ ip @ '']'' else ip) @ '':'' @ itoa_int (tcp_port a))"

definition lone_status :: "'s provider \<Rightarrow> goerr \<Rightarrow> storage_status" where
  "lone_status p msg =
     \<lparr>ss_IsWritable = False, ss_ClusterStatus = CLUSTER_NODE,
      ss_Peers = [zero_storage_peer\<lparr>sp_id := po_NodeID (pv_Options p), sp_address := tcp_String (pv_laddr p),
                    sp_clusterStatus := CLUSTER_NODE\<rparr>],
      ss_Message = Some msg\<rparr>"

text \<open>\<open>p.leaders.IsLeader()\<close>, which panics without an elector.\<close>

definition leaders_IsLeader :: "'s provider \<Rightarrow> ('s, bool) act" where
  "leaders_IsLeader p s =
     (case pv_leaders p of
        None \<Rightarrow> (Inl NilDereference, s)
      | Some leaders \<Rightarrow> (case el_IsLeader leaders s of (b, s') \<Rightarrow> (Inr b, s')))"

text \<open>The list of the peers, the node itself as the leader when it leads.\<close>

fun status_peers :: "'s provider \<Rightarrow> storage_peer list \<Rightarrow> storage_peer list \<Rightarrow> ('s, storage_peer list) act" where
  "status_peers p [] out s = (Inr out, s)"
| "status_peers p (peer # peers) out s =
     (if sp_id peer = po_NodeID (pv_Options p) then
        (case IsLeader (provider_consensus p) s of
           (Inl e, s') \<Rightarrow> (Inl e, s')
         | (Inr b, s') \<Rightarrow>
             status_peers p peers (out @ [if b then peer\<lparr>sp_clusterStatus := CLUSTER_LEADER\<rparr> else peer]) s')
      else status_peers p peers (out @ [peer]) s)"

text \<open>A panic is the error of the result.\<close>

definition Status :: "'s provider \<Rightarrow> ('s, storage_status) act" where
  "Status p s =
     (if \<not> pv_started p then (Inr (lone_status p ErrClosed), s)
      else (case GetPeers (provider_consensus p) s of
              (r, s1) \<Rightarrow>
     (let peers = (case r of Inl _ \<Rightarrow> [] | Inr ps \<Rightarrow> ps)
      in if \<not> containsPeer peers (po_NodeID (pv_Options p)) then (Inr (lone_status p ErrNotVoter), s1)
         else (case leaders_IsLeader p s1 of
                 (Inl e, s2) \<Rightarrow> (Inl e, s2)
               | (Inr writable, s2) \<Rightarrow>
              (case leaders_IsLeader p s2 of
                 (Inl e, s3) \<Rightarrow> (Inl e, s3)
               | (Inr leading, s3) \<Rightarrow>
              (case status_peers p peers [] s3 of
                 (Inl e, s4) \<Rightarrow> (Inl e, s4)
               | (Inr out, s4) \<Rightarrow>
                   (Inr \<lparr>ss_IsWritable = writable,
                         ss_ClusterStatus = (if leading then CLUSTER_LEADER else CLUSTER_VOTER),
                         ss_Peers = out,
                         ss_Message = (case r of Inl err \<Rightarrow> Some err | Inr _ \<Rightarrow> None)\<rparr>, s4)))))))"

end
