(* ===== verification/ConsensusProps.thy ===== *)
theory ConsensusProps
  imports Consensus GraphStore
begin

text \<open>
  The properties of the consensus: the group of storage peers as a map, its invariant, and
  which peer is named as the leader.
\<close>

subsection \<open>An example group\<close>

text \<open>An elector with a lease that \<open>h\<close> holds, asked by node \<open>i\<close>.\<close>

definition lease_elector :: "string \<Rightarrow> string \<Rightarrow> 's elector" where
  "lease_elector h i = \<lparr>el_IsLeader = (\<lambda>s. (h = i, s)), el_GetLeader = (\<lambda>s. (h, s))\<rparr>"

interpretation mem_lease: lease mem_client mem_view mem_up mem_admits "''default''" "lease_elector h i" i "\<lambda>s. h"
  for h i
  by unfold_locales (auto simp: lease_elector_def)

lemmas mem_lease_axioms = mem_lease.lease_axioms

definition example_member :: "string \<Rightarrow> mem_state consensus" where
  "example_member h = \<lparr>co_cli = mem_client, co_Namespace = ''default'', co_NodeID = ''node-a'',
     co_leaders = Some (lease_elector h ''node-a''), co_isObserver = False, co_self = None\<rparr>"

definition example_observer :: "mem_state consensus" where
  "example_observer = \<lparr>co_cli = mem_client, co_Namespace = ''default'', co_NodeID = ''node-o'',
     co_leaders = None, co_isObserver = True, co_self = None\<rparr>"

definition example_peer :: "string \<Rightarrow> storage_peer" where
  "example_peer i = zero_storage_peer\<lparr>sp_id := i, sp_address := i @ '':9443''\<rparr>"

lemma example_consensus_simps [simp]:
  "co_cli (example_member h) = mem_client" "co_Namespace (example_member h) = ''default''"
  "co_leaders (example_member h) = Some (lease_elector h ''node-a'')" "\<not> co_isObserver (example_member h)"
  "co_NodeID (example_member h) = ''node-a''" "co_self (example_member h) = None"
  "co_cli example_observer = mem_client" "co_Namespace example_observer = ''default''"
  "co_isObserver example_observer" "co_NodeID example_observer = ''node-o''"
  "sp_id (example_peer i) = i"
  by (simp_all add: example_member_def example_observer_def example_peer_def)

lemma HashID_valid: "dns1123_subdomain (HashID i)"
  using HashLabelValue_valid(2)[of i] by (simp add: HashID_def HashLabelValue_def)

lemma mem_admits_peer:
  "key_of obj = (StoragePeerT, ns, HashID i) \<Longrightarrow> ko_type obj = StoragePeerTypeMeta \<Longrightarrow> mem_admits obj"
  by (cases "ko_payload obj")
    (simp_all add: mem_admits_def key_of_def type_meta_defs gv_String_GroupVersion HashID_valid as_secret_def)

lemma example_peers_wf: "peers_wf mem_view ns mem_init"
  by (simp add: peers_wf_def)

lemma example_AddVoter:
  obtains s where "AddVoter (example_member h) p mem_init = (Inr (), s)" and "mem_up s"
proof -
  have "\<exists>s. AddVoter (example_member h) p mem_init = (Inr (), s) \<and> mem_up s"
    by (rule mem_ns.AddVoter_up[OF mem_up_init]) (auto intro: mem_admits_peer)
  with that show ?thesis by blast
qed

text \<open>A member of the group is stored.\<close>

lemma example_group:
  obtains s where "AddVoter (example_member h) (example_peer i) mem_init = (Inr (), s)" and "mem_up s"
    and "peers_wf mem_view ''default'' s"
    and "peer_content mem_view ''default'' s = [HashID i \<mapsto> (example_peer i)\<lparr>sp_clusterStatus := CLUSTER_VOTER\<rparr>]"
proof -
  obtain s where s: "AddVoter (example_member h) (example_peer i) mem_init = (Inr (), s)" "mem_up s"
    by (rule example_AddVoter)
  then have step: "cons_step (example_member h) (OpAddVoter (example_peer i)) mem_init = (Inr (), s)" by simp
  have "peer_content mem_view ''default'' mem_init = Map.empty" by (simp add: named_content_def fun_eq_iff)
  with mem_ns.cons_step_content(1)[OF example_peers_wf step example_consensus_simps(1,2) refl]
    mem_ns.cons_step_wf[OF example_peers_wf step example_consensus_simps(1,2)] s that
  show ?thesis by simp
qed

subsection \<open>The group of storage peers\<close>

text \<open>
  Whatever sequence of changes a node makes to the group, and wherever one fails, every
  stored peer is of one type: filed under the hash of its id, labelled with its id, and a voter
  or an observer; no peer is ever stored as the leader.
\<close>

theorem stored_peers_well_typed:
  assumes "kube_ns cli view ns" and "co_cli c = cli" and "co_Namespace c = ns"
    and "peers_wf view ns s" and "cons_run c ops s = (r, s')"
  shows "peers_wf view ns s'"
  using kube_ns.cons_run_refines[OF assms(1-5), of "()"] by blast

theorem stored_peers_well_typed_witness:
  "peers_wf mem_view ''default'' (snd (cons_run (example_member ''node-b'')
     [OpAddVoter ((example_peer ''node-a'')\<lparr>sp_clusterStatus := CLUSTER_LEADER\<rparr>),
      OpRemove (example_peer ''node-b'')]
     (mem_init\<lparr>mem_faults := [None, Some ''Timeout'']\<rparr>)))"
proof -
  have wf: "peers_wf mem_view ''default'' (mem_init\<lparr>mem_faults := f\<rparr>)" for f
    by (simp add: peers_wf_def mem_view_def mem_lookup_def mem_init_def DAList.lookup_empty)
  show ?thesis
    by (rule stored_peers_well_typed[OF mem_kube_ns example_consensus_simps(1,2) wf prod.collapse[symmetric]])
qed

text \<open>
  C9. A sequence of changes that all succeed does to the group what it does to a map from
  object names to peers, where a voter or observer is stored as such whatever status it was
  given; afterwards the lookup of an id answers what that map says.
\<close>

theorem group_refines_map:
  assumes "kube_ns_server cli view up admissible ns" and "co_cli c = cli" and "co_Namespace c = ns"
    and "peers_wf view ns s" and "cons_run c ops s = (Inr (), s')" and "up s'"
  shows "peer_content view ns s' = fold cons_apply ops (peer_content view ns s)
    \<and> (\<exists>s''. GetPeer c i s' =
         ((case fold cons_apply ops (peer_content view ns s) (HashID i) of
             Some p \<Rightarrow> if sp_id p = i then Inr p else Inl ErrNodeNotFound
           | None \<Rightarrow> Inl ErrNodeNotFound), s''))"
proof -
  note run = kube_ns.cons_run_refines[OF kube_ns_server.axioms(2)[OF assms(1)] assms(2-5), of "()"]
  with kube_ns_server.GetPeer_live[OF assms(1,6) _ assms(2,3), of i] show ?thesis by simp
qed

theorem group_refines_map_witness:
  "\<exists>s s'. cons_run (example_member ''node-b'')
       [OpAddVoter ((example_peer ''node-a'')\<lparr>sp_clusterStatus := CLUSTER_LEADER\<rparr>)] mem_init = (Inr (), s)
    \<and> GetPeer (example_member ''node-b'') ''node-a'' s =
        (Inr ((example_peer ''node-a'')\<lparr>sp_clusterStatus := CLUSTER_VOTER\<rparr>), s')"
proof -
  let ?p = "(example_peer ''node-a'')\<lparr>sp_clusterStatus := CLUSTER_LEADER\<rparr>"
  obtain s where s: "AddVoter (example_member ''node-b'') ?p mem_init = (Inr (), s)" "mem_up s"
    by (rule example_AddVoter)
  then have r: "cons_run (example_member ''node-b'') [OpAddVoter ?p] mem_init = (Inr (), s)" by simp
  have e: "cons_apply (OpAddVoter ?p) m (HashID ''node-a'') =
      Some ((example_peer ''node-a'')\<lparr>sp_clusterStatus := CLUSTER_VOTER\<rparr>)" for m
    by (simp add: example_peer_def)
  from group_refines_map[OF mem_kube_ns_server example_consensus_simps(1,2) example_peers_wf r s(2), of "''node-a''"]
  have "\<exists>s'. GetPeer (example_member ''node-b'') ''node-a'' s =
      (Inr ((example_peer ''node-a'')\<lparr>sp_clusterStatus := CLUSTER_VOTER\<rparr>), s')"
    unfolding fold_simps id_apply comp_apply e by simp
  with r show ?thesis by blast
qed

text \<open>
  C16. On a member, the leader is the stored peer that holds the lease, by the elector alone, and
  there is none when the holder is no stored peer; another node is returned with the status of
  a leader, the node itself as it was stored, and is remembered.
\<close>

theorem leader_holds_the_lease:
  assumes "lease cli view up admissible ns leaders NodeID holder" and "up s" and "peers_wf view ns s"
    and "co_cli c = cli" "co_Namespace c = ns" "co_leaders c = Some leaders" "\<not> co_isObserver c"
    and "co_self c = None"
  shows "\<exists>s'. view s' = view s \<and> GetLeader c s =
      (case peer_content view ns s (HashID (holder s)) of
         None \<Rightarrow> (Inl ErrNoLeader, c, s')
       | Some p \<Rightarrow>
          (if sp_id p \<noteq> holder s then (Inl ErrNoLeader, c, s')
           else if holder s = NodeID then (Inr p, c\<lparr>co_self := Some p\<rparr>, s')
           else (Inr (p\<lparr>sp_clusterStatus := CLUSTER_LEADER\<rparr>), c, s')))"
  using lease.GetLeader_lease[OF assms(1-7), unfolded assms(8)] by (simp split del: if_split) blast

theorem leader_holds_the_lease_witness:
  "\<exists>s s'. GetLeader (example_member ''node-b'') s =
     (Inr ((example_peer ''node-b'')\<lparr>sp_clusterStatus := CLUSTER_LEADER\<rparr>), example_member ''node-b'', s')"
proof -
  obtain s where s: "mem_up s" "peers_wf mem_view ''default'' s"
    "peer_content mem_view ''default'' s =
      [HashID ''node-b'' \<mapsto> (example_peer ''node-b'')\<lparr>sp_clusterStatus := CLUSTER_VOTER\<rparr>]"
    by (rule example_group[of "''node-b''" "''node-b''"])
  from leader_holds_the_lease[where holder = "\<lambda>_. ''node-b''" and s = s, OF mem_lease_axioms s(1,2)
      example_consensus_simps(1-4,6)]
  show ?thesis unfolding s(3) by auto
qed

text \<open>
  C33. A member that leads and has remembered itself is still named as the leader after it was
  removed from the group, although it is not found any more: the memory is never cleared.
\<close>

theorem removed_leader_is_still_named:
  assumes "lease cli view up admissible ns leaders NodeID holder" and "up s" and "peers_wf view ns s"
    and "co_cli c = cli" "co_Namespace c = ns" "co_leaders c = Some leaders" "\<not> co_isObserver c"
    and "co_NodeID c = NodeID" and "holder s = NodeID" and "co_self c = None"
    and "peer_content view ns s (HashID NodeID) = Some p" and "sp_id p = NodeID"
  shows "\<exists>c' s1 s2. GetLeader c s = (Inr p, c', s1) \<and> RemovePeer c' p w s1 = (Inr (), s2)
    \<and> peer_content view ns s2 (HashID NodeID) = None
    \<and> (holder s2 = NodeID \<longrightarrow> (\<exists>s3. GetLeader c' s2 = (Inr p, c', s3)))"
proof -
  note srv = lease.axioms(1)[OF assms(1)] and ns = kube_ns_server.axioms(2)[OF lease.axioms(1)[OF assms(1)]]
  let ?c = "c\<lparr>co_self := Some p\<rparr>"
  have c: "co_cli ?c = cli" "co_Namespace ?c = ns" "co_leaders ?c = Some leaders" "\<not> co_isObserver ?c"
    using assms(4-7) by simp_all
  obtain s1 where g: "GetLeader c s = (Inr p, ?c, s1)" "view s1 = view s" "up s1"
    using lease.GetLeader_lease[OF assms(1-7)] assms(9-12) by auto
  obtain s2 where r: "RemovePeer ?c p w s1 = (Inr (), s2)" "up s2"
    using kube_ns_server.RemovePeer_up[OF srv g(3) c(1,2,4)] by blast
  note v = kube_ns.RemovePeer_view(1)[OF ns r(1) c(1,2) refl]
  then have "peer_content view ns s2 (HashID NodeID) = None"
    using peer_content_delete[of view s2 s1 ns "HashID NodeID"] assms(12) by simp
  moreover have wf: "peers_wf view ns s2"
    using peers_wf_delete[OF _ v] assms(3) g(2) by (simp add: peers_wf_def)
  then have "\<exists>s3. GetLeader ?c s2 = (Inr p, ?c, s3)" if "holder s2 = NodeID"
    using lease.GetLeader_lease[OF assms(1) r(2) wf c] that by auto
  ultimately show ?thesis using g(1) r(1) by blast
qed

theorem removed_leader_is_still_named_witness:
  "\<exists>s c' s1 s2 s3. GetLeader (example_member ''node-a'') s
       = (Inr ((example_peer ''node-a'')\<lparr>sp_clusterStatus := CLUSTER_VOTER\<rparr>), c', s1)
    \<and> RemovePeer c' ((example_peer ''node-a'')\<lparr>sp_clusterStatus := CLUSTER_VOTER\<rparr>) False s1 = (Inr (), s2)
    \<and> GetLeader c' s2 = (Inr ((example_peer ''node-a'')\<lparr>sp_clusterStatus := CLUSTER_VOTER\<rparr>), c', s3)"
proof -
  let ?p = "(example_peer ''node-a'')\<lparr>sp_clusterStatus := CLUSTER_VOTER\<rparr>"
  obtain s where s: "mem_up s" "peers_wf mem_view ''default'' s"
    "peer_content mem_view ''default'' s = [HashID ''node-a'' \<mapsto> ?p]"
    by (rule example_group[of "''node-a''" "''node-a''"])
  have "peer_content mem_view ''default'' s (HashID ''node-a'') = Some ?p" "sp_id ?p = ''node-a''"
    by (simp_all add: s(3))
  from removed_leader_is_still_named[where holder = "\<lambda>_. ''node-a''" and s = s and w = False,
      OF mem_lease_axioms s(1,2) example_consensus_simps(1-5) refl example_consensus_simps(6) this]
  show ?thesis by blast
qed

text \<open>
  C34. An observer can join the group, as an observer, and nothing else: it cannot leave it again,
  although the code means to allow that, and it cannot add, demote or remove any node, nor add
  another node as an observer; these calls fail before they reach the server. It takes a stored voter
  for the leader, when there is one.
\<close>

theorem observers_join_and_stay:
  assumes "kube_ns_server cli view up admissible ns" and "up s" and "peers_wf view ns s"
    and "co_cli c = cli" "co_Namespace c = ns" "co_isObserver c" and "sp_id p = co_NodeID c"
    and "\<And>obj. key_of obj = (StoragePeerT, ns, HashID (sp_id p)) \<Longrightarrow> ko_type obj = StoragePeerTypeMeta \<Longrightarrow> admissible obj"
  shows "\<exists>s1. AddObserver c p s = (Inr (), s1)
    \<and> peer_content view ns s1 (HashID (sp_id p)) = Some (p\<lparr>sp_clusterStatus := CLUSTER_OBSERVER\<rparr>)
    \<and> (\<forall>q w. RemovePeer c q w s1 = (Inl ErrNotStorageNode, s1)
         \<and> AddVoter c q s1 = (Inl ErrNotStorageNode, s1) \<and> DemoteVoter c q s1 = (Inl ErrNotStorageNode, s1)
         \<and> (sp_id q \<noteq> co_NodeID c \<longrightarrow> AddObserver c q s1 = (Inl ErrNotStorageNode, s1)))
    \<and> (\<exists>r s2. GetLeader c s1 = (r, c, s2) \<and> (case r of
         Inr l \<Rightarrow> sp_clusterStatus l = CLUSTER_VOTER \<and> l \<in> ran (peer_content view ns s1)
       | Inl e \<Rightarrow> e = ErrNoLeader \<and> (\<forall>l \<in> ran (peer_content view ns s1). sp_clusterStatus l \<noteq> CLUSTER_VOTER)))"
proof -
  note ns = kube_ns_server.axioms(2)[OF assms(1)]
  obtain s1 where a: "AddObserver c p s = (Inr (), s1)" "up s1"
    using kube_ns_server.AddObserver_up[OF assms(1,2,4,5,8) assms(7)] by blast
  have "cons_step c (OpAddObserver p) s = (Inr (), s1)" using a(1) by simp
  note wf = kube_ns.cons_step_wf[OF ns assms(3) this assms(4,5)]
    and content = kube_ns.cons_step_content(1)[OF ns assms(3) this assms(4,5) refl]
  from kube_ns_server.GetLeader_observer[OF assms(1) a(2) wf assms(4-6)] obtain r s2 where
    "GetLeader c s1 = (r, c, s2)" "case r of
         Inr l \<Rightarrow> sp_clusterStatus l = CLUSTER_VOTER \<and> l \<in> ran (peer_content view ns s1)
       | Inl e \<Rightarrow> e = ErrNoLeader \<and> (\<forall>l \<in> ran (peer_content view ns s1). sp_clusterStatus l \<noteq> CLUSTER_VOTER)"
    by blast
  with a(1) content assms(6,7) show ?thesis
    by (intro exI[of _ s1]) (simp add: RemovePeer_def removePeerByIDHash_def AddVoter_def DemoteVoter_def AddObserver_def)
qed

theorem observers_join_and_stay_witness:
  "\<exists>s. AddObserver example_observer (example_peer ''node-o'') mem_init = (Inr (), s)
    \<and> RemovePeer example_observer (example_peer ''node-o'') False s = (Inl ErrNotStorageNode, s)
    \<and> AddObserver example_observer (example_peer ''node-a'') s = (Inl ErrNotStorageNode, s)"
proof -
  have i: "sp_id (example_peer ''node-o'') = co_NodeID example_observer"
    "sp_id (example_peer ''node-a'') \<noteq> co_NodeID example_observer" by simp_all
  have "mem_admits obj" if "key_of obj = (StoragePeerT, ''default'', HashID (sp_id (example_peer ''node-o'')))"
    "ko_type obj = StoragePeerTypeMeta" for obj using that by (rule mem_admits_peer)
  from observers_join_and_stay[OF mem_kube_ns_server mem_up_init example_peers_wf example_consensus_simps(7-9) i(1) this]
  show ?thesis using i(2) by blast
qed

text \<open>
  With a client that returns objects without their type, as the client without a cache does,
  and a server that refuses to apply such objects, a voter cannot be demoted: the object is applied
  as it was read, without the type that every other operation sets.
\<close>

theorem demotion_needs_a_typed_client:
  assumes "kube_ns_server cli view up admissible ns" and "up s"
    and "co_cli c = cli" "co_Namespace c = ns" "\<not> co_isObserver c"
    and "view s (StoragePeerT, ns, HashID (sp_id p)) = Some (stored_peer q)"
    and "\<And>t ns n s obj s'. api_get cli t ns n s = (Inr obj, s') \<Longrightarrow> ko_type obj = zero_type_meta"
    and "\<And>obj opts s. ko_type obj = zero_type_meta \<Longrightarrow> \<exists>e s'. api_patch cli obj opts s = (Inl e, s') \<and> view s' = view s"
  shows "\<exists>e s'. DemoteVoter c p s = (Inl e, s') \<and> view s' = view s"
proof -
  note srv = kube_ns_server.axioms(1)[OF assms(1)]
  obtain obj s1 where g: "api_get cli StoragePeerT ns (HashID (sp_id p)) s = (Inr obj, s1)"
    using kube_server.up_get[OF srv assms(2,6)] by blast
  have f: "view s1 = view s" by (rule kube_api.get_frame[OF kube_server.axioms(1)[OF srv] g])
  let ?o = "obj\<lparr>ko_payload := PStoragePeer
      ((as_storage_peer (ko_payload obj))\<lparr>sp_clusterStatus := CLUSTER_OBSERVER\<rparr>)\<rparr>"
  have "ko_type (StripPatchMeta ?o) = zero_type_meta" using assms(7)[OF g] by simp
  from assms(8)[OF this, of "[ApplyPatch, ForceOwnership, FieldOwnerOpt FieldOwner]" s1] obtain e s2 where
    "api_patch cli (StripPatchMeta ?o) [ApplyPatch, ForceOwnership, FieldOwnerOpt FieldOwner] s1 = (Inl e, s2)"
    "view s2 = view s1" by blast
  with g f assms(3-5) show ?thesis by (simp add: DemoteVoter_def PatchObject_def Let_def)
qed

theorem demotion_needs_a_typed_client_witness:
  "\<exists>s e s'. peer_content mem_view ''default'' s (HashID ''node-a'') \<noteq> None
    \<and> DemoteVoter (example_member ''node-b'') (example_peer ''node-a'') s = (Inl e, s')"
proof -
  obtain s where s: "mem_up s" "peers_wf mem_view ''default'' s"
    "peer_content mem_view ''default'' s = [HashID ''node-a'' \<mapsto> (example_peer ''node-a'')\<lparr>sp_clusterStatus := CLUSTER_VOTER\<rparr>]"
    by (rule example_group[of "''node-b''" "''node-a''"])
  have m: "peer_content mem_view ''default'' s (HashID ''node-a'') \<noteq> None" unfolding s(3) by simp
  then obtain x where x: "mem_view s (StoragePeerT, ''default'', HashID (sp_id (example_peer ''node-a''))) = Some x"
    by (auto simp: named_content_def)
  with s(2) obtain q where q: "mem_view s (StoragePeerT, ''default'', HashID (sp_id (example_peer ''node-a''))) = Some (stored_peer q)"
    unfolding peers_wf_def by blast
  have "ko_type obj = zero_type_meta" if "api_get mem_client t ns n s = (Inr obj, s')" for t ns n s obj s'
    using that by (auto simp: mem_ops mem_object_def split: option.splits)
  moreover have "\<exists>e s'. api_patch mem_client obj opts s = (Inl e, s') \<and> mem_view s' = mem_view s"
    if "ko_type obj = zero_type_meta" for obj opts s
    using that by (auto simp: mem_ops mem_admits_def zero_type_meta_def split: option.splits)
  ultimately have "\<exists>e s'. DemoteVoter (example_member ''node-b'') (example_peer ''node-a'') s = (Inl e, s')
      \<and> mem_view s' = mem_view s"
    by (rule demotion_needs_a_typed_client[where view = mem_view and up = mem_up and s = s and p = "example_peer ''node-a''",
          OF mem_kube_ns_server s(1) example_consensus_simps(1,2,4) q])
  with m show ?thesis by blast
qed

end
