(* ===== verification/ReconcilerProps.thy ===== *)
theory ReconcilerProps
  imports StorageProps Reconciler
begin

text \<open>
  The properties of the subscriptions to keys: what a reconcile tells, that a put reaches the
  subscribers of its key, and that a key is reported as deleted when another bucket changes.
\<close>

subsection \<open>Example subscriptions\<close>

definition example_sub :: "nat \<Rightarrow> string \<Rightarrow> kv_subscription" where
  "example_sub i pfx = \<lparr>ks_prefix = pfx, ks_seen = [], ks_fn = i, ks_ctx = Derived Background i, ks_cancel = i\<rparr>"

definition example_subs :: kv_subs where
  "example_subs = [(''1'', example_sub 1 ''a/''), (''2'', example_sub 2 []), (''3'', example_sub 3 [])]"

abbreviation example_rt :: runtime where
  "example_rt \<equiv> \<lparr>rt_cancelled = [3], rt_next = 4\<rparr>"

lemma example_subs_ok [simp]: "kv_subs_ok example_subs"
  by (simp add: kv_subs_ok_def example_subs_def example_sub_def)

lemma example_sub_in:
  "(''1'', example_sub 1 ''a/'') \<in> set example_subs" "(''2'', example_sub 2 []) \<in> set example_subs"
  "\<not> ctx_done example_rt (ks_ctx (example_sub 1 ''a/''))" "\<not> ctx_done example_rt (ks_ctx (example_sub 2 []))"
  by (simp_all add: example_subs_def example_sub_def)

text \<open>Two keys in two buckets.\<close>

definition example_pair :: "string set" where
  "example_pair = {''a/x'', ''b/z''}"

lemma lower_ab: "lower_char CHR ''a'' = CHR ''a''" "lower_char CHR ''b'' = CHR ''b''"
  by code_simp+

lemma pair_buckets: "bucketForKey ''a/x'' = ''a''" "bucketForKey ''b/z'' = ''b''"
  by (simp_all add: bucketForKey_def rawBucketForKey_alt ToLower_def lower_ab)

lemma pair_hash: "key \<in> example_pair \<Longrightarrow> valid_data_key (hashKey key)"
  by (rule hashKey_valid) (auto simp: example_pair_def bytes_of_def b64_plain_def)

lemma pair_inv_init: "kv_inv mem_storage example_pair mem_view ''default'' mem_init"
  by (simp add: kv_inv_def)

lemma pair_admitted:
  assumes "kv_inv mem_storage example_pair mem_view ''default'' s" and "key \<in> example_pair"
  shows "kv_admitted mem_admits mem_view ''default'' s key"
  unfolding kv_admitted_def
proof (rule mem_bucket_admitted[OF _ pair_hash[OF assms(2)]])
  show "dns1123_subdomain (bucketForKey key)"
    using assms(2) by (auto simp: example_pair_def pair_buckets dns1123_subdomain_def dns1123_part_def
        is_lower_alnum_def is_alnum_def is_upper_def)
  show "\<forall>h \<in> dom (bucket_data mem_view ''default'' s (bucketForKey key)). valid_data_key h"
    using kv_inv_bucket_data[OF assms] pair_hash by (fastforce simp: entry_placed_def)
qed

subsection \<open>What subscribers are told\<close>

text \<open>
  C3. On any node, a reconcile of a bucket tells every live subscription exactly the difference
  between what it has seen and what the store holds in the bucket under its prefix: the new and
  changed values, and a nil value for each key that is no longer there. The subscription has
  then seen the bucket, the cancelled subscriptions are gone, nothing changes on the server,
  and a second reconcile tells nobody anything.
\<close>

theorem reconcile_tells_the_difference:
  assumes "kv_server cli view ns st up admissible" and "up s" and "kv_inv st K view ns s" and "key \<in> K"
    and "view s (SecretT, ns, bucketForKey key) \<noteq> None" and "kv_subs_ok subs"
  shows "\<exists>calls subs' s' subs'' s''.
      Provider_Reconcile rt st subs (bucket_request ns key) s = (Inr (), calls, subs', s')
    \<and> set calls = (\<Union>(i, sub) \<in> set (live_kv_subs rt subs).
        difference sub (bucket_content st view ns s (bucketForKey key)))
    \<and> list_all2 (\<lambda>(i, sub) (i', sub'). i' = i \<and> sub_after sub (bucket_content st view ns s (bucketForKey key)) sub')
        (live_kv_subs rt subs) subs'
    \<and> view s' = view s
    \<and> Provider_Reconcile rt st subs' (bucket_request ns key) s' = (Inr (), [], subs'', s'')"
proof (rule kv_server.Reconcile_again[OF assms, of rt], unfold told_def subs_after_def, goal_cases)
  case (1 calls subs' s' subs'' s'')
  then show ?case by (intro exI conjI)
qed

theorem reconcile_tells_the_difference_witness:
  "\<exists>s calls subs' s'. Provider_Reconcile example_rt mem_storage example_subs (bucket_request ''default'' ''a/x'') s
      = (Inr (), calls, subs', s')
    \<and> set calls = {(1, ''a/x'', ''v''), (2, ''a/x'', ''v'')}"
proof -
  have K: "''a/x'' \<in> example_pair" by (simp add: example_pair_def)
  obtain s where p: "PutValue mem_storage ''a/x'' ''v'' 0 mem_init = (Inr (), s)" and u: "mem_up s"
    using mem_kv.PutValue_live[OF mem_up_init _ pair_admitted[OF pair_inv_init K, unfolded kv_admitted_def]]
    by auto
  have inv: "kv_inv mem_storage example_pair mem_view ''default'' s"
    by (rule mem_kv.kv_step_inv[OF pair_inv_init, of "KvPut ''a/x'' ''v'' 0"]) (simp_all add: p K)
  obtain item where i: "put_item mem_storage ''a/x'' ''v'' 0 item"
    "kv_content mem_storage mem_view ''default'' s = (kv_content mem_storage mem_view ''default'' mem_init)(''a/x'' \<mapsto> item)"
    using mem_kv.PutValue_content(1)[OF p refl] by blast
  have "kv_content mem_storage mem_view ''default'' mem_init = Map.empty"
    by (simp add: kv_content_def kv_raw_def bucket_data_def fun_eq_iff)
  with i have c: "bucket_content mem_storage mem_view ''default'' s (bucketForKey ''a/x'') = [''a/x'' \<mapsto> ''v'']"
    by (auto simp: bucket_content_def put_item_def fun_eq_iff)
  have d: "(\<Union>(i, sub) \<in> set (live_kv_subs example_rt example_subs). difference sub [''a/x'' \<mapsto> ''v''])
      = {(1, ''a/x'', ''v''), (2, ''a/x'', ''v'')}"
    by (auto simp: live_kv_subs_def example_subs_def example_sub_def difference_def HasPrefix_def split: if_splits)
  obtain calls subs' s' where
    "Provider_Reconcile example_rt mem_storage example_subs (bucket_request ''default'' ''a/x'') s
      = (Inr (), calls, subs', s')"
    "set calls = (\<Union>(i, sub) \<in> set (live_kv_subs example_rt example_subs). difference sub [''a/x'' \<mapsto> ''v''])"
    using reconcile_tells_the_difference[where up = mem_up and s = s and K = example_pair and key = "''a/x''" and rt = example_rt,
      OF mem_kv_server u inv K mem_kv.put_bucket_present[OF p] example_subs_ok, unfolded c] by (elim exE conjE)
  then show ?thesis unfolding d by (intro exI conjI)
qed

text \<open>
  A value put on the leader reaches every live subscriber of a prefix of its key that has
  not seen it: the event of the written Secret queues the bucket, and the next reconcile of it
  calls the subscriber with the key and the value.
\<close>

theorem put_reaches_subscribers:
  assumes "kv_live cli view ns st up admissible" and "up s" and "kv_inv st K view ns s" and "key \<in> K"
    and "st_IsValidPathID st key" and "kv_admitted admissible view ns s key" and "kv_subs_ok subs"
    and "(i, sub) \<in> set subs" and "\<not> ctx_done rt (ks_ctx sub)" and "HasPrefix key (ks_prefix sub)"
    and "map_of (ks_seen sub) key \<noteq> Some val"
  shows "\<exists>s1. PutValue st key val ttl s = (Inr (), s1)
    \<and> (\<forall>obj. key_of obj = (SecretT, ns, bucketForKey key) \<and> view s1 (key_of obj) = Some (shown obj)
         \<longrightarrow> enqueueObjectIfOwner obj = [bucket_request ns key])
    \<and> (\<exists>calls subs' s2. Provider_Reconcile rt st subs (bucket_request ns key) s1 = (Inr (), calls, subs', s2)
         \<and> (ks_fn sub, key, val) \<in> set calls)"
proof (rule kv_live.PutValue_reconciled[OF assms(1-5) assms(6)[unfolded kv_admitted_def] assms(7),
      where rt = rt and val = val and ttl = ttl], goal_cases)
  case (1 item s1 calls subs' s2 subs'' s3)
  have "kv_content st view ns s2 key = Some item" "item_Value item = val"
    using 1(1,3) by (simp_all add: put_item_def)
  then have "(ks_fn sub, key, val) \<in> difference sub (bucket_content st view ns s2 (bucketForKey key))"
    using assms(10,11) by (simp add: difference_def bucket_content_def)
  moreover have "(i, sub) \<in> set (live_kv_subs rt subs)" using assms(8,9) by (simp add: live_kv_subs_def)
  ultimately have "(ks_fn sub, key, val) \<in> set calls" unfolding 1(9) told_def by blast
  moreover have "enqueueObjectIfOwner obj = [bucket_request ns key]"
    if o: "key_of obj = (SecretT, ns, bucketForKey key)" "view s1 (key_of obj) = Some (shown obj)" for obj
  proof -
    obtain m where "view s1 (SecretT, ns, bucketForKey key) = Some (bucket_labels (rawBucketForKey key), m)"
      using kv_store.PutValue_relabels[OF kv_server.axioms(1)[OF kv_live.axioms(1)[OF assms(1)]] 1(2)] by blast
    with o have l: "om_labels (ko_meta obj) = bucket_labels (rawBucketForKey key)" by (simp add: shown_def)
    from o(1) show ?thesis unfolding enqueueObjectIfOwner_def l
      by (simp add: bucket_request_def key_of_def bucket_labels_def MeshStorageLabel_def BucketLabel_def)
  qed
  ultimately show ?case using 1(2,6) by blast
qed

theorem put_reaches_subscribers_witness:
  "\<exists>s1 calls subs' s2. PutValue mem_storage ''a/x'' ''v'' 60 mem_init = (Inr (), s1)
    \<and> Provider_Reconcile example_rt mem_storage example_subs (bucket_request ''default'' ''a/x'') s1
       = (Inr (), calls, subs', s2)
    \<and> (1, ''a/x'', ''v'') \<in> set calls"
proof -
  have K: "''a/x'' \<in> example_pair" by (simp add: example_pair_def)
  have "HasPrefix ''a/x'' (ks_prefix (example_sub 1 ''a/''))" "map_of (ks_seen (example_sub 1 ''a/'')) ''a/x'' \<noteq> Some ''v''"
    by (simp_all add: example_sub_def HasPrefix_def)
  from put_reaches_subscribers[OF mem_kv_live mem_up_init pair_inv_init K _ pair_admitted[OF pair_inv_init K]
      example_subs_ok example_sub_in(1,3) this, of 60]
  show ?thesis by (auto simp: example_sub_def)
qed

text \<open>
  C32. When a subscription covers keys of two buckets, a change in the second makes the
  reconciler report the keys of the first as deleted, although a get still returns them: the
  keys seen are looked up in the Secret at hand whatever bucket they belong to.
\<close>

theorem other_buckets_reported_deleted:
  assumes "kv_live cli view ns st up admissible" and "up s" and "kv_inv st K view ns s"
    and "k1 \<in> K" "k2 \<in> K" "st_IsValidPathID st k1" "st_IsValidPathID st k2"
    and "\<And>s k. kv_inv st K view ns s \<Longrightarrow> k \<in> K \<Longrightarrow> kv_admitted admissible view ns s k"
    and "bucketForKey k1 \<noteq> bucketForKey k2" and "kv_subs_ok subs"
    and "(i, sub) \<in> set subs" and "\<not> ctx_done rt (ks_ctx sub)" and "HasPrefix k1 (ks_prefix sub)" and "v1 \<noteq> []"
  shows "\<exists>s1 calls1 subs1 s2 s3 calls2 subs2 s4 ed s5. PutValue st k1 v1 0 s = (Inr (), s1)
    \<and> Provider_Reconcile rt st subs (bucket_request ns k1) s1 = (Inr (), calls1, subs1, s2)
    \<and> PutValue st k2 v2 0 s2 = (Inr (), s3)
    \<and> Provider_Reconcile rt st subs1 (bucket_request ns k2) s3 = (Inr (), calls2, subs2, s4)
    \<and> (ks_fn sub, k1, []) \<in> set calls2 \<and> GetValue st k1 s4 = (Inr v1, ed, s5)"
proof (rule kv_live.PutValue_reconciled[OF assms(1-3,4,6) assms(8)[OF assms(3,4), unfolded kv_admitted_def] assms(10),
      where rt = rt and val = v1 and ttl = 0], goal_cases)
  case A: (1 item1 s1 calls1 subs1 s2 subs1' s2')
  have c1: "kv_content st view ns s2 k1 = Some item1" and i1: "item_Value item1 = v1" "item_Expiry item1 = 0"
    using A(1,3) by (simp_all add: put_item_def)
  obtain sub1 where sub1: "(i, sub1) \<in> set subs1" "\<not> ctx_done rt (ks_ctx sub1)" "ks_fn sub1 = ks_fn sub"
    "ks_prefix sub1 = ks_prefix sub" "map_of (ks_seen sub1) k1 = Some v1"
  proof (rule subs_after_sub[OF A(10) assms(11,12)], goal_cases)
    case (1 sub')
    from 1(3) have "map_of (ks_seen sub') k1 = Some v1"
      using assms(13) c1 i1 by (simp add: sub_after_def bucket_content_def)
    with 1 assms(12) show ?case by simp
  qed
  show ?case
  proof (rule kv_live.PutValue_reconciled[OF assms(1) A(8,5) assms(5,7) assms(8)[OF A(5) assms(5), unfolded kv_admitted_def]
        subs_after_ok[OF A(10) assms(10)], where rt = rt and val = v2 and ttl = 0], goal_cases)
    case B: (1 item2 s3 calls2 subs2 s4 subs2' s4')
    have "bucket_content st view ns s4 (bucketForKey k2) k1 = None"
      using assms(9) by (simp add: bucket_content_def)
    then have "(ks_fn sub, k1, []) \<in> difference sub1 (bucket_content st view ns s4 (bucketForKey k2))"
      using sub1 assms(13) by (simp add: difference_def)
    moreover have "(i, sub1) \<in> set (live_kv_subs rt subs1)" using sub1 by (simp add: live_kv_subs_def)
    ultimately have told: "(ks_fn sub, k1, []) \<in> set calls2" unfolding B(9) told_def by blast
    have "k1 \<noteq> k2" using assms(9) by auto
    then have "kv_content st view ns s4 k1 = Some item1" using B(3) c1 by simp
    then obtain ed s5 where "GetValue st k1 s4 = (Inr v1, ed, s5)"
      using kv_live.GetValue_live[OF assms(1) B(8) assms(6)] i1 assms(14) by (auto simp: kv_read_def)
    with A(2,6) B(2,6) told show ?case by (intro exI conjI)
  qed
qed

theorem other_buckets_reported_deleted_witness:
  "\<exists>s3 calls2 subs1 subs2 s4 ed s5.
      Provider_Reconcile example_rt mem_storage subs1 (bucket_request ''default'' ''b/z'') s3 = (Inr (), calls2, subs2, s4)
    \<and> (2, ''a/x'', []) \<in> set calls2 \<and> GetValue mem_storage ''a/x'' s4 = (Inr ''v'', ed, s5)"
proof -
  have K: "''a/x'' \<in> example_pair" "''b/z'' \<in> example_pair" by (simp_all add: example_pair_def)
  have "HasPrefix ''a/x'' (ks_prefix (example_sub 2 []))" by (simp add: example_sub_def HasPrefix_def)
  from other_buckets_reported_deleted[where ?v1.0 = "''v''" and ?v2.0 = "''w''", OF mem_kv_live mem_up_init pair_inv_init K _ _ pair_admitted _ example_subs_ok
      example_sub_in(2,4) this]
  show ?thesis by (simp add: pair_buckets example_sub_def) blast
qed

end
