(* ===== verification/ProviderProps.thy ===== *)
theory ProviderProps
  imports Provider ConsensusProps ReconcilerProps
begin

text \<open>
  The properties of the provider: what construction sets up, its life cycle from start to
  close, the loop of the leader election, bootstrap and status.
\<close>

subsection \<open>The life cycle\<close>

text \<open>
  What happens to a provider over its life, as steps of the provider, the runtime of the
  contexts and the world: it is started, closed, subscribed to, bootstrapped, and its reconciler
  runs.
\<close>

datatype 's life_op =
    LStart ctx
  | LStartUnmanaged ctx
  | LClose
  | LSubscribe string ctx string nat
  | LReconcile "'s storage" request
  | LBootstrap
  | LWorld 's

type_synonym 's life = "'s provider \<times> runtime \<times> 's"

fun life_step :: "'s life_op \<Rightarrow> 's life \<Rightarrow> 's life" where
  "life_step (LStart c) (p, rt, s) = (case Start c p rt of (r, p', rt') \<Rightarrow> (p', rt', s))"
| "life_step (LStartUnmanaged c) (p, rt, s) = (case StartUnmanaged c p rt of (r, p', rt') \<Rightarrow> (p', rt', s))"
| "life_step LClose (p, rt, s) = (case Provider_Close p rt of (r, p', rt') \<Rightarrow> (p', rt', s))"
| "life_step (LSubscribe uuid c pfx fn) (p, rt, s) =
     (case Storage_Subscribe uuid c pfx fn (pv_subs p) rt of (r, subs, rt') \<Rightarrow> (p\<lparr>pv_subs := subs\<rparr>, rt', s))"
| "life_step (LReconcile st req) (p, rt, s) =
     (case Provider_Reconcile rt st (pv_subs p) req s of (r, calls, subs, s') \<Rightarrow> (p\<lparr>pv_subs := subs\<rparr>, rt, s'))"
| "life_step LBootstrap (p, rt, s) = (case Bootstrap p s of (r, s') \<Rightarrow> (p, rt, s'))"
| "life_step (LWorld s') (p, rt, s) = (p, rt, s')"

inductive lives :: "'s life \<Rightarrow> 's life \<Rightarrow> bool" for x0 where
  lives_start: "lives x0 x0"
| lives_step: "lives x0 x \<Longrightarrow> lives x0 (life_step op x)"

definition unstarted :: "'s life \<Rightarrow> bool" where
  "unstarted x \<longleftrightarrow> (case x of (p, rt, s) \<Rightarrow>
     \<not> pv_started p \<and> pv_stop p = None \<and> pv_subs p = [] \<and> pv_goroutines p = [])"

fun is_election :: "goroutine \<Rightarrow> bool" where
  "is_election (RunElection _) = True"
| "is_election (RunManager _) = False"

text \<open>
  The invariant: a provider has a stop function exactly when it was started, each goroutine
  runs under a context that the stop function cancels, the manager and the election were
  started at most once, by observers the election never, and every subscription's own cancel
  function cancels its context.
\<close>

definition goroutines_ok :: "'s provider \<Rightarrow> bool" where
  "goroutines_ok p \<longleftrightarrow> (\<forall>g \<in> set (pv_goroutines p). \<exists>stop. pv_stop p = Some stop \<and> stop \<in> ctx_ids (goroutine_ctx g))
     \<and> length (filter is_election (pv_goroutines p)) \<le> (if pv_isObserver p then 0 else 1)
     \<and> length (filter (\<lambda>g. \<not> is_election g) (pv_goroutines p)) \<le> 1
     \<and> (pv_goroutines p \<noteq> [] \<longrightarrow> pv_started p)"

definition own_cancel :: "kv_subs \<Rightarrow> bool" where
  "own_cancel subs \<longleftrightarrow> distinct (map fst subs) \<and> (\<forall>(i, sub) \<in> set subs. ks_cancel sub \<in> ctx_ids (ks_ctx sub))"

definition life_inv :: "'s life \<Rightarrow> bool" where
  "life_inv x \<longleftrightarrow> (case x of (p, rt, s) \<Rightarrow>
     (pv_started p \<longleftrightarrow> pv_stop p \<noteq> None) \<and> goroutines_ok p \<and> own_cancel (pv_subs p))"

lemma unstarted_inv: "unstarted x \<Longrightarrow> life_inv x"
  by (auto simp: unstarted_def life_inv_def goroutines_ok_def own_cancel_def)

lemma own_cancel_Subscribe:
  assumes "own_cancel subs" and "Storage_Subscribe uuid c pfx fn subs rt = (r, subs', rt')"
  shows "own_cancel subs'"
proof -
  let ?sub = "\<lparr>ks_prefix = pfx, ks_seen = [], ks_fn = fn, ks_ctx = Derived c (rt_next rt), ks_cancel = rt_next rt\<rparr>"
  have "subs' = AList.update uuid ?sub subs" using assms(2) by (simp add: Storage_Subscribe_def WithCancel_def)
  with assms(1) show ?thesis by (auto simp: own_cancel_def distinct_update dest!: in_set_update)
qed

lemma notify_sub_ctx:
  "ks_ctx (snd (notify_sub u data sub)) = ks_ctx sub" "ks_cancel (snd (notify_sub u data sub)) = ks_cancel sub"
  by (simp_all add: notify_sub_def split: prod.split)

lemma own_cancel_live: "own_cancel subs \<Longrightarrow> own_cancel (live_kv_subs rt subs)"
  by (auto simp: own_cancel_def live_kv_subs_def distinct_map_filter)

lemma own_cancel_Reconcile:
  assumes "own_cancel subs" and "Provider_Reconcile rt st subs req s = (r, calls, subs', s')"
  shows "own_cancel subs'"
proof -
  have d: "distinct (map fst ([] @ subs))" using assms(1) by (simp add: own_cancel_def)
  note live = own_cancel_live[OF assms(1), of rt]
  have keys: "map fst (map (\<lambda>(i, sub). (i, snd (notify_sub u data sub))) xs) = map fst xs" for u data and xs :: kv_subs
    by (induction xs) auto
  have "own_cancel (map (\<lambda>(i, sub). (i, snd (notify_sub u data sub))) (live_kv_subs rt subs))" for u data
    using live unfolding own_cancel_def keys by (auto simp: notify_sub_ctx)
  then show ?thesis
    using assms live notify_changed_done[OF d, of rt] notify_gone_done[OF d, of rt]
    by (auto simp: Provider_Reconcile_def split: prod.splits sum.splits if_splits)
qed

lemma close_kv_subs_done:
  "close_kv_subs ents subs rt = (subs', rt') \<Longrightarrow>
     set subs' \<subseteq> {x \<in> set subs. fst x \<notin> fst ` set ents}
   \<and> set (rt_cancelled rt') = set (rt_cancelled rt) \<union> (\<lambda>(i, sub). ks_cancel sub) ` set ents"
proof (induction ents subs rt rule: close_kv_subs.induct)
  case (2 subID sub rest subs rt)
  then have "close_kv_subs rest (AList.delete subID subs) (cancel_ctx (ks_cancel sub) rt) = (subs', rt')" by simp
  from 2(1)[OF this] show ?case by (auto simp: AList.delete_eq cancel_ctx_def)
qed simp

lemma close_kv_subs_all:
  assumes "close_kv_subs subs subs rt = (subs', rt')"
  shows "subs' = []" and "set (rt_cancelled rt') = set (rt_cancelled rt) \<union> (\<lambda>(i, sub). ks_cancel sub) ` set subs"
proof -
  note d = close_kv_subs_done[OF assms]
  have "x \<notin> set subs'" for x
  proof
    assume "x \<in> set subs'"
    with d have "x \<in> set subs" "fst x \<notin> fst ` set subs" by blast+
    then show False by simp
  qed
  then show "subs' = []" by (cases subs') auto
  from d show "set (rt_cancelled rt') = set (rt_cancelled rt) \<union> (\<lambda>(i, sub). ks_cancel sub) ` set subs" by blast
qed

lemma life_inv_step: "life_inv x \<Longrightarrow> life_inv (life_step op x)"
proof -
  obtain p rt s where x: "x = (p, rt, s)" by (cases x)
  assume inv: "life_inv x"
  show ?thesis
  proof (cases op)
    case (LStart c)
    with inv x show ?thesis
      by (auto simp: Start_def StartManaged_def WithCancel_def life_inv_def goroutines_ok_def)
  next
    case (LStartUnmanaged c)
    with inv x show ?thesis
      by (auto simp: StartUnmanaged_def WithCancel_def life_inv_def goroutines_ok_def)
  next
    case LClose
    obtain subs rt' where c: "close_kv_subs (pv_subs p) (pv_subs p) rt = (subs, rt')" by fastforce
    with LClose inv x close_kv_subs_all(1)[OF c] show ?thesis
      by (auto simp: Provider_Close_def life_inv_def goroutines_ok_def own_cancel_def)
  next
    case (LSubscribe uuid c pfx fn)
    obtain r subs rt' where "Storage_Subscribe uuid c pfx fn (pv_subs p) rt = (r, subs, rt')" by (metis prod_cases3)
    with LSubscribe inv x own_cancel_Subscribe[OF _ this] show ?thesis
      by (auto simp: life_inv_def goroutines_ok_def)
  next
    case (LReconcile st req)
    obtain r calls subs s' where "Provider_Reconcile rt st (pv_subs p) req s = (r, calls, subs, s')" by (metis prod_cases4)
    with LReconcile inv x own_cancel_Reconcile[OF _ this] show ?thesis
      by (auto simp: life_inv_def goroutines_ok_def)
  next
    case LBootstrap
    with inv x show ?thesis by (auto simp: life_inv_def split: prod.splits)
  next
    case (LWorld s')
    with inv x show ?thesis by (simp add: life_inv_def)
  qed
qed

lemma lives_inv: "lives x0 x \<Longrightarrow> unstarted x0 \<Longrightarrow> life_inv x"
  by (induction rule: lives.induct) (auto intro: unstarted_inv life_inv_step)

lemma life_cycle_safe_lemma:
  assumes "unstarted x0" and "lives x0 (p, rt, s)"
  shows "length (filter is_election (pv_goroutines p)) \<le> (if pv_isObserver p then 0 else 1)
    \<and> length (filter (\<lambda>g. \<not> is_election g) (pv_goroutines p)) \<le> 1
    \<and> (\<exists>r p' rt'. Provider_Close p rt = (r, p', rt')
       \<and> r = (if pv_started p then Inr () else Inl ErrClosed)
       \<and> (r = Inr () \<longrightarrow> pv_subs p' = []
            \<and> (\<forall>(i, sub) \<in> set (pv_subs p). ctx_done rt' (ks_ctx sub))
            \<and> (\<forall>g \<in> set (pv_goroutines p). ctx_done rt' (goroutine_ctx g))))"
proof -
  have inv: "life_inv (p, rt, s)" by (rule lives_inv[OF assms(2,1)])
  obtain subs rt' where c: "close_kv_subs (pv_subs p) (pv_subs p) rt = (subs, rt')" by fastforce
  note all = close_kv_subs_all[OF c]
  show ?thesis
  proof (cases "pv_started p")
    case False
    with inv show ?thesis by (auto simp: life_inv_def goroutines_ok_def Provider_Close_def)
  next
    case True
    with inv obtain stop where stop: "pv_stop p = Some stop" by (auto simp: life_inv_def)
    have "ctx_done (cancel_ctx stop rt') (ks_ctx sub)" if "(i, sub) \<in> set (pv_subs p)" for i sub
    proof -
      have "ks_cancel sub \<in> ctx_ids (ks_ctx sub)" using that inv by (auto simp: life_inv_def own_cancel_def)
      moreover have "ks_cancel sub \<in> set (rt_cancelled rt')" using that unfolding all(2) by force
      ultimately show ?thesis by (auto simp: ctx_done_iff cancel_ctx_def)
    qed
    with True inv stop c all(1) show ?thesis
      by (auto simp: life_inv_def goroutines_ok_def Provider_Close_def)
  qed
qed

text \<open>
  C8. Over any life of a provider: the manager and the election are started at most once, and
  the election never by an observer; closing a started provider never fails, forgets every
  subscription, and ends the contexts of all subscriptions and goroutines; closing one that
  was never started reports so.
\<close>

theorem life_cycle_safe:
  assumes "unstarted x0" and "lives x0 (p, rt, s)"
  shows "length (filter is_election (pv_goroutines p)) \<le> (if pv_isObserver p then 0 else 1)
    \<and> length (filter (\<lambda>g. \<not> is_election g) (pv_goroutines p)) \<le> 1
    \<and> (\<exists>r p' rt'. Provider_Close p rt = (r, p', rt')
       \<and> r = (if pv_started p then Inr () else Inl ErrClosed)
       \<and> (r = Inr () \<longrightarrow> pv_subs p' = []
            \<and> (\<forall>(i, sub) \<in> set (pv_subs p). ctx_done rt' (ks_ctx sub))
            \<and> (\<forall>g \<in> set (pv_goroutines p). ctx_done rt' (goroutine_ctx g))))"
  by (rule life_cycle_safe_lemma[OF assms])

text \<open>An example provider, in a cluster whose namespace is \<open>mesh\<close>, and one in a given namespace.\<close>

definition example_env :: "string \<Rightarrow> (mem_state, unit) setup_env" where
  "example_env holder = \<lparr>se_ResolveTCPAddr = (\<lambda>a. Inr \<lparr>tcp_ip = Addr4 0, tcp_port = 9443\<rparr>),
     se_Stat = (\<lambda>p. StatOk), se_ReadFile = (\<lambda>p. Inr ''mesh''), se_Complete = (\<lambda>n. Inr ()),
     se_NewCoreV1 = Inr (), se_NewCoordination = Inr (), se_NewLock = (\<lambda>t ns n i. Inr ()),
     se_NewLeaderElector = (\<lambda>l d r t. Inr (lease_elector holder ''node-a''))\<rparr>"

definition example_options :: "string \<Rightarrow> provider_options" where
  "example_options ns = \<lparr>po_NodeID = ''node-a'', po_ListenPort = 9443, po_MetricsPort = 0, po_ProbePort = 0,
     po_ShutdownTimeout = 0, po_Namespace = ns, po_LeaseDuration = 15, po_RenewDeadline = 10,
     po_RetryPeriod = 2, po_DisableCache = True\<rparr>"

definition example_provider :: "string \<Rightarrow> string \<Rightarrow> mem_state provider" where
  "example_provider holder ns = projr (NewWithManager (example_env holder) mem_client (example_options ns))"

lemma example_provider_new:
  "NewWithManager (example_env holder) mem_client (example_options ns) = Inr (example_provider holder ns)"
  by (simp add: example_provider_def NewWithManager_def setupWithManager_def setup_election_def example_env_def
      example_options_def new_provider_def getInClusterNamespace_def New_database_def NewDB_def Let_def)

lemma example_provider_simps [simp]:
  "pv_cli (example_provider holder ns) = mem_client"
  "pv_leaders (example_provider holder ns) = Some (lease_elector holder ''node-a'')"
  "\<not> pv_isObserver (example_provider holder ns)" "\<not> pv_started (example_provider holder ns)"
  "pv_self (example_provider holder ns) = None" "pv_stop (example_provider holder ns) = None"
  "pv_subs (example_provider holder ns) = []" "pv_goroutines (example_provider holder ns) = []"
  "po_NodeID (pv_Options (example_provider holder ns)) = ''node-a''"
  "po_Namespace (pv_Options (example_provider holder ns)) = (if ns = [] then ''mesh'' else ns)"
  "pv_lport (example_provider holder ns) = 9443"
  by (simp_all add: example_provider_def NewWithManager_def setupWithManager_def setup_election_def example_env_def
      example_options_def new_provider_def getInClusterNamespace_def New_database_def NewDB_def Let_def)

definition example_life :: "mem_state life" where
  "example_life = (example_provider ''node-a'' ''default'', \<lparr>rt_cancelled = [], rt_next = 0\<rparr>, mem_init)"

lemma example_unstarted: "unstarted example_life"
  by (simp add: example_life_def unstarted_def)

definition example_started :: "mem_state provider" where
  "example_started = (example_provider ''node-a'' ''default'')\<lparr>pv_started := True, pv_stop := Some 0,
     pv_goroutines := [RunManager (Derived Background 0), RunElection (Derived Background 0)]\<rparr>"

lemma example_lives: "lives example_life (example_started, \<lparr>rt_cancelled = [], rt_next = 1\<rparr>, mem_init)"
proof -
  have "life_step (LStart Background) example_life = (example_started, \<lparr>rt_cancelled = [], rt_next = 1\<rparr>, mem_init)"
    by (simp add: example_life_def example_started_def Start_def StartManaged_def WithCancel_def)
  with lives_step[OF lives_start, of example_life "LStart Background"] show ?thesis by simp
qed

theorem life_cycle_safe_witness:
  "\<exists>p' rt'. Provider_Close example_started \<lparr>rt_cancelled = [], rt_next = 1\<rparr> = (Inr (), p', rt')
    \<and> ctx_done rt' (Derived Background 0)"
  using life_cycle_safe[OF example_unstarted example_lives] by (auto simp: example_started_def)

text \<open>
  A provider that was closed counts as started for good: it cannot be started again, it can be
  closed again, and its status is not that of a closed provider.
\<close>

theorem closed_provider_stays_started:
  assumes "unstarted x0" and "lives x0 (p, rt, s)" and "Provider_Close p rt = (Inr (), p', rt')"
  shows "Start c p' rt' = (Inl ErrStarted, p', rt') \<and> StartUnmanaged c p' rt' = (Inl ErrStarted, p', rt')
    \<and> (\<exists>rt''. Provider_Close p' rt' = (Inr (), p', rt''))
    \<and> (\<forall>st s' s''. Status p' s' = (Inr st, s'') \<longrightarrow> ss_Message st \<noteq> Some ErrClosed)"
proof -
  obtain subs rt1 where c: "close_kv_subs (pv_subs p) (pv_subs p) rt = (subs, rt1)" by fastforce
  with assms(3) close_kv_subs_all(1)[OF c] have p: "pv_started p'" "pv_subs p' = []" "pv_stop p' \<noteq> None"
    by (auto simp: Provider_Close_def split: if_splits option.splits)
  have "ss_Message st \<noteq> Some ErrClosed" if "Status p' s' = (Inr st, s'')" for st s' s''
  proof -
    obtain r s1 where g: "GetPeers (provider_consensus p') s' = (r, s1)" by fastforce
    show ?thesis
      using that p(1) g
      by (cases r) (auto simp: Status_def lone_status_def split: if_splits prod.splits sum.splits)
  qed
  moreover have "p'\<lparr>pv_subs := []\<rparr> = p'" using p(2) by (cases p') simp
  ultimately show ?thesis
    using p by (auto simp: Start_def StartManaged_def StartUnmanaged_def Provider_Close_def)
qed

theorem closed_provider_stays_started_witness:
  "\<exists>p' rt'. Provider_Close example_started \<lparr>rt_cancelled = [], rt_next = 1\<rparr> = (Inr (), p', rt')
    \<and> Start Background p' rt' = (Inl ErrStarted, p', rt')"
proof -
  obtain p' rt' where c: "Provider_Close example_started \<lparr>rt_cancelled = [], rt_next = 1\<rparr> = (Inr (), p', rt')"
    by (auto simp: Provider_Close_def example_started_def)
  from closed_provider_stays_started[OF example_unstarted example_lives c, of Background] c show ?thesis by blast
qed

subsection \<open>The loop of the leader election\<close>

lemma RunLeaderElection_returns:
  "fin ((run ^^ Suc n) w) \<Longrightarrow> \<exists>w'. RunLeaderElection run fin w = Some w' \<and> fin w'"
proof (induction n arbitrary: w)
  case 0
  then show ?case by (subst RunLeaderElection.simps) simp
next
  case (Suc n)
  then have "fin ((run ^^ Suc n) (run w))" by (simp add: funpow_swap1)
  from Suc.IH[OF this] show ?case by (subst RunLeaderElection.simps) (auto simp: Let_def)
qed

lemma RunLeaderElection_done:
  assumes "RunLeaderElection run fin w = Some w'"
  shows "\<exists>n. w' = (run ^^ Suc n) w \<and> fin w'"
proof (rule RunLeaderElection.raw_induct[OF _ assms, where P = "\<lambda>run fin w w'. \<exists>n. w' = (run ^^ Suc n) w \<and> fin w'"])
  fix F :: "('a \<Rightarrow> 'a) \<Rightarrow> ('a \<Rightarrow> bool) \<Rightarrow> 'a \<Rightarrow> 'a option" and run fin w w'
  assume IH: "\<And>run fin w w'. F run fin w = Some w' \<Longrightarrow> \<exists>n. w' = (run ^^ Suc n) w \<and> fin w'"
    and eq: "(let w' = run w in if fin w' then Some w' else F run fin w') = Some w'"
  show "\<exists>n. w' = (run ^^ Suc n) w \<and> fin w'"
  proof (cases "fin (run w)")
    case True
    with eq show ?thesis by (auto intro!: exI[of _ 0])
  next
    case False
    with eq have "F run fin (run w) = Some w'" by (simp add: Let_def)
    from IH[OF this] obtain n where "w' = (run ^^ Suc n) (run w)" "fin w'" by blast
    then show ?thesis by (intro exI[of _ "Suc n"]) (simp add: funpow_swap1)
  qed
qed

lemma RunLeaderElection_iff:
  "(\<exists>w'. RunLeaderElection run fin w = Some w') \<longleftrightarrow> (\<exists>n. fin ((run ^^ Suc n) w))"
proof
  assume "\<exists>w'. RunLeaderElection run fin w = Some w'"
  then obtain w' where w': "RunLeaderElection run fin w = Some w'" by (rule exE)
  from RunLeaderElection_done[OF w'] obtain n where "w' = (run ^^ Suc n) w" "fin w'" by (elim exE conjE)
  then have "fin ((run ^^ Suc n) w)" by (simp only:)
  then show "\<exists>n. fin ((run ^^ Suc n) w)" by (rule exI)
next
  assume "\<exists>n. fin ((run ^^ Suc n) w)"
  then obtain n where n: "fin ((run ^^ Suc n) w)" by (rule exE)
  from RunLeaderElection_returns[where fin = fin and run = run and w = w, OF n] show "\<exists>w'. RunLeaderElection run fin w = Some w'" by (elim exE conjE) (rule exI)
qed

text \<open>
  C17. The loop of the leader election returns exactly when its context is done after some round;
  in particular, once the provider is closed it returns after the round it is in, when cancelled
  contexts stay cancelled.
\<close>

theorem election_ends_with_close:
  assumes "unstarted x0" and "lives x0 (p, rt, s)" and "Provider_Close p rt = (Inr (), p', rt')"
    and "RunElection c \<in> set (pv_goroutines p)"
    and "\<And>w. ctx_done (fst w) c \<Longrightarrow> ctx_done (fst (run w)) c"
  shows "RunLeaderElection run (\<lambda>w. ctx_done (fst w) c) (rt', e) = Some (run (rt', e))
    \<and> ((\<exists>w'. RunLeaderElection run (\<lambda>w. ctx_done (fst w) c) w = Some w')
        \<longleftrightarrow> (\<exists>n. ctx_done (fst ((run ^^ Suc n) w)) c))"
proof -
  have "ctx_done rt' c"
    using life_cycle_safe_lemma[OF assms(1,2)] assms(3,4) by fastforce
  then have "ctx_done (fst (run (rt', e))) c" by (intro assms(5)) simp
  then have "RunLeaderElection run (\<lambda>w. ctx_done (fst w) c) (rt', e) = Some (run (rt', e))"
    by (subst RunLeaderElection.simps) simp
  moreover have "(\<exists>w'. RunLeaderElection run (\<lambda>w. ctx_done (fst w) c) w = Some w')
      \<longleftrightarrow> (\<exists>n. ctx_done (fst ((run ^^ Suc n) w)) c)"
    by (rule RunLeaderElection_iff)
  ultimately show ?thesis by blast
qed

theorem election_ends_with_close_witness:
  "\<exists>p' rt'. Provider_Close example_started \<lparr>rt_cancelled = [], rt_next = 1\<rparr> = (Inr (), p', rt')
    \<and> RunLeaderElection (\<lambda>w. (fst w, Suc (snd w))) (\<lambda>w. ctx_done (fst w) (Derived Background 0)) (rt', 0) = Some (rt', 1)"
proof -
  obtain p' rt' where c: "Provider_Close example_started \<lparr>rt_cancelled = [], rt_next = 1\<rparr> = (Inr (), p', rt')"
    by (auto simp: Provider_Close_def example_started_def)
  have "RunElection (Derived Background 0) \<in> set (pv_goroutines example_started)" by (simp add: example_started_def)
  from election_ends_with_close[OF example_unstarted example_lives c this, of "\<lambda>w. (fst w, Suc (snd w))" 0] c
  show ?thesis by auto
qed

subsection \<open>Construction\<close>

text \<open>
  A new provider keeps its keys and storage peers in the given namespace, or in that of the
  cluster when none is given, and is not started; it listens on the resolved port. The
  database and the lease of the election always use the namespace as it was given, also when that
  is empty and the rest uses another.
\<close>

theorem construction_namespaces:
  assumes "NewWithManager env cli opts = Inr p"
  shows "Inr (po_Namespace (pv_Options p)) =
      (if po_Namespace opts = [] then getInClusterNamespace env else Inr (po_Namespace opts))
    \<and> co_Namespace (provider_consensus p) = po_Namespace (pv_Options p)
    \<and> (\<exists>db. pv_datastore p = Some db \<and> gs_namespace (db_graph db) = po_Namespace opts
         \<and> rbac_namespace (db_rbac db) = po_Namespace opts)
    \<and> (\<exists>lock. se_NewLock env ''leases'' (po_Namespace opts) LeaderElectionID (po_NodeID opts) = Inr lock)
    \<and> \<not> pv_started p \<and> pv_subs p = [] \<and> pv_leaders p \<noteq> None
    \<and> (\<exists>laddr. se_ResolveTCPAddr env (''[::]:'' @ itoa_int (po_ListenPort opts)) = Inr laddr
         \<and> ListenPort p = word_of_int (tcp_port laddr))"
  using assms
  by (auto simp: NewWithManager_def setupWithManager_def setup_election_def new_provider_def New_database_def
      NewDB_def NewFromClient_def NewRBAC_def NewGraphStore_def provider_consensus_def ListenPort_def Let_def
      split: sum.splits if_splits)

theorem construction_namespaces_witness:
  "po_Namespace (pv_Options (example_provider ''node-a'' [])) = ''mesh''
    \<and> (\<exists>db. pv_datastore (example_provider ''node-a'' []) = Some db \<and> gs_namespace (db_graph db) = [])"
  using construction_namespaces[OF example_provider_new[of "''node-a''" "[]"]]
  by (auto simp: example_options_def)

subsection \<open>Bootstrap\<close>

lemma provider_consensus_simps [simp]:
  "co_cli (provider_consensus p) = pv_cli p" "co_Namespace (provider_consensus p) = po_Namespace (pv_Options p)"
  "co_NodeID (provider_consensus p) = po_NodeID (pv_Options p)"
  "co_leaders (provider_consensus p) = pv_leaders p" "co_isObserver (provider_consensus p) = pv_isObserver p"
  "co_self (provider_consensus p) = pv_self p"
  by (simp_all add: provider_consensus_def)

text \<open>
  C23. The first member to bootstrap an empty group becomes its only peer, a voter although it
  registers itself as the leader; whoever bootstraps after that is told that it is done, and
  changes nothing.
\<close>

theorem bootstrap_once:
  assumes "kube_ns_server cli view up admissible ns" and "up s" and "peers_wf view ns s"
    and "pv_cli p = cli" "po_Namespace (pv_Options p) = ns" "\<not> pv_isObserver p" "pv_started p"
    and "peer_content view ns s = Map.empty"
    and "\<And>obj. key_of obj = (StoragePeerT, ns, HashID (po_NodeID (pv_Options p))) \<Longrightarrow>
      ko_type obj = StoragePeerTypeMeta \<Longrightarrow> admissible obj"
    and "pv_cli p' = cli" "po_Namespace (pv_Options p') = ns" "pv_started p'"
  shows "\<exists>s1 s2. Bootstrap p s = (Inr (), s1)
    \<and> peer_content view ns s1 = [HashID (po_NodeID (pv_Options p)) \<mapsto>
        zero_storage_peer\<lparr>sp_id := po_NodeID (pv_Options p),
          sp_address := po_NodeID (pv_Options p) @ '':'' @ itoa (unat (pv_lport p)),
          sp_clusterStatus := CLUSTER_VOTER\<rparr>]
    \<and> Bootstrap p' s1 = (Inl ErrAlreadyBootstrapped, s2) \<and> view s2 = view s1"
proof -
  let ?c = "provider_consensus p"
  let ?q = "zero_storage_peer\<lparr>sp_id := po_NodeID (pv_Options p),
      sp_address := po_NodeID (pv_Options p) @ '':'' @ itoa (unat (pv_lport p)), sp_clusterStatus := CLUSTER_LEADER\<rparr>"
  note ns = kube_ns_server.axioms(2)[OF assms(1)]
  have c: "co_cli ?c = cli" "co_Namespace ?c = ns" "\<not> co_isObserver ?c" using assms(4-6) by simp_all
  obtain peers s1 where g: "getPeers ?c s = (Inr peers, s1)" "view s1 = view s" "up s1"
    "set peers = ran (peer_content view ns s)"
    by (rule kube_ns_server.getPeers_up[OF assms(1,2) c(1,2)])
  then have "peers = []" using assms(8) by simp
  have adm: "admissible obj" if "key_of obj = (StoragePeerT, ns, HashID (sp_id ?q))" "ko_type obj = StoragePeerTypeMeta" for obj
    using that by (intro assms(9)) simp_all
  obtain s2 where a: "AddVoter ?c ?q s1 = (Inr (), s2)" "up s2"
    using kube_ns_server.AddVoter_up[OF assms(1) g(3) c(1,2) adm c(3)] by blast
  have b: "Bootstrap p s = (Inr (), s2)" using assms(7) g(1) \<open>peers = []\<close> a(1) by (simp add: Bootstrap_def)
  have wf: "peers_wf view ns s1" using assms(3) g(2) by (simp add: peers_wf_def)
  have step: "cons_step ?c (OpAddVoter ?q) s1 = (Inr (), s2)" using a(1) by simp
  have content: "peer_content view ns s2 = [HashID (po_NodeID (pv_Options p)) \<mapsto> ?q\<lparr>sp_clusterStatus := CLUSTER_VOTER\<rparr>]"
    using kube_ns.cons_step_content(1)[OF ns wf step c(1,2) refl]
    unfolding named_content_cong[OF g(2), of as_storage_peer StoragePeerT ns] assms(8) by simp
  have c': "co_cli (provider_consensus p') = cli" "co_Namespace (provider_consensus p') = ns"
    using assms(10,11) by simp_all
  obtain peers' s3 where g': "getPeers (provider_consensus p') s2 = (Inr peers', s3)" "view s3 = view s2"
    "set peers' = ran (peer_content view ns s2)"
    by (rule kube_ns_server.getPeers_up[OF assms(1) a(2) c'])
  then have "peers' \<noteq> []" using content by auto
  then have "Bootstrap p' s2 = (Inl ErrAlreadyBootstrapped, s3)" using assms(12) g'(1) by (simp add: Bootstrap_def)
  with b content g'(2) show ?thesis by auto
qed

theorem bootstrap_once_witness:
  "\<exists>s1 s2. Bootstrap example_started mem_init = (Inr (), s1)
    \<and> Bootstrap example_started s1 = (Inl ErrAlreadyBootstrapped, s2)"
proof -
  have e: "pv_cli example_started = mem_client" "po_Namespace (pv_Options example_started) = ''default''"
    "\<not> pv_isObserver example_started" "pv_started example_started" by (simp_all add: example_started_def)
  have c: "peer_content mem_view ''default'' mem_init = Map.empty" by (simp add: named_content_def fun_eq_iff)
  have "\<exists>s1 s2. Bootstrap example_started mem_init = (Inr (), s1)
    \<and> peer_content mem_view ''default'' s1 = [HashID (po_NodeID (pv_Options example_started)) \<mapsto>
        zero_storage_peer\<lparr>sp_id := po_NodeID (pv_Options example_started),
          sp_address := po_NodeID (pv_Options example_started) @ '':'' @ itoa (unat (pv_lport example_started)),
          sp_clusterStatus := CLUSTER_VOTER\<rparr>]
    \<and> Bootstrap example_started s1 = (Inl ErrAlreadyBootstrapped, s2) \<and> mem_view s2 = mem_view s1"
    by (rule bootstrap_once[OF mem_kube_ns_server mem_up_init example_peers_wf e c _ e(1,2,4)]) (rule mem_admits_peer)
  then show ?thesis by blast
qed

subsection \<open>Status\<close>

text \<open>
  C22. A started member that is in the group reports all stored peers, itself as the leader exactly
  when it holds the lease, and as writable then; a node that is not in the group reports itself
  alone.
\<close>

theorem status_of_a_member:
  assumes "lease cli view up admissible ns leaders NodeID holder" and "up s" and "peers_wf view ns s"
    and "pv_cli p = cli" "po_Namespace (pv_Options p) = ns" "po_NodeID (pv_Options p) = NodeID"
    and "pv_leaders p = Some leaders" "\<not> pv_isObserver p" "pv_started p"
  shows "\<exists>peers s'. set peers = ran (peer_content view ns s) \<and> view s' = view s \<and> Status p s =
     (Inr (if \<forall>q \<in> set peers. sp_id q \<noteq> NodeID then lone_status p ErrNotVoter
           else \<lparr>ss_IsWritable = (holder s = NodeID),
                 ss_ClusterStatus = (if holder s = NodeID then CLUSTER_LEADER else CLUSTER_VOTER),
                 ss_Peers = map (\<lambda>q. if sp_id q = NodeID \<and> holder s = NodeID
                     then q\<lparr>sp_clusterStatus := CLUSTER_LEADER\<rparr> else q) peers,
                 ss_Message = None\<rparr>), s')"
proof -
  let ?c = "provider_consensus p"
  have c: "co_cli ?c = cli" "co_Namespace ?c = ns" "co_leaders ?c = Some leaders" "\<not> co_isObserver ?c"
    using assms(4,5,7,8) by simp_all
  obtain peers s1 where g: "getPeers ?c s = (Inr peers, s1)" "view s1 = view s" "set peers = ran (peer_content view ns s)"
    by (rule kube_ns_server.getPeers_up[OF lease.axioms(1)[OF assms(1)] assms(2) c(1,2)])
  have h1: "holder s1 = holder s" by (rule lease.getPeers_holder[OF assms(1) g(1) c(1)])
  have isl: "\<exists>s'. leaders_IsLeader p t = (Inr (holder t = NodeID), s') \<and> holder s' = holder t \<and> view s' = view t" for t
  proof -
    obtain b s' where "el_IsLeader leaders t = (b, s')" by fastforce
    with lease.is_leader[OF assms(1) this] assms(7) show ?thesis by (simp add: leaders_IsLeader_def)
  qed
  have sp: "\<exists>s'. status_peers p ps out t = (Inr (out @ map (\<lambda>q. if sp_id q = NodeID \<and> holder t = NodeID
        then q\<lparr>sp_clusterStatus := CLUSTER_LEADER\<rparr> else q) ps), s') \<and> view s' = view t" for ps out t
  proof (induction ps arbitrary: out t)
    case Nil
    show ?case by (intro exI[of _ t]) simp
  next
    case (Cons q ps)
    show ?case
    proof (cases "sp_id q = NodeID")
      case False
      with Cons[of "out @ [q]" t] assms(6) show ?thesis by simp
    next
      case True
      obtain t1 where t1: "IsLeader ?c t = (Inr (holder t = NodeID), t1)" "holder t1 = holder t" "view t1 = view t"
        using lease.IsLeader_lease[OF assms(1) c(3,4)] by metis
      from Cons[of "out @ [if holder t = NodeID then q\<lparr>sp_clusterStatus := CLUSTER_LEADER\<rparr> else q]" t1] t1 True assms(6)
      show ?thesis by simp
    qed
  qed
  have G: "GetPeers ?c s = (Inr peers, s1)" using g(1) by (simp add: GetPeers_def)
  show ?thesis
  proof (cases "\<forall>q \<in> set peers. sp_id q \<noteq> NodeID")
    case True
    with G g(2,3) assms(6,9) show ?thesis
      by (intro exI[of _ peers] exI[of _ s1]) (simp add: Status_def containsPeer_iff)
  next
    case False
    then have absent: "(\<forall>q \<in> set peers. sp_id q \<noteq> NodeID) = False" and present: "containsPeer peers NodeID"
      by (auto simp: containsPeer_iff)
    obtain s2 where s2: "leaders_IsLeader p s1 = (Inr (holder s1 = NodeID), s2)" "holder s2 = holder s1" "view s2 = view s1"
      using isl by blast
    obtain s3 where s3: "leaders_IsLeader p s2 = (Inr (holder s2 = NodeID), s3)" "holder s3 = holder s2" "view s3 = view s2"
      using isl by blast
    obtain s4 where s4: "status_peers p peers [] s3 = (Inr ([] @ map (\<lambda>q. if sp_id q = NodeID \<and> holder s3 = NodeID
        then q\<lparr>sp_clusterStatus := CLUSTER_LEADER\<rparr> else q) peers), s4)" "view s4 = view s3"
      using sp by blast
    have "Status p s = (Inr (if \<forall>q \<in> set peers. sp_id q \<noteq> NodeID then lone_status p ErrNotVoter
           else \<lparr>ss_IsWritable = (holder s = NodeID),
                 ss_ClusterStatus = (if holder s = NodeID then CLUSTER_LEADER else CLUSTER_VOTER),
                 ss_Peers = map (\<lambda>q. if sp_id q = NodeID \<and> holder s = NodeID
                     then q\<lparr>sp_clusterStatus := CLUSTER_LEADER\<rparr> else q) peers,
                 ss_Message = None\<rparr>), s4)"
      unfolding absent if_False using present G h1 s2 s3 s4 assms(6,9) by (simp add: Status_def)
    moreover have "view s4 = view s" using s2(3) s3(3) s4(2) g(2) by simp
    ultimately show ?thesis using g(3) by (intro exI conjI)
  qed
qed

theorem status_of_a_member_witness:
  "\<exists>s st s'. Status example_started s = (Inr st, s') \<and> ss_IsWritable st \<and> ss_ClusterStatus st = CLUSTER_LEADER
    \<and> set (ss_Peers st) = {(example_peer ''node-a'')\<lparr>sp_clusterStatus := CLUSTER_LEADER\<rparr>}"
proof -
  let ?q = "(example_peer ''node-a'')\<lparr>sp_clusterStatus := CLUSTER_VOTER\<rparr>"
  obtain s where s: "mem_up s" "peers_wf mem_view ''default'' s"
    "peer_content mem_view ''default'' s = [HashID ''node-a'' \<mapsto> ?q]"
    by (rule example_group[of "''node-a''" "''node-a''"])
  have e: "pv_cli example_started = mem_client" "po_Namespace (pv_Options example_started) = ''default''"
    "po_NodeID (pv_Options example_started) = ''node-a''"
    "pv_leaders example_started = Some (lease_elector ''node-a'' ''node-a'')"
    "\<not> pv_isObserver example_started" "pv_started example_started" by (simp_all add: example_started_def)
  obtain peers s' where "set peers = ran (peer_content mem_view ''default'' s)" and
    st: "Status example_started s =
     (Inr (if \<forall>q \<in> set peers. sp_id q \<noteq> ''node-a'' then lone_status example_started ErrNotVoter
           else \<lparr>ss_IsWritable = (''node-a'' = ''node-a''),
                 ss_ClusterStatus = (if ''node-a'' = ''node-a'' then CLUSTER_LEADER else CLUSTER_VOTER),
                 ss_Peers = map (\<lambda>q. if sp_id q = ''node-a'' \<and> ''node-a'' = ''node-a''
                     then q\<lparr>sp_clusterStatus := CLUSTER_LEADER\<rparr> else q) peers,
                 ss_Message = None\<rparr>), s')"
    using status_of_a_member[where view = mem_view and s = s and holder = "\<lambda>_. ''node-a''",
      OF mem_lease_axioms s(1,2) e] by (elim exE conjE)
  then have p: "set peers = {?q}" unfolding s(3) by simp
  show ?thesis
    by (rule exI, rule exI, rule exI, rule conjI[OF st]) (simp add: p)
qed

text \<open>
  C35. A started observer that has joined the group panics when it is asked for its status: it has
  no elector to ask whether it leads.
\<close>

theorem status_of_a_joined_observer_panics:
  assumes "kube_ns_server cli view up admissible ns" and "up s" and "NewObserverWithManager env cli opts = Inr p0"
    and "Start c p0 rt = (Inr (), p, rt')" and "po_Namespace (pv_Options p0) = ns"
    and "\<And>obj. key_of obj = (StoragePeerT, ns, HashID (po_NodeID opts)) \<Longrightarrow> ko_type obj = StoragePeerTypeMeta \<Longrightarrow> admissible obj"
    and "peers_wf view ns s" and "sp_id q = po_NodeID opts"
  shows "\<exists>s1 s2. AddObserver (provider_consensus p) q s = (Inr (), s1)
    \<and> Status p s1 = (Inl NilDereference, s2)"
proof -
  note ns = kube_ns_server.axioms(2)[OF assms(1)]
  have p0: "pv_cli p0 = cli" "pv_leaders p0 = None" "pv_isObserver p0" "po_NodeID (pv_Options p0) = po_NodeID opts"
    using assms(3) by (auto simp: NewObserverWithManager_def setupWithManager_def new_provider_def Let_def
        split: sum.splits if_splits)
  with assms(4,5) have p: "pv_cli p = cli" "pv_leaders p = None" "pv_isObserver p" "pv_started p"
    "po_NodeID (pv_Options p) = po_NodeID opts" "po_Namespace (pv_Options p) = ns"
    by (auto simp: Start_def StartManaged_def split: if_splits prod.splits)
  let ?c = "provider_consensus p"
  have c: "co_cli ?c = cli" "co_Namespace ?c = ns" using p by simp_all
  have adm: "admissible obj" if "key_of obj = (StoragePeerT, ns, HashID (sp_id q))" "ko_type obj = StoragePeerTypeMeta" for obj
    using that unfolding assms(8) by (rule assms(6))
  obtain s1 where a: "AddObserver ?c q s = (Inr (), s1)" "up s1"
    using kube_ns_server.AddObserver_up[OF assms(1,2) c adm] assms(8) p(5) by auto
  have step: "cons_step ?c (OpAddObserver q) s = (Inr (), s1)" using a(1) by simp
  note content = kube_ns.cons_step_content(1)[OF ns assms(7) step c refl]
  obtain peers s2 where g: "getPeers ?c s1 = (Inr peers, s2)" "set peers = ran (peer_content view ns s1)"
    by (rule kube_ns_server.getPeers_up[OF assms(1) a(2) c])
  have "q\<lparr>sp_clusterStatus := CLUSTER_OBSERVER\<rparr> \<in> set peers" unfolding g(2) content by (auto simp: ran_def)
  then have "containsPeer peers (po_NodeID opts)"
    unfolding containsPeer_iff by (rule rev_bexI) (simp add: assms(8))
  then have "Status p s1 = (Inl NilDereference, s2)"
    using p g(1) by (simp add: Status_def GetPeers_def leaders_IsLeader_def)
  with a(1) show ?thesis by blast
qed

theorem status_of_a_joined_observer_panics_witness:
  "\<exists>p0 p rt s1 s2. NewObserverWithManager (example_env ''x'') mem_client (example_options ''default'') = Inr p0
    \<and> Start Background p0 \<lparr>rt_cancelled = [], rt_next = 0\<rparr> = (Inr (), p, rt)
    \<and> Status p s1 = (Inl NilDereference, s2)"
proof -
  obtain p0 where p0: "NewObserverWithManager (example_env ''x'') mem_client (example_options ''default'') = Inr p0"
    "\<not> pv_started p0" "po_Namespace (pv_Options p0) = ''default''"
    by (auto simp: NewObserverWithManager_def setupWithManager_def example_env_def example_options_def
        new_provider_def New_database_def NewDB_def Let_def)
  obtain p rt where st: "Start Background p0 \<lparr>rt_cancelled = [], rt_next = 0\<rparr> = (Inr (), p, rt)"
    using p0(2) by (auto simp: Start_def StartManaged_def WithCancel_def)
  have i: "sp_id (example_peer ''node-a'') = po_NodeID (example_options ''default'')" by (simp add: example_options_def)
  have "\<exists>s1 s2. AddObserver (provider_consensus p) (example_peer ''node-a'') mem_init = (Inr (), s1)
      \<and> Status p s1 = (Inl NilDereference, s2)"
    by (rule status_of_a_joined_observer_panics[OF mem_kube_ns_server mem_up_init p0(1) st p0(3) _ example_peers_wf i])
      (rule mem_admits_peer)
  with p0(1) st show ?thesis by blast
qed

text \<open>A failure to list the peers is reported as not being a voter.\<close>

lemma status_list_error:
  assumes "pv_started p" and "GetPeers (provider_consensus p) s = (Inl e, s')"
  shows "Status p s = (Inr (lone_status p ErrNotVoter), s')"
  using assms by (simp add: Status_def)

end
