(* ===== verification/ClusterProps.thy ===== *)
theory ClusterProps
  imports Cluster ProviderProps
begin

text \<open>
  The properties of several nodes on one namespace: what any interleaving of their operations
  keeps, what two that believe to lead can lose, two bootstraps at a time, and a value on its way
  from the leader to a subscriber on another node.
\<close>

subsection \<open>Interleavings\<close>

context kv_cluster begin

lemma store_from_init:
  assumes "st \<in> nodes" and "kv_inv st K view ns s"
  shows "store_from {item. \<exists>key \<in> K. kv_content st view ns s key = Some item \<and> item_Key item = key} K s"
  unfolding store_from_def data_from_def entry_from_def
proof (intro ballI allI impI)
  fix key h d assume d: "key \<in> K" "bucket_data view ns s (bucketForKey key) h = Some d"
  from kv_inv_bucket_data[OF assms(2) d] obtain item where i: "st_Unmarshal st d = Inr item"
    "item_Key item \<in> K" "bucketForKey key = bucketForKey (item_Key item)" "h = hashKey (item_Key item)"
    by (auto simp: entry_placed_def)
  then have "kv_content st view ns s (item_Key item) = Some item"
    using d(2) by (simp add: kv_content_def kv_raw_def)
  with i show "\<exists>item \<in> {item. \<exists>key \<in> K. kv_content st view ns s key = Some item \<and> item_Key item = key}.
      unmarshal d = Inr item \<and> bucketForKey key = bucketForKey (item_Key item) \<and> h = hashKey (item_Key item)"
    using node_codec[OF assms(1)] by (intro bexI[of _ item]) auto
qed

lemma cluster_reaches_inv:
  "cluster_reaches nodes K c0 c \<Longrightarrow> cluster_inv K I c0 \<Longrightarrow> cluster_inv K I c"
  by (induction rule: cluster_reaches.induct) (auto intro: cluster_act_inv)

lemma initial_inv:
  assumes "cl_pending c = []" and "\<forall>st \<in> nodes. kv_inv st K view ns (cl_server c)" and "st \<in> nodes"
  shows "cluster_inv K {item. \<exists>key \<in> K. kv_content st view ns (cl_server c) key = Some item \<and> item_Key item = key} c"
proof -
  let ?I = "{item. \<exists>key \<in> K. kv_content st view ns (cl_server c) key = Some item \<and> item_Key item = key}"
  have "store_from ?I K (cl_server c)" using assms(2,3) by (intro store_from_init) auto
  then have "store_from (items_of K ?I c) K (cl_server c)"
    by (rule store_from_mono) (auto simp: items_of_def)
  with assms(1,2) show ?thesis by (simp add: cluster_inv_def)
qed

lemma reachable_entries:
  assumes "cluster_reaches nodes K c0 c" and "cl_pending c0 = []"
    and "\<forall>st \<in> nodes. kv_inv st K view ns (cl_server c0)" and "st \<in> nodes"
  shows "kv_inv st K view ns (cl_server c)"
    and "key \<in> K \<Longrightarrow> kv_content st view ns (cl_server c) key = Some item \<Longrightarrow> item_Key item = key
      \<and> (kv_content st view ns (cl_server c0) key = Some item \<or> item \<in> set (cl_puts c))"
proof -
  let ?I = "{item. \<exists>key \<in> K. kv_content st view ns (cl_server c0) key = Some item \<and> item_Key item = key}"
  note inv = cluster_reaches_inv[OF assms(1) initial_inv[OF assms(2-4)]]
  with assms(4) show "kv_inv st K view ns (cl_server c)" by (simp add: cluster_inv_def)
  assume key: "key \<in> K" and item: "kv_content st view ns (cl_server c) key = Some item"
  then obtain d where d: "bucket_data view ns (cl_server c) (bucketForKey key) (hashKey key) = Some d"
    "st_Unmarshal st d = Inr item"
    by (auto simp: kv_content_def kv_raw_def split: option.splits sum.splits)
  with inv key have "entry_from unmarshal (items_of K ?I c) (bucketForKey key) (hashKey key) d"
    by (auto simp: cluster_inv_def store_from_def data_from_def)
  with d(2) node_codec[OF assms(4)] show "item_Key item = key
      \<and> (kv_content st view ns (cl_server c0) key = Some item \<or> item \<in> set (cl_puts c))"
    by (auto simp: entry_from_def items_of_def)
qed

end

text \<open>
  C7. However the nodes of a namespace interleave, call by call, whoever leads or believes to lead,
  and with writes that fail, are lost in a crash or come late: every entry stays filed under the
  bucket and the hash of its key, and what a node reads for a key is a value that was put for
  this key, or was there at first.
\<close>

theorem cluster_entries_were_put:
  assumes "kv_cluster cli view ns nodes unmarshal" and "cluster_reaches nodes K c0 c" and "cl_pending c0 = []"
    and "\<forall>st \<in> nodes. kv_inv st K view ns (cl_server c0)" and "st \<in> nodes" and "key \<in> K"
  shows "kv_inv st K view ns (cl_server c)
    \<and> (\<forall>v ed s'. GetValue st key (cl_server c) = (Inr v, ed, s') \<longrightarrow>
         (\<exists>item. item_Key item = key \<and> item_Value item = v
            \<and> (kv_content st view ns (cl_server c0) key = Some item \<or> item \<in> set (cl_puts c))))"
proof (intro conjI allI impI)
  note r = kv_cluster.reachable_entries[OF assms(1-5)]
  show "kv_inv st K view ns (cl_server c)" by (rule r(1))
  fix v ed s' assume "GetValue st key (cl_server c) = (Inr v, ed, s')"
  from kv_store.GetValue_value(1)[OF kv_cluster.node_store[OF assms(1,5)] this]
  obtain item where "kv_content st view ns (cl_server c) key = Some item" "item_Value item = v"
    by (auto simp: kv_read_def split: option.splits if_splits)
  with r(2)[OF assms(6)] show "\<exists>item. item_Key item = key \<and> item_Value item = v
      \<and> (kv_content st view ns (cl_server c0) key = Some item \<or> item \<in> set (cl_puts c))" by blast
qed

text \<open>What an action adds to the items that were put.\<close>

lemma cl_puts_PutBegin:
  "item \<in> set (cl_puts (cluster_act (PutBegin st key val ttl) c)) \<Longrightarrow>
     item \<in> set (cl_puts c) \<or> item_Key item = key \<and> item_Value item = val"
  by (auto simp: begin_write_def Let_def split: prod.splits sum.splits)

lemma cl_puts_Continue: "cl_puts (cluster_act (Continue i) c) = cl_puts c"
  by (auto simp: Let_def split: prod.splits sum.splits)

text \<open>Two nodes on the server of \<open>MemApi\<close>, of which the second does not lead.\<close>

definition mem_node :: "bool \<Rightarrow> mem_state storage" where
  "mem_node b = mem_storage\<lparr>st_leaders := Some (\<lambda>s. (b, s))\<rparr>"

interpretation mem_node: kv_store mem_client mem_view "''default''" "mem_node b"
  by unfold_locales (auto simp: mem_node_def mem_storage_def unary_codec)

interpretation mem_cluster: kv_cluster mem_client mem_view "''default''" "range mem_node" unary_unmarshal
proof (intro kv_cluster.intro kv_cluster_axioms.intro mem_ns.kube_ns_axioms)
  fix st assume "st \<in> range mem_node"
  then obtain b where b: "st = mem_node b" by blast
  show "kv_store mem_client mem_view ''default'' st" unfolding b by (rule mem_node.kv_store_axioms)
  show "st_Unmarshal st = unary_unmarshal" by (simp add: b mem_node_def mem_storage_def)
qed

lemma mem_node_True [simp]: "mem_node True = mem_storage"
  by (simp add: mem_node_def mem_storage_def)

definition example_cluster :: "mem_state cluster" where
  "example_cluster = \<lparr>cl_server = mem_init, cl_pending = [], cl_puts = []\<rparr>"

theorem cluster_entries_were_put_witness:
  "fst (GetValue (mem_node False) ''a/x''
       (cl_server (cluster_act (Continue 1) (cluster_act (Continue 0)
          (cluster_act (PutBegin (mem_node True) ''A/y'' ''2'' 0)
             (cluster_act (PutBegin (mem_node True) ''a/x'' ''1'' 0) example_cluster))))))
     \<in> insert (Inr ''1'') (range Inl)"
proof -
  let ?c1 = "cluster_act (PutBegin (mem_node True) ''a/x'' ''1'' 0) example_cluster"
  let ?c2 = "cluster_act (PutBegin (mem_node True) ''A/y'' ''2'' 0) ?c1"
  let ?c = "cluster_act (Continue 1) (cluster_act (Continue 0) ?c2)"
  have reach: "cluster_reaches (range mem_node) example_keys example_cluster ?c"
    by (intro cluster_step cluster_start) (simp_all add: example_key del: mem_node_True)
  have "\<forall>st \<in> range mem_node. kv_inv st example_keys mem_view ''default'' (cl_server example_cluster)"
    by (simp add: example_cluster_def kv_inv_def)
  from cluster_entries_were_put[OF mem_cluster.kv_cluster_axioms reach _ this rangeI example_key(1), of False]
  have "\<forall>v ed s'. GetValue (mem_node False) ''a/x'' (cl_server ?c) = (Inr v, ed, s') \<longrightarrow>
      (\<exists>item. item_Key item = ''a/x'' \<and> item_Value item = v \<and> item \<in> set (cl_puts ?c))"
    by (simp add: example_cluster_def kv_content_def kv_raw_def bucket_data_def del: cluster_act.simps)
  moreover have "item_Value item = ''1''" if "item \<in> set (cl_puts ?c)" "item_Key item = ''a/x''" for item
    using that cl_puts_PutBegin[of item "mem_node True" "''A/y''" "''2''" 0 ?c1]
      cl_puts_PutBegin[of item "mem_node True" "''a/x''" "''1''" 0 example_cluster]
    by (auto simp: cl_puts_Continue example_cluster_def simp del: cluster_act.simps)
  ultimately have only: "GetValue (mem_node False) ''a/x'' (cl_server ?c) = (Inr v, ed, s') \<Longrightarrow> v = ''1''" for v ed s' by blast
  obtain r ed s' where g: "GetValue (mem_node False) ''a/x'' (cl_server ?c) = (r, ed, s')" by (cases "GetValue (mem_node False) ''a/x'' (cl_server ?c)")
  show ?thesis unfolding g by (cases r) (use only g in auto)
qed

subsection \<open>Two leaders\<close>

text \<open>The write of a put whose Secret was read from a state that may have changed since.\<close>

context kv_live begin

lemma put_entry_stale:
  assumes "up s" and "key_of secret = (SecretT, ns, bucketForKey key)"
    and "secret_data secret = bucket_data view ns s0 (bucketForKey key)" and "bucket_admitted s0 key"
  obtains item d s' where "put_entry st key val ttl secret s = (Inr (), s')" and "up s'"
    and "put_item st key val ttl item" and "st_Unmarshal st d = Inr item"
    and "bucket_data view ns s' (bucketForKey key) = (bucket_data view ns s0 (bucketForKey key))(hashKey key \<mapsto> d)"
proof -
  obtain expiry s1 where e: "expiry_of st ttl s = (expiry, s1)" by fastforce
  let ?item = "\<lparr>item_Key = key, item_Value = val, item_Expiry = expiry\<rparr>"
  obtain d where d: "st_Marshal st ?item = Inr d" using marshals by blast
  let ?b = "store_entry secret (hashKey key) d"
  have k: "key_of ?b = (SecretT, ns, bucketForKey key)" using assms(2) by (simp add: key_of_def)
  have "\<exists>s'. patchBucket st ?b (rawBucketForKey key) s1 = (Inr (), s') \<and> up s'"
  proof (rule patchBucket_up[OF expiry_of_up[OF assms(1) e] k])
    fix obj assume o: "key_of obj = (SecretT, ns, bucketForKey key)" "ko_type obj = SecretTypeMeta"
      "om_labels (ko_meta obj) = bucket_labels (rawBucketForKey key)" "ko_payload obj = ko_payload ?b"
    have "dom (map_of (as_secret (ko_payload obj))) \<subseteq> insert (hashKey key) (dom (bucket_data view ns s0 (bucketForKey key)))"
      unfolding o(4) secret_entry_simps(3) assms(3)[symmetric] by (auto simp: secret_data_def)
    with o assms(4) show "admissible obj" by blast
  qed
  then obtain s' where s': "patchBucket st ?b (rawBucketForKey key) s1 = (Inr (), s')" "up s'" by blast
  have "bucket_data view ns s' (bucketForKey key) = (bucket_data view ns s0 (bucketForKey key))(hashKey key \<mapsto> d)"
    using patchBucket_data(1)[OF s'(1) k refl] assms(3) by (simp add: secret_data_def)
  moreover have "put_entry st key val ttl secret s = (Inr (), s')" using e d s' by (simp add: put_entry_def)
  ultimately show ?thesis using that s'(2) expiry_of_put_item[OF e] codec[OF d] by blast
qed

lemma PutValue_read_live:
  assumes "up s" and "st_IsValidPathID st key"
  obtains secret s' where "PutValue_read st key s = (Inr secret, s')" and "up s'" and "view s' = view s"
    and "key_of secret = (SecretT, ns, bucketForKey key)" and "secret_data secret = bucket_data view ns s (bucketForKey key)"
proof -
  obtain s1 where l: "IsLeading st s = (Inr True, s1)" "up s1" using IsLeading_up[OF assms(1)] by blast
  have "\<exists>secret s'. PutValue_read st key s = (Inr secret, s') \<and> up s'"
  proof (cases rule: get_bucket_up[OF l(2), of "bucketForKey key"])
    case 1 with l(1) assms(2) st_cli st_ns show ?thesis by (simp add: PutValue_read_def)
  next
    case 2 with l(1) assms(2) st_cli st_ns show ?thesis by (simp add: PutValue_read_def)
  qed
  then obtain secret s' where r: "PutValue_read st key s = (Inr secret, s')" "up s'" by blast
  from that[OF r PutValue_read_done(1)[OF r(1)]] PutValue_read_done(2)[OF r(1) refl] show ?thesis by blast
qed

end

text \<open>
  C27. Two nodes that both believe to lead, as they may for a while after one lost the lease, undo
  each other's writes without an error: when both have read a bucket before either writes it,
  the second write removes the key the first has put.
\<close>

theorem split_leaders_lose_a_put:
  assumes "kv_live cli view ns stA up admissible" and "kv_live cli view ns stB up admissible" and "up s"
    and "bucketForKey k1 = bucketForKey k2" and "k1 \<noteq> k2"
    and "st_IsValidPathID stA k1" and "st_IsValidPathID stB k2"
    and "kv_admitted admissible view ns s k1" and "kv_admitted admissible view ns s k2"
  shows "\<exists>secret1 s1 secret2 s2 s3 s4. PutValue_read stA k1 s = (Inr secret1, s1)
    \<and> PutValue_read stB k2 s1 = (Inr secret2, s2)
    \<and> put_entry stA k1 v1 0 secret1 s2 = (Inr (), s3)
    \<and> kv_content stA view ns s3 k1 = Some \<lparr>item_Key = k1, item_Value = v1, item_Expiry = 0\<rparr>
    \<and> put_entry stB k2 v2 0 secret2 s3 = (Inr (), s4)
    \<and> kv_content stB view ns s4 k2 = Some \<lparr>item_Key = k2, item_Value = v2, item_Expiry = 0\<rparr>
    \<and> kv_content stA view ns s4 k1 = kv_content stA view ns s k1"
proof -
  obtain secret1 s1 where r1: "PutValue_read stA k1 s = (Inr secret1, s1)" "up s1" "view s1 = view s"
    "key_of secret1 = (SecretT, ns, bucketForKey k1)" "secret_data secret1 = bucket_data view ns s (bucketForKey k1)"
    by (rule kv_live.PutValue_read_live[OF assms(1,3,6)])
  obtain secret2 s2 where r2: "PutValue_read stB k2 s1 = (Inr secret2, s2)" "up s2"
    "key_of secret2 = (SecretT, ns, bucketForKey k2)" "secret_data secret2 = bucket_data view ns s1 (bucketForKey k2)"
    by (rule kv_live.PutValue_read_live[OF assms(2) r1(2) assms(7)])
  have d2: "secret_data secret2 = bucket_data view ns s (bucketForKey k2)"
    using r2(4) bucket_data_cong[OF r1(3), of ns] by simp
  obtain item1 d1 s3 where w1: "put_entry stA k1 v1 0 secret1 s2 = (Inr (), s3)" "up s3"
    "put_item stA k1 v1 0 item1" "st_Unmarshal stA d1 = Inr item1"
    "bucket_data view ns s3 (bucketForKey k1) = (bucket_data view ns s (bucketForKey k1))(hashKey k1 \<mapsto> d1)"
    by (rule kv_live.put_entry_stale[OF assms(1) r2(2) r1(4,5) assms(8)[unfolded kv_admitted_def]])
  obtain item2 d2 s4 where w2: "put_entry stB k2 v2 0 secret2 s3 = (Inr (), s4)"
    "put_item stB k2 v2 0 item2" "st_Unmarshal stB d2 = Inr item2"
    "bucket_data view ns s4 (bucketForKey k2) = (bucket_data view ns s (bucketForKey k2))(hashKey k2 \<mapsto> d2)"
    by (rule kv_live.put_entry_stale[OF assms(2) w1(2) r2(3) d2 assms(9)[unfolded kv_admitted_def]])
  have i: "item1 = \<lparr>item_Key = k1, item_Value = v1, item_Expiry = 0\<rparr>"
    "item2 = \<lparr>item_Key = k2, item_Value = v2, item_Expiry = 0\<rparr>"
    using w1(3) w2(2) by (cases item1, simp add: put_item_def, cases item2, simp add: put_item_def)
  have c1: "kv_content stA view ns s3 k1 = Some item1" using w1(4,5) by (simp add: kv_content_def kv_raw_def)
  have c2: "kv_content stB view ns s4 k2 = Some item2" using w2(3,4) by (simp add: kv_content_def kv_raw_def)
  have "kv_raw view ns s4 k1 = kv_raw view ns s k1" using w2(4) assms(4,5) by (simp add: kv_raw_def)
  then have "kv_content stA view ns s4 k1 = kv_content stA view ns s k1" by (simp add: kv_content_def)
  with r1(1) r2(1) w1(1) w2(1) c1 c2 i show ?thesis by blast
qed

theorem split_leaders_lose_a_put_witness:
  "\<exists>secret1 s1 secret2 s2 s3 s4. PutValue_read mem_storage ''a/x'' mem_init = (Inr secret1, s1)
    \<and> PutValue_read mem_storage ''A/y'' s1 = (Inr secret2, s2)
    \<and> put_entry mem_storage ''a/x'' ''1'' 0 secret1 s2 = (Inr (), s3)
    \<and> put_entry mem_storage ''A/y'' ''2'' 0 secret2 s3 = (Inr (), s4)
    \<and> kv_content mem_storage mem_view ''default'' s4 ''a/x'' = None"
proof -
  have "bucketForKey ''a/x'' = bucketForKey ''A/y''" by (simp add: example_bucket example_key)
  moreover have "''a/x'' \<noteq> ''A/y''" by simp
  ultimately show ?thesis
    using split_leaders_lose_a_put[OF mem_kv_live mem_kv_live mem_up_init, of "''a/x''" "''A/y''" "''1''" "''2''"]
      example_admitted[OF example_inv_init] example_key
    by (auto simp: kv_content_def kv_raw_def bucket_data_def)
qed

subsection \<open>Two bootstraps\<close>

text \<open>\<open>Bootstrap\<close> up to the decision that the group is empty, and the rest.\<close>

definition Bootstrap_check :: "'s provider \<Rightarrow> ('s, unit) act" where
  "Bootstrap_check p s =
     (if \<not> pv_started p then (Inl ErrClosed, s)
      else (case getPeers (provider_consensus p) s of
              (Inl err, s') \<Rightarrow> (Inl err, s')
            | (Inr peers, s') \<Rightarrow> (if 0 < length peers then (Inl ErrAlreadyBootstrapped, s') else (Inr (), s'))))"

definition bootstrap_peer :: "'s provider \<Rightarrow> storage_peer" where
  "bootstrap_peer p = zero_storage_peer\<lparr>sp_id := po_NodeID (pv_Options p),
     sp_address := po_NodeID (pv_Options p) @ '':'' @ itoa (unat (pv_lport p)), sp_clusterStatus := CLUSTER_LEADER\<rparr>"

lemma bootstrap_peer_id [simp]: "sp_id (bootstrap_peer p) = po_NodeID (pv_Options p)"
  by (simp add: bootstrap_peer_def)

definition Bootstrap_join :: "'s provider \<Rightarrow> ('s, unit) act" where
  "Bootstrap_join p s = AddVoter (provider_consensus p) (bootstrap_peer p) s"

lemma Bootstrap_pieces:
  "Bootstrap p s =
     (case Bootstrap_check p s of (Inl err, s') \<Rightarrow> (Inl err, s') | (Inr _, s') \<Rightarrow> Bootstrap_join p s')"
  by (auto simp: Bootstrap_def Bootstrap_check_def Bootstrap_join_def bootstrap_peer_def split: prod.split sum.split)

context kube_ns_server begin

lemma Bootstrap_check_live:
  assumes "up s" and "pv_cli p = cli" "po_Namespace (pv_Options p) = ns" "pv_started p"
    and "peer_content view ns s = Map.empty"
  obtains s' where "Bootstrap_check p s = (Inr (), s')" and "view s' = view s" and "up s'"
proof -
  have c: "co_cli (provider_consensus p) = cli" "co_Namespace (provider_consensus p) = ns" using assms(2,3) by simp_all
  obtain peers s' where g: "getPeers (provider_consensus p) s = (Inr peers, s')" "view s' = view s" "up s'"
    "set peers = ran (peer_content view ns s)" by (rule getPeers_up[OF assms(1) c])
  with assms(5) have "peers = []" by simp
  with g assms(4) that show ?thesis by (simp add: Bootstrap_check_def)
qed

lemma Bootstrap_join_live:
  assumes "up s" and "pv_cli p = cli" "po_Namespace (pv_Options p) = ns" "\<not> pv_isObserver p"
    and "\<And>obj. key_of obj = (StoragePeerT, ns, HashID (po_NodeID (pv_Options p))) \<Longrightarrow>
      ko_type obj = StoragePeerTypeMeta \<Longrightarrow> admissible obj"
  obtains s' where "Bootstrap_join p s = (Inr (), s')" and "up s'"
    and "peer_content view ns s' = (peer_content view ns s)(HashID (po_NodeID (pv_Options p))
      \<mapsto> (bootstrap_peer p)\<lparr>sp_clusterStatus := CLUSTER_VOTER\<rparr>)"
proof -
  let ?c = "provider_consensus p" and ?q = "bootstrap_peer p"
  have c: "co_cli ?c = cli" "co_Namespace ?c = ns" "\<not> co_isObserver ?c" using assms(2-4) by simp_all
  have adm: "admissible obj" if "key_of obj = (StoragePeerT, ns, HashID (sp_id ?q))" "ko_type obj = StoragePeerTypeMeta" for obj
    using that by (intro assms(5)) simp_all
  obtain s' where a: "AddVoter ?c ?q s = (Inr (), s')" "up s'"
    using AddVoter_up[OF assms(1) c(1,2) adm c(3)] by blast
  from peer_content_put[OF AddVoter_view(1)[OF a(1) c(1,2) refl]] a that show ?thesis
    by (simp add: Bootstrap_join_def)
qed

end

text \<open>
  C28. Two members that bootstrap an empty group at the same time both succeed when each looks
  before the other has joined: the group then has two voters, and both nodes go on as if they
  had founded it.
\<close>

theorem concurrent_bootstraps_both_succeed:
  assumes "kube_ns_server cli view up admissible ns" and "up s" and "peer_content view ns s = Map.empty"
    and "pv_cli p = cli" "po_Namespace (pv_Options p) = ns" "\<not> pv_isObserver p" "pv_started p"
    and "pv_cli q = cli" "po_Namespace (pv_Options q) = ns" "\<not> pv_isObserver q" "pv_started q"
    and "\<And>obj i. i \<in> {po_NodeID (pv_Options p), po_NodeID (pv_Options q)} \<Longrightarrow>
      key_of obj = (StoragePeerT, ns, HashID i) \<Longrightarrow> ko_type obj = StoragePeerTypeMeta \<Longrightarrow> admissible obj"
  shows "\<exists>s1 s2 s3 s4. Bootstrap_check p s = (Inr (), s1) \<and> Bootstrap_check q s1 = (Inr (), s2)
    \<and> Bootstrap_join p s2 = (Inr (), s3) \<and> Bootstrap_join q s3 = (Inr (), s4)
    \<and> peer_content view ns s4 =
         [HashID (po_NodeID (pv_Options p)) \<mapsto> (bootstrap_peer p)\<lparr>sp_clusterStatus := CLUSTER_VOTER\<rparr>,
          HashID (po_NodeID (pv_Options q)) \<mapsto> (bootstrap_peer q)\<lparr>sp_clusterStatus := CLUSTER_VOTER\<rparr>]"
proof -
  note srv = assms(1)
  have none: "peer_content view ns s' = Map.empty" if "view s' = view s" for s'
    using named_content_cong[OF that, of as_storage_peer StoragePeerT ns] assms(3) by simp
  obtain s1 where s1: "Bootstrap_check p s = (Inr (), s1)" "view s1 = view s" "up s1"
    by (rule kube_ns_server.Bootstrap_check_live[OF srv assms(2,4,5,7,3)])
  obtain s2 where s2: "Bootstrap_check q s1 = (Inr (), s2)" "view s2 = view s1" "up s2"
    by (rule kube_ns_server.Bootstrap_check_live[OF srv s1(3) assms(8,9,11) none[OF s1(2)]])
  obtain s3 where s3: "Bootstrap_join p s2 = (Inr (), s3)" "up s3"
    "peer_content view ns s3 = (peer_content view ns s2)(HashID (po_NodeID (pv_Options p))
      \<mapsto> (bootstrap_peer p)\<lparr>sp_clusterStatus := CLUSTER_VOTER\<rparr>)"
    by (rule kube_ns_server.Bootstrap_join_live[OF srv s2(3) assms(4-6) assms(12)]) simp_all
  obtain s4 where s4: "Bootstrap_join q s3 = (Inr (), s4)"
    "peer_content view ns s4 = (peer_content view ns s3)(HashID (po_NodeID (pv_Options q))
      \<mapsto> (bootstrap_peer q)\<lparr>sp_clusterStatus := CLUSTER_VOTER\<rparr>)"
    by (rule kube_ns_server.Bootstrap_join_live[OF srv s3(2) assms(8-10) assms(12)]) simp_all
  have "peer_content view ns s2 = Map.empty" using none s1(2) s2(2) by simp
  with s1 s2 s3 s4 show ?thesis by auto
qed

definition example_other :: "mem_state provider" where
  "example_other = example_started\<lparr>pv_Options := (pv_Options example_started)\<lparr>po_NodeID := ''node-b''\<rparr>\<rparr>"

theorem concurrent_bootstraps_both_succeed_witness:
  "\<exists>s1 s2 s3 s4. Bootstrap_check example_started mem_init = (Inr (), s1) \<and> Bootstrap_check example_other s1 = (Inr (), s2)
    \<and> Bootstrap_join example_started s2 = (Inr (), s3) \<and> Bootstrap_join example_other s3 = (Inr (), s4)
    \<and> map_option sp_id (peer_content mem_view ''default'' s4 (HashID ''node-b'')) = Some ''node-b''"
proof -
  have e: "pv_cli example_started = mem_client" "po_Namespace (pv_Options example_started) = ''default''"
    "\<not> pv_isObserver example_started" "pv_started example_started"
    "pv_cli example_other = mem_client" "po_Namespace (pv_Options example_other) = ''default''"
    "\<not> pv_isObserver example_other" "pv_started example_other"
    and i: "po_NodeID (pv_Options example_started) = ''node-a''" "po_NodeID (pv_Options example_other) = ''node-b''"
    by (simp_all add: example_started_def example_other_def)
  have c: "peer_content mem_view ''default'' mem_init = Map.empty" by (simp add: named_content_def fun_eq_iff)
  have "\<exists>s1 s2 s3 s4. Bootstrap_check example_started mem_init = (Inr (), s1) \<and> Bootstrap_check example_other s1 = (Inr (), s2)
    \<and> Bootstrap_join example_started s2 = (Inr (), s3) \<and> Bootstrap_join example_other s3 = (Inr (), s4)
    \<and> peer_content mem_view ''default'' s4 =
         [HashID (po_NodeID (pv_Options example_started)) \<mapsto> (bootstrap_peer example_started)\<lparr>sp_clusterStatus := CLUSTER_VOTER\<rparr>,
          HashID (po_NodeID (pv_Options example_other)) \<mapsto> (bootstrap_peer example_other)\<lparr>sp_clusterStatus := CLUSTER_VOTER\<rparr>]"
    by (rule concurrent_bootstraps_both_succeed[OF mem_kube_ns_server mem_up_init c e]) (rule mem_admits_peer)
  then show ?thesis
    by (elim exE conjE) (intro exI conjI, assumption+, simp add: i)
qed

subsection \<open>From the leader to a subscriber on another node\<close>

lemma MeshStorage_simps [simp]:
  "st_cli (MeshStorage e p) = pv_cli p" "st_Namespace (MeshStorage e p) = po_Namespace (pv_Options p)"
  "st_leaders (MeshStorage e p) = map_option el_IsLeader (pv_leaders p)" "st_now (MeshStorage e p) = sn_now e"
  "st_Unmarshal (MeshStorage e p) = sn_Unmarshal e" "st_IsValidPathID (MeshStorage e p) = sn_IsValidPathID e"
  by (simp_all add: MeshStorage_def)

lemma MeshStorage_content:
  "kv_content (MeshStorage e p) view ns s = kv_content (MeshStorage e q) view ns s"
  "kv_inv (MeshStorage e p) K view ns s = kv_inv (MeshStorage e q) K view ns s"
  unfolding kv_content_def[abs_def] kv_inv_def bucket_ok_def entry_placed_def MeshStorage_simps by (rule refl)+

text \<open>Any node, also one that does not lead, reads an entry that does not expire.\<close>



context kv_server begin

lemma GetValue_unexpiring:
  assumes "up s" and "st_IsValidPathID st key" and "content s key = Some item"
    and "item_Expiry item = 0" and "item_Value item \<noteq> []"
  obtains s' where "GetValue st key s = (Inr (item_Value item), None, s')" and "up s'" and "view s' = view s"
proof -
  obtain d where d: "bucket_data view ns s (bucketForKey key) (hashKey key) = Some d" "st_Unmarshal st d = Inr item"
    using assms(3) by (auto simp: kv_content_def kv_raw_def split: option.splits sum.splits)
  then obtain x where "view s (SecretT, ns, bucketForKey key) = Some x"
    by (auto simp: bucket_data_def split: option.splits)
  then obtain secret s' where g: "api_get cli SecretT ns (bucketForKey key) s = (Inr secret, s')" "up s'"
    using up_get[OF assms(1)] by blast
  note b = get_bucket[OF g(1)]
  have "GetValue st key s = (Inr (item_Value item), None, s')"
    using g(1) b(4) d assms(2,4,5) st_cli st_ns by (simp add: GetValue_def expired_def)
  with g(2) b(5) that show ?thesis by blast
qed

end

lemma Storage_Subscribe_live:
  assumes "Storage_Subscribe uuid c pfx fn subs rt = (Inr cancel, subs', rt')"
    and "\<not> ctx_done rt c" and "rt_fresh rt"
  obtains sub where "(uuid, sub) \<in> set subs'" and "\<not> ctx_done rt' (ks_ctx sub)" and "ks_fn sub = fn"
    and "ks_prefix sub = pfx" and "ks_seen sub = []"
proof -
  let ?sub = "\<lparr>ks_prefix = pfx, ks_seen = [], ks_fn = fn, ks_ctx = Derived c (rt_next rt), ks_cancel = rt_next rt\<rparr>"
  have s: "subs' = AList.update uuid ?sub subs" "rt' = rt\<lparr>rt_next := Suc (rt_next rt)\<rparr>"
    using assms(1) by (auto simp: Storage_Subscribe_def WithCancel_def)
  have "(uuid, ?sub) \<in> set subs'" unfolding s by (metis map_of_SomeD update_Some_unfold)
  moreover have "\<not> ctx_done rt' (ks_ctx ?sub)" using assms(2,3) by (auto simp: s(2) rt_fresh_def)
  ultimately show ?thesis using that[of ?sub] by simp
qed

text \<open>
  C6. A value that is put on the node that leads reaches a subscriber on another node with the next
  reconcile there, is then what this node reads too, and cannot be changed by it: a node that does
  not lead refuses to write, and nothing changes.
\<close>

theorem value_reaches_other_node:
  assumes "kv_live cli view ns (MeshStorage e p) up admissible" and "kv_server cli view ns (MeshStorage e q) up admissible"
    and "pv_leaders q = Some leaders" and "\<And>s. \<exists>s'. el_IsLeader leaders s = (False, s')"
    and "up s" and "kv_inv (MeshStorage e p) K view ns s" and "key \<in> K" and "sn_IsValidPathID e key"
    and "kv_admitted admissible view ns s key" and "val \<noteq> []" and "HasPrefix key pfx"
    and "kv_subs_ok (pv_subs q)" and "Storage_Subscribe uuid c pfx fn (pv_subs q) rt = (Inr cancel, subs, rt')"
    and "\<not> ctx_done rt c" and "rt_fresh rt"
  shows "\<exists>s1 calls subs' s2 s3 s4 s5. PutValue (MeshStorage e p) key val 0 s = (Inr (), s1)
    \<and> Provider_Reconcile rt' (MeshStorage e q) subs (bucket_request ns key) s1 = (Inr (), calls, subs', s2)
    \<and> (fn, key, val) \<in> set calls
    \<and> GetValue (MeshStorage e q) key s2 = (Inr val, None, s3)
    \<and> PutValue (MeshStorage e q) key val' ttl s3 = (Inl ErrNotLeader, s4)
    \<and> DeleteKey (MeshStorage e q) key s4 = (Inl ErrNotLeader, s5) \<and> view s5 = view s1"
proof -
  let ?p = "MeshStorage e p" and ?q = "MeshStorage e q"
  note store = kv_server.axioms(1)[OF assms(2)] and pstore = kv_server.axioms(1)[OF kv_live.axioms(1)[OF assms(1)]]
  obtain s1 where p: "PutValue ?p key val 0 s = (Inr (), s1)" "up s1"
    using kv_live.PutValue_live[OF assms(1,5) _ assms(9)[unfolded kv_admitted_def], of val 0] assms(8) by auto
  obtain item where i: "put_item ?p key val 0 item" "kv_content ?p view ns s1 = (kv_content ?p view ns s)(key \<mapsto> item)"
    using kv_store.PutValue_content(1)[OF pstore p(1) refl] by blast
  have item: "item_Value item = val" "item_Expiry item = 0" using i(1) by (simp_all add: put_item_def)
  have content: "kv_content ?q view ns s1 key = Some item" using i(2) MeshStorage_content(1)[of e p view ns s1 q] by simp
  have "kv_inv ?p K view ns s1"
    by (rule kv_store.kv_step_inv[OF pstore assms(6), of "KvPut key val 0"]) (simp_all add: p(1) assms(7))
  then have inv: "kv_inv ?q K view ns s1" using MeshStorage_content(2)[of e p K view ns s1 q] by simp
  have present: "view s1 (SecretT, ns, bucketForKey key) \<noteq> None" by (rule kv_live.put_bucket_present[OF assms(1) p(1)])
  obtain sub where sub: "(uuid, sub) \<in> set subs" "\<not> ctx_done rt' (ks_ctx sub)" "ks_fn sub = fn"
    "ks_prefix sub = pfx" "ks_seen sub = []" by (rule Storage_Subscribe_live[OF assms(13-15)])
  obtain calls subs' s2 where r: "Provider_Reconcile rt' ?q subs (bucket_request ns key) s1 = (Inr (), calls, subs', s2)"
    "view s2 = view s1" "up s2" "set calls = told rt' subs (bucket_content ?q view ns s1 (bucketForKey key))"
    by (rule kv_server.Reconcile_bucket[OF assms(2) p(2) inv assms(7) present Subscribe_ok[OF assms(12,13)]])
  have "(fn, key, val) \<in> difference sub (bucket_content ?q view ns s1 (bucketForKey key))"
    using sub(3-5) content item(1) assms(11) by (simp add: difference_def bucket_content_def)
  moreover have "(uuid, sub) \<in> set (live_kv_subs rt' subs)" using sub(1,2) by (simp add: live_kv_subs_def)
  ultimately have call: "(fn, key, val) \<in> set calls" unfolding r(4) told_def by blast
  have "kv_content ?q view ns s2 key = Some item" using content kv_store.content_cong[OF store r(2)] by simp
  then obtain s3 where g: "GetValue ?q key s2 = (Inr val, None, s3)" "view s3 = view s2"
    using kv_server.GetValue_unexpiring[OF assms(2) r(3), of key item] assms(8,10) item by auto
  have follower: "\<exists>t'. IsLeading ?q t = (Inr False, t')" for t
    using assms(3) assms(4)[of t] by (auto simp: IsLeading_def)
  obtain s4 where l4: "IsLeading ?q s3 = (Inr False, s4)" using follower by blast
  obtain s5 where l5: "IsLeading ?q s4 = (Inr False, s5)" using follower by blast
  have valid: "st_IsValidPathID ?q key" using assms(8) by simp
  note w4 = kv_store.non_leader_writes[OF store l4 valid] and w5 = kv_store.non_leader_writes[OF store l5 valid]
  have "view s5 = view s1" using w5(3) w4(3) g(2) r(2) by simp
  then show ?thesis by (intro exI conjI) (rule p(1) r(1) call g(1) w4(1) w5(2) | assumption)+
qed

definition mem_env :: "mem_state store_env" where
  "mem_env = \<lparr>sn_now = (\<lambda>s. (1000, s)), sn_Marshal = unary_marshal, sn_Unmarshal = unary_unmarshal,
     sn_IsValidPathID = (\<lambda>key. key \<noteq> [])\<rparr>"

definition example_follower :: "mem_state provider" where
  "example_follower = (example_provider ''node-a'' ''default'')\<lparr>pv_leaders := Some (lease_elector ''node-a'' ''node-b'')\<rparr>"

lemma example_MeshStorage:
  "MeshStorage mem_env (example_provider ''node-a'' ''default'') = mem_storage"
  "MeshStorage mem_env example_follower = mem_node False"
  by (simp_all add: MeshStorage_def mem_env_def mem_storage_def mem_node_def lease_elector_def example_follower_def)

lemma mem_follower: "kv_server mem_client mem_view ''default'' (mem_node False) mem_up mem_admits"
  by (intro kv_server.intro mem_node.kv_store_axioms mem_kube_ns_server)

theorem value_reaches_other_node_witness:
  "\<exists>s1 calls subs' s2 s3. PutValue mem_storage ''a/x'' ''v'' 0 mem_init = (Inr (), s1)
    \<and> Provider_Reconcile \<lparr>rt_cancelled = [], rt_next = 1\<rparr> (mem_node False)
        [(''1'', \<lparr>ks_prefix = ''a/'', ks_seen = [], ks_fn = 5, ks_ctx = Derived Background 0, ks_cancel = 0\<rparr>)]
        (bucket_request ''default'' ''a/x'') s1 = (Inr (), calls, subs', s2)
    \<and> (5, ''a/x'', ''v'') \<in> set calls \<and> GetValue (mem_node False) ''a/x'' s2 = (Inr ''v'', None, s3)"
proof -
  let ?p = "example_provider ''node-a'' ''default''" and ?rt = "\<lparr>rt_cancelled = [], rt_next = 0\<rparr>"
  have live: "kv_live mem_client mem_view ''default'' (MeshStorage mem_env ?p) mem_up mem_admits"
    unfolding example_MeshStorage by (rule mem_kv_live)
  have srv: "kv_server mem_client mem_view ''default'' (MeshStorage mem_env example_follower) mem_up mem_admits"
    unfolding example_MeshStorage by (rule mem_follower)
  have l: "pv_leaders example_follower = Some (lease_elector ''node-a'' ''node-b'')"
    "\<exists>s'. el_IsLeader (lease_elector ''node-a'' ''node-b'') s = (False, s')" for s :: mem_state
    by (simp_all add: example_follower_def lease_elector_def)
  have i: "kv_inv (MeshStorage mem_env ?p) example_keys mem_view ''default'' mem_init"
    unfolding example_MeshStorage by (rule example_inv_init)
  have v: "sn_IsValidPathID mem_env ''a/x''" "''v'' \<noteq> []" "HasPrefix ''a/x'' ''a/''"
    "kv_subs_ok (pv_subs example_follower)" "\<not> ctx_done ?rt Background" "rt_fresh ?rt"
    by (simp_all add: mem_env_def HasPrefix_def kv_subs_ok_def rt_fresh_def example_follower_def)
  have sub: "Storage_Subscribe ''1'' Background ''a/'' 5 (pv_subs example_follower) ?rt = (Inr 0,
      [(''1'', \<lparr>ks_prefix = ''a/'', ks_seen = [], ks_fn = 5, ks_ctx = Derived Background 0, ks_cancel = 0\<rparr>)],
      \<lparr>rt_cancelled = [], rt_next = 1\<rparr>)"
    by (simp add: Storage_Subscribe_def WithCancel_def example_follower_def)
  from value_reaches_other_node[OF live srv l mem_up_init i example_key(1) v(1)
      example_admitted[OF example_inv_init example_key(1)] v(2-4) sub v(5,6)]
  show ?thesis unfolding example_MeshStorage by blast
qed

end
