(* ===== verification/Watch.thy ===== *)
theory Watch
  imports ClusterProps
begin

text \<open>
  The way from a write to a subscriber, over time: the pieces of the writes of all nodes
  (\<open>Cluster\<close>), the events the watch of one node gets for the Secrets they change, the queue of
  requests the map function \<open>enqueueObjectIfOwner\<close> makes of them, and the reconciles of this node,
  in any order, while subscriptions come and go. The watch and the queue are controller-runtime's:
  an event with the old and one with the new object of a change, which may be repeated, a queue that
  holds a request once, and a request that failed stays queued. The queue stands for the requests
  in it and those whose event is on its way: one of these may be handled early here, and come again.
\<close>

subsection \<open>The queue\<close>

definition enqueue :: "request \<Rightarrow> request list \<Rightarrow> request list" where
  "enqueue req queue = (if req \<in> set queue then queue else queue @ [req])"

definition enqueue_events :: "kobject list \<Rightarrow> request list \<Rightarrow> request list" where
  "enqueue_events evs queue = fold enqueue (concat (map enqueueObjectIfOwner evs)) queue"

lemma set_enqueue [simp]: "set (enqueue req queue) = insert req (set queue)"
  by (auto simp: enqueue_def)

lemma set_enqueue_events: "set (enqueue_events evs queue) = set queue \<union> (\<Union>obj \<in> set evs. set (enqueueObjectIfOwner obj))"
proof -
  have "set (fold enqueue reqs queue) = set queue \<union> set reqs" for reqs
    by (induction reqs arbitrary: queue) auto
  then show ?thesis by (simp add: enqueue_events_def)
qed

text \<open>
  The events of a change: every Secret that changed, as it was and as it is. No name of an object
  has a slash.
\<close>

definition watch_events :: "('s \<Rightarrow> objkey \<Rightarrow> stored option) \<Rightarrow> 's \<Rightarrow> 's \<Rightarrow> kobject list \<Rightarrow> bool" where
  "watch_events view s s' evs \<longleftrightarrow>
     (\<forall>ns n x. view s' (SecretT, ns, n) \<noteq> view s (SecretT, ns, n)
        \<and> (view s (SecretT, ns, n) = Some x \<or> view s' (SecretT, ns, n) = Some x)
        \<longrightarrow> (\<exists>obj \<in> set evs. key_of obj = (SecretT, ns, n) \<and> shown obj = x))
   \<and> (\<forall>obj \<in> set evs. CHR ''/'' \<notin> set (om_name (ko_meta obj)))"

subsection \<open>Steps\<close>

text \<open>
  \<open>wa_log\<close> holds the calls of the subscribers so far, \<open>wa_last\<close> the request that was reconciled last
  without an error and \<open>wa_synced\<close> the subscriptions there were then; the program has none of these.
\<close>

record 's watched =
  wa_cluster :: "'s cluster"
  wa_queue :: "request list"
  wa_subs :: kv_subs
  wa_rt :: runtime
  wa_log :: "kv_call list"
  wa_last :: "request option"
  wa_synced :: "string set"

abbreviation wa_server :: "'s watched \<Rightarrow> 's" where
  "wa_server w \<equiv> cl_server (wa_cluster w)"

definition watch_start :: "'s cluster \<Rightarrow> runtime \<Rightarrow> 's watched" where
  "watch_start c rt = \<lparr>wa_cluster = c, wa_queue = [], wa_subs = [], wa_rt = rt, wa_log = [], wa_last = None, wa_synced = {}\<rparr>"

definition watch_reconcile :: "'s storage \<Rightarrow> request \<Rightarrow> 's watched \<Rightarrow> 's watched" where
  "watch_reconcile st req w =
     (case Provider_Reconcile (wa_rt w) st (wa_subs w) req (wa_server w) of
        (r, calls, subs, s) \<Rightarrow>
          (let w' = w\<lparr>wa_cluster := (wa_cluster w)\<lparr>cl_server := s\<rparr>, wa_subs := subs, wa_log := wa_log w @ calls\<rparr>
           in case r of
                Inl _ \<Rightarrow> w'
              | Inr _ \<Rightarrow> w'\<lparr>wa_queue := removeAll req (wa_queue w), wa_last := Some req, wa_synced := fst ` set subs\<rparr>))"

text \<open>
  A subscription gets a new identifier, and the number of its function stands for this
  subscription's function only.
\<close>

inductive watch_step ::
    "'s storage set \<Rightarrow> string set \<Rightarrow> ('s \<Rightarrow> objkey \<Rightarrow> stored option) \<Rightarrow> 's storage \<Rightarrow> 's watched \<Rightarrow> 's watched \<Rightarrow> bool"
  for nodes K view st where
  watch_act: "act_on nodes K a \<Longrightarrow> watch_events view (wa_server w) (cl_server (cluster_act a (wa_cluster w))) evs \<Longrightarrow>
    watch_step nodes K view st w
      (w\<lparr>wa_cluster := cluster_act a (wa_cluster w), wa_queue := enqueue_events evs (wa_queue w)\<rparr>)"
| watch_request: "req \<in> set (wa_queue w) \<Longrightarrow> watch_step nodes K view st w (watch_reconcile st req w)"
| watch_subscribe: "uuid \<notin> fst ` set (wa_subs w) \<Longrightarrow> fn \<notin> (\<lambda>(i, sub). ks_fn sub) ` set (wa_subs w) \<Longrightarrow>
    fn \<notin> fst ` set (wa_log w) \<Longrightarrow> Storage_Subscribe uuid ctx pfx fn (wa_subs w) (wa_rt w) = (r, subs, rt) \<Longrightarrow>
    watch_step nodes K view st w (w\<lparr>wa_subs := subs, wa_rt := rt, wa_synced := wa_synced w - {uuid}\<rparr>)"
| watch_cancel: "watch_step nodes K view st w (w\<lparr>wa_rt := cancel_ctx n (wa_rt w)\<rparr>)"

inductive watch_reaches ::
    "'s storage set \<Rightarrow> string set \<Rightarrow> ('s \<Rightarrow> objkey \<Rightarrow> stored option) \<Rightarrow> 's storage \<Rightarrow> 's watched \<Rightarrow> 's watched \<Rightarrow> bool"
  for nodes K view st w0 where
  watch_init: "watch_reaches nodes K view st w0 w0"
| watch_more: "watch_reaches nodes K view st w0 w \<Longrightarrow> watch_step nodes K view st w w' \<Longrightarrow>
    watch_reaches nodes K view st w0 w'"

subsection \<open>What a subscriber has heard\<close>

text \<open>The last value a function was called with for a key, nil if it was not called.\<close>

definition hear :: "nat \<Rightarrow> kv_call list \<Rightarrow> (string \<Rightarrow> string) \<Rightarrow> string \<Rightarrow> string" where
  "hear fn calls m = fold (\<lambda>(f, k, v) m. if f = fn then m(k := v) else m) calls m"

abbreviation heard :: "nat \<Rightarrow> kv_call list \<Rightarrow> string \<Rightarrow> string" where
  "heard fn log \<equiv> hear fn log (\<lambda>_. [])"

definition seen_value :: "(string \<times> string) list \<Rightarrow> string \<Rightarrow> string" where
  "seen_value seen k = (case map_of seen k of None \<Rightarrow> [] | Some v \<Rightarrow> v)"

lemma hear_simps [simp]:
  "hear fn [] m = m"
  "hear fn ((f, k, v) # calls) m = hear fn calls (if f = fn then m(k := v) else m)"
  "hear fn (calls @ calls') m = hear fn calls' (hear fn calls m)"
  by (simp_all add: hear_def)

lemma hear_others: "fn \<notin> fst ` set calls \<Longrightarrow> hear fn calls m = m"
  by (induction calls arbitrary: m) auto

lemma hear_other_keys: "k \<notin> call_key ` set calls \<Longrightarrow> hear fn calls m k = m k"
  by (induction calls arbitrary: m) auto

lemma hear_cong: "m k = m' k \<Longrightarrow> hear fn calls m k = hear fn calls m' k"
proof (induction calls arbitrary: m m')
  case (Cons c calls)
  obtain f k' v where c: "c = (f, k', v)" by (cases c)
  show ?case unfolding c hear_simps by (rule Cons.IH) (simp add: Cons.prems)
qed simp

lemma seen_value_simps [simp]:
  "seen_value (AList.update k v seen) = (seen_value seen)(k := v)"
  "seen_value (AList.delete k seen) = (seen_value seen)(k := [])"
  "seen_value [] k = []"
  by (auto simp: seen_value_def fun_eq_iff update_conv' delete_conv')

lemma notify_items_heard:
  "notify_items unmarshal pfx fn vs seen = (calls, seen') \<Longrightarrow>
     seen_value seen' = hear fn calls (seen_value seen) \<and> (\<forall>c \<in> set calls. fst c = fn)
     \<and> (distinct (map fst seen) \<longrightarrow> distinct (map fst seen'))"
  by (induction vs arbitrary: seen calls)
    (simp_all split: sum.splits if_splits prod.splits add: distinct_update, fastforce+)

lemma notify_deleted_heard:
  "notify_deleted m pfx fn keys seen = (calls, seen') \<Longrightarrow>
     seen_value seen' = hear fn calls (seen_value seen) \<and> (\<forall>c \<in> set calls. fst c = fn)
     \<and> (distinct (map fst seen) \<longrightarrow> distinct (map fst seen'))"
  by (induction keys arbitrary: seen calls)
    (simp_all split: if_splits prod.splits add: distinct_delete, fastforce+)

lemma notify_sub_heard:
  assumes "notify_sub unmarshal data sub = (calls, sub')"
  shows "seen_value (ks_seen sub') = hear (ks_fn sub) calls (seen_value (ks_seen sub))" and "\<forall>c \<in> set calls. fst c = ks_fn sub"
    and "distinct (map fst (ks_seen sub)) \<Longrightarrow> distinct (map fst (ks_seen sub'))"
    and "sub' = sub\<lparr>ks_seen := ks_seen sub'\<rparr>"
proof -
  obtain calls1 seen1 where a: "notify_items unmarshal (ks_prefix sub) (ks_fn sub) (map snd data) (ks_seen sub) = (calls1, seen1)"
    by fastforce
  obtain calls2 seen2 where b: "notify_deleted (map_of data) (ks_prefix sub) (ks_fn sub) (map fst seen1) seen1 = (calls2, seen2)"
    by fastforce
  from assms a b have c: "calls = calls1 @ calls2" "sub' = sub\<lparr>ks_seen := seen2\<rparr>" by (simp_all add: notify_sub_def)
  note h = notify_items_heard[OF a] notify_deleted_heard[OF b]
  from h c show "seen_value (ks_seen sub') = hear (ks_fn sub) calls (seen_value (ks_seen sub))" "\<forall>c \<in> set calls. fst c = ks_fn sub"
    "distinct (map fst (ks_seen sub)) \<Longrightarrow> distinct (map fst (ks_seen sub'))" "sub' = sub\<lparr>ks_seen := ks_seen sub'\<rparr>" by auto
qed

text \<open>With one function per subscription, each hears its own calls.\<close>

lemma hear_own:
  assumes "(i, sub) \<in> set L" and "distinct (map (\<lambda>(i, sub). ks_fn sub) L)"
    and "\<And>i sub. (i, sub) \<in> set L \<Longrightarrow> \<forall>c \<in> set (f sub). fst c = ks_fn sub"
  shows "hear (ks_fn sub) (concat (map (\<lambda>(i, sub). f sub) L)) m = hear (ks_fn sub) (f sub) m"
  using assms
proof (induction L arbitrary: m)
  case (Cons e L)
  obtain j sub1 where e: "e = (j, sub1)" by (cases e)
  have f1: "\<forall>c \<in> set (f sub1). fst c = ks_fn sub1" using Cons.prems(3)[of j sub1] e by simp
  have rest: "\<forall>c \<in> set (f sub2). fst c = ks_fn sub2" if "(i2, sub2) \<in> set L" for i2 sub2
    using Cons.prems(3)[of i2 sub2] that by simp
  show ?case
  proof (cases "(i, sub) = e")
    case True
    have "ks_fn sub \<notin> fst ` set (concat (map (\<lambda>(i, sub). f sub) L))"
      using Cons.prems(2) rest True e by fastforce
    with True e show ?thesis by (simp add: hear_others)
  next
    case False
    then have "(i, sub) \<in> set L" using Cons.prems(1) by simp
    moreover from this have "ks_fn sub \<noteq> ks_fn sub1" using Cons.prems(2) e by (auto simp: image_iff)
    then have "ks_fn sub \<notin> fst ` set (f sub1)" using f1 by auto
    ultimately show ?thesis using Cons.IH[OF _ _ rest] Cons.prems(2) e by (simp add: hear_others)
  qed
qed simp

subsection \<open>A reconcile, whatever it finds\<close>

context kube_api begin

lemma Reconcile_outcome:
  assumes "Provider_Reconcile rt st subs req s = (r, calls, subs', s')" and "st_cli st = cli" and "distinct (map fst subs)"
  obtains (failed) e where "view s' = view s" "r = Inl e" "calls = []" "subs' = subs"
  | (gone) "view s' = view s" "r = Inr ()" "view s (SecretT, req_Namespace req, req_Name req) = None"
      "call_key ` set calls \<subseteq> {req_Name req}" "subs' = live_kv_subs rt subs"
  | (found) l data where "view s' = view s" "r = Inr ()"
      "view s (SecretT, req_Namespace req, req_Name req) = Some (l, SecretData (map_of data))" "distinct (map fst data)"
      "calls = concat (map (\<lambda>(i, sub). fst (notify_sub (st_Unmarshal st) data sub)) (live_kv_subs rt subs))"
      "subs' = map (\<lambda>(i, sub). (i, snd (notify_sub (st_Unmarshal st) data sub))) (live_kv_subs rt subs)"
proof -
  obtain g s1 where g: "api_get cli SecretT (req_Namespace req) (req_Name req) s = (g, s1)" by fastforce
  note f = get_frame[OF g]
  show thesis
  proof (cases g)
    case (Inl e)
    show thesis
    proof (cases "is_not_found e")
      case True
      with assms(1,2) g Inl notify_gone_done[of "[]" subs rt "req_Name req"] assms(3) f
        get_absent[of SecretT "req_Namespace req" "req_Name req" s e s1]
      show thesis by (intro gone) (auto simp: Provider_Reconcile_def)
    next
      case False
      with assms(1,2) g Inl f show thesis by (intro failed) (auto simp: Provider_Reconcile_def)
    qed
  next
    case (Inr secret)
    let ?data = "as_secret (ko_payload secret)"
    have o: "key_of secret = (SecretT, req_Namespace req, req_Name req)"
      "view s (SecretT, req_Namespace req, req_Name req) = Some (shown secret)" "data_distinct (ko_payload secret)"
      using get_found[of SecretT "req_Namespace req" "req_Name req" s secret s1] g Inr by simp_all
    then have "shown secret = (om_labels (ko_meta secret), SecretData (map_of ?data))" "distinct (map fst ?data)"
      by (cases "ko_payload secret"; simp add: shown_def key_of_def)+
    with o(2) assms(1,2) g Inr f notify_changed_done[of "[]" subs rt "st_Unmarshal st" ?data] assms(3)
    show thesis by (intro found[of "om_labels (ko_meta secret)" ?data]) (auto simp: Provider_Reconcile_def)
  qed
qed

end

lemma live_kv_subs_subset: "set (live_kv_subs rt subs) \<subseteq> set subs"
  by (auto simp: live_kv_subs_def)

lemma live_fns: "distinct (map (\<lambda>(i, sub). ks_fn sub) subs) \<Longrightarrow> distinct (map (\<lambda>(i, sub). ks_fn sub) (live_kv_subs rt subs))"
  unfolding live_kv_subs_def by (rule distinct_map_filter)

subsection \<open>The invariant\<close>

text \<open>
  What a subscription has heard of keys with a slash is what it has seen; function numbers are
  not shared.
\<close>

definition log_agrees :: "kv_subs \<Rightarrow> kv_call list \<Rightarrow> bool" where
  "log_agrees subs log \<longleftrightarrow> distinct (map (\<lambda>(i, sub). ks_fn sub) subs)
     \<and> (\<forall>(i, sub) \<in> set subs. \<forall>k. CHR ''/'' \<in> set k \<longrightarrow> heard (ks_fn sub) log k = seen_value (ks_seen sub) k)"

lemma log_agrees_live: "log_agrees subs log \<Longrightarrow> log_agrees (live_kv_subs rt subs) log"
  unfolding log_agrees_def using live_fns live_kv_subs_subset by fast

lemma log_agrees_names:
  "log_agrees subs log \<Longrightarrow> call_key ` set calls \<subseteq> {n} \<Longrightarrow> CHR ''/'' \<notin> set n \<Longrightarrow> log_agrees subs (log @ calls)"
proof -
  assume a: "log_agrees subs log" and n: "call_key ` set calls \<subseteq> {n}" "CHR ''/'' \<notin> set n"
  then have "hear fn calls m k = m k" if "CHR ''/'' \<in> set k" for fn m k
    using that by (intro hear_other_keys) auto
  with a show ?thesis by (auto simp: log_agrees_def)
qed

lemma notify_sub_fn: "ks_fn (snd (notify_sub unmarshal data sub)) = ks_fn sub"
  using notify_sub_heard(4)[OF prod.collapse[symmetric], of unmarshal data sub]
  by (metis kv_subscription.ext_inject kv_subscription.surjective kv_subscription.update_convs(2))

lemma log_agrees_notified:
  assumes "log_agrees L log"
  shows "log_agrees (map (\<lambda>(i, sub). (i, snd (notify_sub unmarshal data sub))) L)
    (log @ concat (map (\<lambda>(i, sub). fst (notify_sub unmarshal data sub)) L))"
  unfolding log_agrees_def
proof (intro conjI ballI)
  have e: "map ((\<lambda>(i, sub). ks_fn sub) \<circ> (\<lambda>(i, sub). (i, snd (notify_sub unmarshal data sub)))) L = map (\<lambda>(i, sub). ks_fn sub) L"
    by (auto simp: notify_sub_fn)
  show "distinct (map (\<lambda>(i, sub). ks_fn sub) (map (\<lambda>(i, sub). (i, snd (notify_sub unmarshal data sub))) L))"
    unfolding map_map e using assms by (simp add: log_agrees_def)
next
  let ?f = "\<lambda>sub. fst (notify_sub unmarshal data sub)"
  fix x assume "x \<in> set (map (\<lambda>(i, sub). (i, snd (notify_sub unmarshal data sub))) L)"
  then obtain i sub where x: "(i, sub) \<in> set L" "x = (i, snd (notify_sub unmarshal data sub))" by auto
  have own: "\<forall>c \<in> set (?f sub). fst c = ks_fn sub" for sub by (rule notify_sub_heard(2)[OF prod.collapse[symmetric]])
  have fns: "distinct (map (\<lambda>(i, sub). ks_fn sub) L)" using assms by (simp add: log_agrees_def)
  have "heard (ks_fn sub) (log @ concat (map (\<lambda>(i, sub). ?f sub) L)) k = seen_value (ks_seen (snd (notify_sub unmarshal data sub))) k"
    if k: "CHR ''/'' \<in> set k" for k
  proof -
    have "heard (ks_fn sub) (log @ concat (map (\<lambda>(i, sub). ?f sub) L)) k = hear (ks_fn sub) (?f sub) (heard (ks_fn sub) log) k"
      using hear_own[OF x(1) fns, of ?f] own by simp
    also have "\<dots> = hear (ks_fn sub) (?f sub) (seen_value (ks_seen sub)) k"
      using assms x(1) k by (intro hear_cong) (auto simp: log_agrees_def)
    also have "\<dots> = seen_value (ks_seen (snd (notify_sub unmarshal data sub))) k"
      by (simp add: notify_sub_heard(1)[OF prod.collapse[symmetric]])
    finally show ?thesis .
  qed
  then show "case x of (i, sub') \<Rightarrow> \<forall>k. CHR ''/'' \<in> set k \<longrightarrow>
      heard (ks_fn sub') (log @ concat (map (\<lambda>(i, sub). ?f sub) L)) k = seen_value (ks_seen sub') k"
    by (simp add: x(2) notify_sub_fn)
qed

lemma kv_subs_ok_notified:
  assumes "kv_subs_ok L"
  shows "kv_subs_ok (map (\<lambda>(i, sub). (i, snd (notify_sub unmarshal data sub))) L)"
proof -
  have e: "map (fst \<circ> (\<lambda>(i, sub). (i, snd (notify_sub unmarshal data sub)))) L = map fst L" by auto
  have "distinct (map fst (map (\<lambda>(i, sub). (i, snd (notify_sub unmarshal data sub))) L))"
    unfolding map_map e using assms by (simp add: kv_subs_ok_def)
  moreover have "distinct (map fst (ks_seen (snd (notify_sub unmarshal data sub))))" if "(i, sub) \<in> set L" for i sub
    using assms that by (intro notify_sub_heard(3)[OF prod.collapse[symmetric]]) (auto simp: kv_subs_ok_def)
  ultimately show ?thesis unfolding kv_subs_ok_def by auto
qed

text \<open>A node of the cluster that watches it.\<close>

locale watching = kv_cluster cli view ns nodes unmarshal
  for cli :: "'s client" and view :: "'s \<Rightarrow> objkey \<Rightarrow> stored option" and ns :: string
    and nodes :: "'s storage set" and unmarshal :: "string \<Rightarrow> goerr + data_item" +
  fixes st :: "'s storage"
  assumes watcher: "st \<in> nodes"

sublocale watching \<subseteq> node: kv_store cli view ns st
  by (rule node_store[OF watcher])

context watching
begin

text \<open>
  The bucket that was reconciled last, when it is not queued again, is what the subscriptions have
  seen under their prefix.
\<close>

definition in_step :: "string set \<Rightarrow> 's watched \<Rightarrow> bool" where
  "in_step K w \<longleftrightarrow> (\<forall>key \<in> K. wa_last w = Some (bucket_request ns key) \<longrightarrow>
     bucket_request ns key \<notin> set (wa_queue w) \<longrightarrow> view (wa_server w) (SecretT, ns, bucketForKey key) \<noteq> None \<longrightarrow>
     (\<forall>(i, sub) \<in> set (wa_subs w). i \<in> wa_synced w \<longrightarrow> (\<forall>k. HasPrefix k (ks_prefix sub) \<longrightarrow>
        map_of (ks_seen sub) k = bucket_content st view ns (wa_server w) (bucketForKey key) k)))"

definition watch_inv :: "string set \<Rightarrow> data_item set \<Rightarrow> 's watched \<Rightarrow> bool" where
  "watch_inv K I w \<longleftrightarrow> cluster_inv K I (wa_cluster w) \<and> kv_subs_ok (wa_subs w) \<and> log_agrees (wa_subs w) (wa_log w)
     \<and> (\<forall>req \<in> set (wa_queue w). CHR ''/'' \<notin> set (req_Name req)) \<and> in_step K w"

lemma watch_inv_kv: "watch_inv K I w \<Longrightarrow> kv_inv st K view ns (wa_server w)"
  using watcher by (simp add: watch_inv_def cluster_inv_def)

lemma bucket_content_cong:
  "view s' (SecretT, ns, b) = view s (SecretT, ns, b) \<Longrightarrow> bucket_content st view ns s' b = bucket_content st view ns s b"
  by (auto simp: bucket_content_def kv_content_def kv_raw_def bucket_data_def fun_eq_iff)

text \<open>A change of a bucket queues it: its Secret carries the label the map function tests.\<close>

lemma changed_bucket_queued:
  assumes "kv_inv st K view ns s" and "kv_inv st K view ns s'" and "watch_events view s s' evs" and "key \<in> K"
    and "view s' (SecretT, ns, bucketForKey key) \<noteq> view s (SecretT, ns, bucketForKey key)"
  shows "bucket_request ns key \<in> set (enqueue_events evs queue)"
proof -
  let ?b = "bucketForKey key"
  obtain x where x: "view s (SecretT, ns, ?b) = Some x \<or> view s' (SecretT, ns, ?b) = Some x"
    using assms(5) by (cases "view s (SecretT, ns, ?b)"; cases "view s' (SecretT, ns, ?b)") auto
  then have "bucket_ok st K ?b x" using assms(1,2,4) unfolding kv_inv_def by blast
  then obtain k m where lbl: "x = (bucket_labels (rawBucketForKey k), SecretData m)" by (auto simp: bucket_ok_def)
  obtain obj where obj: "obj \<in> set evs" "key_of obj = (SecretT, ns, ?b)" "shown obj = x"
    using assms(3,5) x unfolding watch_events_def by blast
  have "om_labels (ko_meta obj) = bucket_labels (rawBucketForKey k)" using obj(3) lbl by (simp add: shown_def)
  then have "enqueueObjectIfOwner obj = [bucket_request ns key]" using obj(2)
    by (simp add: enqueueObjectIfOwner_def bucket_request_def key_of_def bucket_labels_def MeshStorageLabel_def BucketLabel_def)
  with obj(1) show ?thesis unfolding set_enqueue_events by force
qed

lemma act_step_inv:
  assumes inv: "watch_inv K I w" and act: "act_on nodes K a"
    and evs: "watch_events view (wa_server w) (cl_server (cluster_act a (wa_cluster w))) evs"
  shows "watch_inv K I (w\<lparr>wa_cluster := cluster_act a (wa_cluster w), wa_queue := enqueue_events evs (wa_queue w)\<rparr>)"
proof -
  let ?c = "cluster_act a (wa_cluster w)" and ?q = "enqueue_events evs (wa_queue w)"
  let ?w = "w\<lparr>wa_cluster := ?c, wa_queue := ?q\<rparr>"
  have c: "cluster_inv K I ?c" using cluster_act_inv[OF _ act] inv by (simp add: watch_inv_def)
  have kv: "kv_inv st K view ns (cl_server ?c)" using c watcher by (simp add: cluster_inv_def)
  have "\<forall>req \<in> set ?q. CHR ''/'' \<notin> set (req_Name req)"
    using inv evs by (auto simp: set_enqueue_events watch_inv_def watch_events_def enqueueObjectIfOwner_def split: if_splits)
  moreover have "in_step K ?w"
    unfolding in_step_def
  proof (intro ballI impI)
    fix key x assume k: "key \<in> K" "wa_last ?w = Some (bucket_request ns key)" "bucket_request ns key \<notin> set (wa_queue ?w)"
      "view (wa_server ?w) (SecretT, ns, bucketForKey key) \<noteq> None" and x: "x \<in> set (wa_subs ?w)"
    have same: "view (cl_server ?c) (SecretT, ns, bucketForKey key) = view (wa_server w) (SecretT, ns, bucketForKey key)"
      using changed_bucket_queued[OF watch_inv_kv[OF inv] kv evs k(1)] k(3) by auto
    moreover have "bucket_request ns key \<notin> set (wa_queue w)" using k(3) by (simp add: set_enqueue_events)
    moreover have "in_step K w" using inv by (simp add: watch_inv_def)
    ultimately show "case x of (i, sub) \<Rightarrow> i \<in> wa_synced ?w \<longrightarrow> (\<forall>k. HasPrefix k (ks_prefix sub) \<longrightarrow>
        map_of (ks_seen sub) k = bucket_content st view ns (wa_server ?w) (bucketForKey key) k)"
      using k(1,2,4) x unfolding in_step_def by (simp add: bucket_content_cong[OF same])
  qed
  ultimately show ?thesis using inv c by (simp add: watch_inv_def)
qed

lemma cluster_inv_view: "cluster_inv K I c \<Longrightarrow> view s = view (cl_server c) \<Longrightarrow> cluster_inv K I (c\<lparr>cl_server := s\<rparr>)"
  by (rule read_inv)

text \<open>After a reconcile that found the bucket, all subscriptions there are have seen it.\<close>

lemma notified_in_step:
  assumes "kv_inv st K view ns s" and "key \<in> K" and "view s (SecretT, ns, bucketForKey key) = Some (l, SecretData (map_of data))"
    and "distinct (map fst data)" and "kv_subs_ok L" and "(i, sub) \<in> set L" and "HasPrefix k (ks_prefix sub)"
  shows "map_of (ks_seen (snd (notify_sub (st_Unmarshal st) data sub))) k = bucket_content st view ns s (bucketForKey key) k"
proof -
  obtain m where m: "SecretData (map_of data) = SecretData m" "secret_placed (st_Unmarshal st) m"
    "values_of (st_Unmarshal st) m = bucket_content st view ns s (bucketForKey key)"
    by (rule node.bucket_values[OF assms(1-3)])
  then have p: "data_placed (st_Unmarshal st) data" using data_placed_secret[OF assms(4)] by simp
  have d: "distinct (map fst (ks_seen sub))" using assms(5,6) by (auto simp: kv_subs_ok_def)
  from notify_sub_done(3)[OF p d prod.collapse[symmetric], of k] assms(7) m show ?thesis by simp
qed

lemma reconcile_step_inv:
  assumes inv: "watch_inv K I w" and req: "req \<in> set (wa_queue w)"
  shows "watch_inv K I (watch_reconcile st req w)"
proof -
  obtain r calls subs s where rec: "Provider_Reconcile (wa_rt w) st (wa_subs w) req (wa_server w) = (r, calls, subs, s)"
    by (metis prod_cases4)
  have ok: "kv_subs_ok (wa_subs w)" and log: "log_agrees (wa_subs w) (wa_log w)" and name: "CHR ''/'' \<notin> set (req_Name req)"
    and cl: "cluster_inv K I (wa_cluster w)" and q: "\<forall>req \<in> set (wa_queue w). CHR ''/'' \<notin> set (req_Name req)"
    and step: "in_step K w" using inv req by (simp_all add: watch_inv_def)
  have d: "distinct (map fst (wa_subs w))" using ok by (simp add: kv_subs_ok_def)
  show ?thesis
    using rec node.st_cli d
  proof (cases rule: Reconcile_outcome)
    case (failed e)
    have "in_step K (watch_reconcile st req w)"
      using step failed bucket_content_cong[of s _ "wa_server w"] by (simp add: watch_reconcile_def rec in_step_def)
    then show ?thesis using failed ok log q cluster_inv_view[OF cl failed(1)] by (simp add: watch_inv_def watch_reconcile_def rec)
  next
    case gone
    have "in_step K (watch_reconcile st req w)"
      using gone by (auto simp: watch_reconcile_def rec in_step_def bucket_request_def)
    then show ?thesis
      using gone kv_subs_ok_live[OF ok] log_agrees_names[OF log_agrees_live[OF log] gone(4) name] q cluster_inv_view[OF cl gone(1)]
      by (simp add: watch_inv_def watch_reconcile_def rec)
  next
    case (found l data)
    let ?L = "live_kv_subs (wa_rt w) (wa_subs w)"
    have okL: "kv_subs_ok ?L" by (rule kv_subs_ok_live[OF ok])
    have "in_step K (watch_reconcile st req w)"
      unfolding in_step_def
    proof (intro ballI impI)
      fix key x assume k: "key \<in> K" "wa_last (watch_reconcile st req w) = Some (bucket_request ns key)"
        and x: "x \<in> set (wa_subs (watch_reconcile st req w))"
      have r: "req = bucket_request ns key" using k(2) found(2) by (simp add: watch_reconcile_def rec)
      obtain i sub where sub: "(i, sub) \<in> set ?L" "x = (i, snd (notify_sub (st_Unmarshal st) data sub))"
        using x found(2,6) by (auto simp: watch_reconcile_def rec)
      have pfx: "ks_prefix (snd (notify_sub (st_Unmarshal st) data sub)) = ks_prefix sub"
        using notify_sub_heard(4)[OF prod.collapse[symmetric], of "st_Unmarshal st" data sub]
        by (metis kv_subscription.ext_inject kv_subscription.surjective kv_subscription.update_convs(2))
      have v: "view (wa_server w) (SecretT, ns, bucketForKey key) = Some (l, SecretData (map_of data))"
        using found(3) r by (simp add: bucket_request_def)
      have same: "bucket_content st view ns s (bucketForKey key) = bucket_content st view ns (wa_server w) (bucketForKey key)"
        by (rule bucket_content_cong) (simp add: found(1))
      from notified_in_step[OF watch_inv_kv[OF inv] k(1) v found(4) okL sub(1)]
      show "case x of (i, sub) \<Rightarrow> i \<in> wa_synced (watch_reconcile st req w) \<longrightarrow> (\<forall>k. HasPrefix k (ks_prefix sub) \<longrightarrow>
          map_of (ks_seen sub) k = bucket_content st view ns (wa_server (watch_reconcile st req w)) (bucketForKey key) k)"
        using found(2) by (simp add: sub(2) pfx watch_reconcile_def rec same)
    qed
    moreover have "log_agrees subs (wa_log w @ calls)"
      unfolding found(5,6) by (rule log_agrees_notified[OF log_agrees_live[OF log]])
    moreover have "kv_subs_ok subs" unfolding found(6) by (rule kv_subs_ok_notified[OF okL])
    ultimately show ?thesis using found(2) q cluster_inv_view[OF cl found(1)]
      by (simp add: watch_inv_def watch_reconcile_def rec)
  qed
qed

end

lemma update_append_new: "i \<notin> fst ` set xs \<Longrightarrow> AList.update i v xs = xs @ [(i, v)]"
  by (induction xs) auto

context watching
begin

lemma in_stepD:
  "in_step K w \<Longrightarrow> key \<in> K \<Longrightarrow> wa_last w = Some (bucket_request ns key) \<Longrightarrow> bucket_request ns key \<notin> set (wa_queue w) \<Longrightarrow>
     view (wa_server w) (SecretT, ns, bucketForKey key) \<noteq> None \<Longrightarrow> (i, sub) \<in> set (wa_subs w) \<Longrightarrow> i \<in> wa_synced w \<Longrightarrow>
     HasPrefix k (ks_prefix sub) \<Longrightarrow> map_of (ks_seen sub) k = bucket_content st view ns (wa_server w) (bucketForKey key) k"
  unfolding in_step_def by fast

lemma subscribe_step_inv:
  assumes inv: "watch_inv K I w" and new: "uuid \<notin> fst ` set (wa_subs w)" "fn \<notin> (\<lambda>(i, sub). ks_fn sub) ` set (wa_subs w)"
    "fn \<notin> fst ` set (wa_log w)" and sub: "Storage_Subscribe uuid ctx pfx fn (wa_subs w) (wa_rt w) = (r, subs, rt)"
  shows "watch_inv K I (w\<lparr>wa_subs := subs, wa_rt := rt, wa_synced := wa_synced w - {uuid}\<rparr>)"
proof -
  let ?sub = "\<lparr>ks_prefix = pfx, ks_seen = [], ks_fn = fn, ks_ctx = Derived ctx (rt_next (wa_rt w)), ks_cancel = rt_next (wa_rt w)\<rparr>"
  have "subs = AList.update uuid ?sub (wa_subs w)" using sub by (simp add: Storage_Subscribe_def WithCancel_def)
  then have s: "subs = wa_subs w @ [(uuid, ?sub)]" using new(1) by (simp add: update_append_new)
  have "kv_subs_ok subs" using Subscribe_ok[OF _ sub] inv by (simp add: watch_inv_def)
  moreover have "log_agrees subs (wa_log w)"
    using inv new(2) hear_others[OF new(3)] by (auto simp: s watch_inv_def log_agrees_def)
  moreover have "in_step K (w\<lparr>wa_subs := subs, wa_rt := rt, wa_synced := wa_synced w - {uuid}\<rparr>)"
    unfolding in_step_def
  proof (intro ballI impI)
    fix key x assume "key \<in> K" "wa_last (w\<lparr>wa_subs := subs, wa_rt := rt, wa_synced := wa_synced w - {uuid}\<rparr>) = Some (bucket_request ns key)"
      "bucket_request ns key \<notin> set (wa_queue (w\<lparr>wa_subs := subs, wa_rt := rt, wa_synced := wa_synced w - {uuid}\<rparr>))"
      "view (wa_server (w\<lparr>wa_subs := subs, wa_rt := rt, wa_synced := wa_synced w - {uuid}\<rparr>)) (SecretT, ns, bucketForKey key) \<noteq> None"
      "x \<in> set (wa_subs (w\<lparr>wa_subs := subs, wa_rt := rt, wa_synced := wa_synced w - {uuid}\<rparr>))"
    with in_stepD[of K w key] inv
    show "case x of (i, sub) \<Rightarrow> i \<in> wa_synced (w\<lparr>wa_subs := subs, wa_rt := rt, wa_synced := wa_synced w - {uuid}\<rparr>) \<longrightarrow>
        (\<forall>k. HasPrefix k (ks_prefix sub) \<longrightarrow> map_of (ks_seen sub) k = bucket_content st view ns
           (wa_server (w\<lparr>wa_subs := subs, wa_rt := rt, wa_synced := wa_synced w - {uuid}\<rparr>)) (bucketForKey key) k)"
      by (cases x) (auto simp: s watch_inv_def)
  qed
  ultimately show ?thesis using inv by (simp add: watch_inv_def)
qed

lemma watch_step_inv: "watch_step nodes K view st w w' \<Longrightarrow> watch_inv K I w \<Longrightarrow> watch_inv K I w'"
proof (induction rule: watch_step.induct)
  case (watch_act a w evs) then show ?case by (intro act_step_inv)
next
  case (watch_request req w) then show ?case by (intro reconcile_step_inv)
next
  case (watch_subscribe uuid w fn ctx pfx r subs rt) then show ?case by (intro subscribe_step_inv)
next
  case (watch_cancel w n) then show ?case by (simp add: watch_inv_def in_step_def)
qed

lemma watch_start_inv: "cluster_inv K I c \<Longrightarrow> watch_inv K I (watch_start c rt)"
  by (simp add: watch_inv_def watch_start_def log_agrees_def in_step_def kv_subs_ok_def)

lemma watch_reaches_inv: "watch_reaches nodes K view st w0 w \<Longrightarrow> watch_inv K I w0 \<Longrightarrow> watch_inv K I w"
  by (induction rule: watch_reaches.induct) (auto intro: watch_step_inv)

lemma reached_inv:
  assumes "watch_reaches nodes K view st (watch_start c rt) w" and "cl_pending c = []"
    and "\<forall>st \<in> nodes. kv_inv st K view ns (cl_server c)"
  obtains I where "watch_inv K I w"
  by (rule that[OF watch_reaches_inv[OF assms(1) watch_start_inv[OF initial_inv[OF assms(2,3) watcher]]]])

text \<open>What is in step has been heard.\<close>

lemma in_step_heard:
  assumes "watch_inv K I w" and "key \<in> K" and "wa_last w = Some (bucket_request ns key)"
    and "bucket_request ns key \<notin> set (wa_queue w)" and "view (wa_server w) (SecretT, ns, bucketForKey key) \<noteq> None"
    and "(i, sub) \<in> set (wa_subs w)" and "i \<in> wa_synced w" and "HasPrefix k (ks_prefix sub)"
    and "bucketForKey k = bucketForKey key" and "CHR ''/'' \<in> set k"
  shows "heard (ks_fn sub) (wa_log w) k =
    (case kv_content st view ns (wa_server w) k of None \<Rightarrow> [] | Some item \<Rightarrow> item_Value item)"
proof -
  have "map_of (ks_seen sub) k = bucket_content st view ns (wa_server w) (bucketForKey key) k"
    using assms(1-8) by (fastforce simp: watch_inv_def in_step_def)
  moreover have "heard (ks_fn sub) (wa_log w) k = seen_value (ks_seen sub) k"
    using assms(1,6,10) by (fastforce simp: watch_inv_def log_agrees_def)
  ultimately show ?thesis using assms(9) by (auto simp: seen_value_def bucket_content_def split: option.splits)
qed

end

subsection \<open>A queue that is worked off\<close>

locale live_watching = watching cli view ns nodes unmarshal st + kube_ns_server cli view up admissible ns
  for cli :: "'s client" and view :: "'s \<Rightarrow> objkey \<Rightarrow> stored option" and ns :: string
    and nodes :: "'s storage set" and unmarshal :: "string \<Rightarrow> goerr + data_item" and st :: "'s storage"
    and up :: "'s \<Rightarrow> bool" and admissible :: "kobject \<Rightarrow> bool"
begin

lemma Reconcile_up:
  assumes "up s" and "Provider_Reconcile rt st subs req s = (r, calls, subs', s')"
  shows "r = Inr ()" and "up s'"
proof -
  have "r = Inr () \<and> up s'"
  proof (cases "view s (SecretT, req_Namespace req, req_Name req)")
    case None
    from up_get_absent[OF assms(1) None] assms(2) node.st_cli show ?thesis
      by (auto simp: Provider_Reconcile_def split: prod.splits)
  next
    case (Some x)
    from up_get[OF assms(1) Some] assms(2) node.st_cli show ?thesis
      by (auto simp: Provider_Reconcile_def split: prod.splits)
  qed
  then show "r = Inr ()" "up s'" by simp_all
qed

text \<open>The subscriptions that are live stay, with their prefix, function and context.\<close>

definition stays :: "'s watched \<Rightarrow> 's watched \<Rightarrow> bool" where
  "stays w w' \<longleftrightarrow> wa_rt w' = wa_rt w \<and> (\<forall>(i, sub) \<in> set (live_kv_subs (wa_rt w) (wa_subs w)).
     \<exists>seen. (i, sub\<lparr>ks_seen := seen\<rparr>) \<in> set (live_kv_subs (wa_rt w') (wa_subs w')))"

lemma stays_trans: "stays w w' \<Longrightarrow> stays w' w'' \<Longrightarrow> stays w w''"
  unfolding stays_def by (auto split: prod.splits) (metis kv_subscription.update_convs(2) kv_subscription.surjective)

lemma reconcile_up:
  assumes "up (wa_server w)" and "distinct (map fst (wa_subs w))"
  shows "up (wa_server (watch_reconcile st req w))" and "view (wa_server (watch_reconcile st req w)) = view (wa_server w)"
    and "wa_queue (watch_reconcile st req w) = removeAll req (wa_queue w)" and "wa_last (watch_reconcile st req w) = Some req"
    and "wa_synced (watch_reconcile st req w) = fst ` set (wa_subs (watch_reconcile st req w))"
    and "stays w (watch_reconcile st req w)"
proof -
  obtain r calls subs s where rec: "Provider_Reconcile (wa_rt w) st (wa_subs w) req (wa_server w) = (r, calls, subs, s)"
    by (metis prod_cases4)
  note u = Reconcile_up[OF assms(1) rec]
  show "up (wa_server (watch_reconcile st req w))" "wa_queue (watch_reconcile st req w) = removeAll req (wa_queue w)"
    "wa_last (watch_reconcile st req w) = Some req"
    "wa_synced (watch_reconcile st req w) = fst ` set (wa_subs (watch_reconcile st req w))"
    using rec u by (simp_all add: watch_reconcile_def)
  have "view s = view (wa_server w) \<and> (\<forall>(i, sub) \<in> set (live_kv_subs (wa_rt w) (wa_subs w)).
      \<exists>seen. (i, sub\<lparr>ks_seen := seen\<rparr>) \<in> set (live_kv_subs (wa_rt w) subs))"
    using rec node.st_cli assms(2)
  proof (cases rule: Reconcile_outcome)
    case (failed e) then show ?thesis using u by simp
  next
    case gone
    have "\<exists>seen. (i, sub\<lparr>ks_seen := seen\<rparr>) \<in> set (live_kv_subs (wa_rt w) subs)"
      if "(i, sub) \<in> set (live_kv_subs (wa_rt w) (wa_subs w))" for i sub
      using that unfolding gone(5) by (intro exI[of _ "ks_seen sub"]) (auto simp: live_kv_subs_def)
    then show ?thesis using gone(1) by auto
  next
    case (found l data)
    have "\<exists>seen. (i, sub\<lparr>ks_seen := seen\<rparr>) \<in> set (live_kv_subs (wa_rt w) subs)"
      if "(i, sub) \<in> set (live_kv_subs (wa_rt w) (wa_subs w))" for i sub
    proof (intro exI)
      let ?sub = "snd (notify_sub (st_Unmarshal st) data sub)"
      have e: "sub\<lparr>ks_seen := ks_seen ?sub\<rparr> = ?sub"
        by (rule notify_sub_heard(4)[OF prod.collapse[symmetric], symmetric])
      have "ks_ctx ?sub = ks_ctx sub" using arg_cong[OF e, of ks_ctx] by simp
      with that show "(i, sub\<lparr>ks_seen := ks_seen ?sub\<rparr>) \<in> set (live_kv_subs (wa_rt w) subs)"
        unfolding found(6) e by (force simp: live_kv_subs_def)
    qed
    then show ?thesis using found(1) by auto
  qed
  then show "view (wa_server (watch_reconcile st req w)) = view (wa_server w)" "stays w (watch_reconcile st req w)"
    using rec u by (auto simp: watch_reconcile_def stays_def)
qed

lemma work_off:
  assumes "watch_reaches nodes K view st w0 w" and "watch_inv K I w" and "up (wa_server w)"
    and "distinct reqs" and "set reqs \<subseteq> set (wa_queue w)" and "w' = fold (watch_reconcile st) reqs w"
  shows "watch_reaches nodes K view st w0 w' \<and> watch_inv K I w' \<and> up (wa_server w') \<and> stays w w'
    \<and> view (wa_server w') = view (wa_server w) \<and> set (wa_queue w') = set (wa_queue w) - set reqs"
  using assms
proof (induction reqs arbitrary: w)
  case Nil
  have "stays w w" unfolding stays_def
    by (auto split: prod.splits) (metis kv_subscription.surjective kv_subscription.update_convs(2))
  with Nil show ?case by simp
next
  case (Cons req reqs)
  let ?w = "watch_reconcile st req w"
  have d: "distinct (map fst (wa_subs w))" using Cons.prems(2) by (simp add: watch_inv_def kv_subs_ok_def)
  note up = reconcile_up[OF Cons.prems(3) d, of req]
  have q: "req \<in> set (wa_queue w)" "set reqs \<subseteq> set (wa_queue ?w)" using Cons.prems(4,5) by (auto simp: up(3))
  have "watch_reaches nodes K view st w0 ?w" by (rule watch_more[OF Cons.prems(1) watch_request[OF q(1)]])
  from Cons.IH[OF this reconcile_step_inv[OF Cons.prems(2) q(1)] up(1) _ q(2)] Cons.prems(4,6)
  show ?case using stays_trans[OF up(6)] by (auto simp: up(2,3))
qed

end

lemma reached_queue_distinct:
  "watch_reaches nodes K view st (watch_start c rt) w \<Longrightarrow> distinct (wa_queue w)"
proof (induction rule: watch_reaches.induct)
  case watch_init show ?case by (simp add: watch_start_def)
next
  case (watch_more w w')
  have "distinct queue \<Longrightarrow> distinct (enqueue_events evs queue)" for evs and queue :: "request list"
    unfolding enqueue_events_def
  proof (rule fold_invariant[where Q = "\<lambda>_. True" and P = distinct])
    fix req :: request and queue :: "request list" assume "distinct queue" then show "distinct (enqueue req queue)" by (simp add: enqueue_def)
  qed simp_all
  then show ?case using watch_more(2,3)
    by (auto elim!: watch_step.cases simp: watch_reconcile_def Let_def distinct_removeAll split: prod.splits sum.splits)
qed

end
