(* ===== verification/WatchProps.thy ===== *)
theory WatchProps
  imports Watch
begin

text \<open>
  The properties of the way from writes to subscribers, with a cluster of two nodes as the example.
\<close>

subsection \<open>Subscribers agree with the store\<close>

text \<open>
  C4. However the writes of all nodes, the changes the watch of a node sees, its reconciles, and
  its subscriptions and cancellations interleave: when the bucket that was reconciled last is not
  in the queue again, every subscription there was then has heard, for every key of this bucket
  under its prefix, the value that is stored now, and nil when there is none; so it is what a get
  returns.
\<close>

theorem subscribers_agree_with_store:
  assumes "watching cli view ns nodes unmarshal st" and "watch_reaches nodes K view st (watch_start c rt) w"
    and "cl_pending c = []" and "\<forall>st \<in> nodes. kv_inv st K view ns (cl_server c)"
    and "key \<in> K" and "wa_last w = Some (bucket_request ns key)" and "bucket_request ns key \<notin> set (wa_queue w)"
    and "view (wa_server w) (SecretT, ns, bucketForKey key) \<noteq> None"
    and "(i, sub) \<in> set (wa_subs w)" and "i \<in> wa_synced w"
    and "HasPrefix k (ks_prefix sub)" and "bucketForKey k = bucketForKey key" and "CHR ''/'' \<in> set k"
  shows "heard (ks_fn sub) (wa_log w) k =
      (case kv_content st view ns (wa_server w) k of None \<Rightarrow> [] | Some item \<Rightarrow> item_Value item)
    \<and> (\<forall>v ed s'. GetValue st k (wa_server w) = (Inr v, ed, s') \<longrightarrow> heard (ks_fn sub) (wa_log w) k = v)"
proof -
  obtain I where "watching.watch_inv view ns nodes unmarshal st K I w"
    by (rule watching.reached_inv[OF assms(1-4)])
  note h = watching.in_step_heard[OF assms(1) this assms(5-13)]
  have "heard (ks_fn sub) (wa_log w) k = v" if "GetValue st k (wa_server w) = (Inr v, ed, s')" for v ed s'
    using h kv_store.GetValue_value(1)[OF kv_cluster.node_store[OF watching.axioms(1)[OF assms(1)]] that]
      watching.watcher[OF assms(1)] by (auto simp: kv_read_def split: option.splits if_splits)
  with h show ?thesis by blast
qed

interpretation mem_watch: live_watching mem_client mem_view "''default''" "range mem_node" unary_unmarshal
    "mem_node False" mem_up mem_admits
  by (intro live_watching.intro watching.intro watching_axioms.intro mem_cluster.kv_cluster_axioms mem_kube_ns_server) simp

text \<open>
  The example: a value that is stored, a subscription to its prefix on the second node, and the
  event of its bucket that this node gets when it starts to watch; the action itself is the crash of
  no write, which changes nothing.
\<close>

abbreviation example_start :: "mem_state \<Rightarrow> mem_state watched" where
  "example_start s \<equiv> watch_start \<lparr>cl_server = s, cl_pending = [], cl_puts = []\<rparr> \<lparr>rt_cancelled = [], rt_next = 0\<rparr>"

definition watch_sub :: kv_subscription where
  "watch_sub = \<lparr>ks_prefix = ''a/'', ks_seen = [], ks_fn = 5, ks_ctx = Derived Background 0, ks_cancel = 0\<rparr>"

lemma example_kv_inv:
  "kv_inv mem_storage K mem_view ''default'' s \<Longrightarrow> \<forall>st \<in> range mem_node. kv_inv st K mem_view ''default'' s"
  by (auto simp: kv_inv_def bucket_ok_def entry_placed_def mem_node_def)

lemma example_watch:
  obtains s w where "\<forall>st \<in> range mem_node. kv_inv st example_keys mem_view ''default'' s"
    and "watch_reaches (range mem_node) example_keys mem_view (mem_node False) (example_start s) w"
    and "mem_up (wa_server w)" and "wa_queue w = [] @ [bucket_request ''default'' ''a/x'']"
    and "mem_view (wa_server w) (SecretT, ''default'', bucketForKey ''a/x'') \<noteq> None"
    and "(''1'', watch_sub) \<in> set (live_kv_subs (wa_rt w) (wa_subs w))"
    and "kv_content (mem_node False) mem_view ''default'' (wa_server w) ''a/x'' =
      Some \<lparr>item_Key = ''a/x'', item_Value = ''v'', item_Expiry = 0\<rparr>"
proof -
  obtain s where s: "mem_up s" "kv_inv mem_storage example_keys mem_view ''default'' s"
    "kv_content mem_storage mem_view ''default'' s =
      [''a/x'' \<mapsto> \<lparr>item_Key = ''a/x'', item_Value = ''v'', item_Expiry = (if (0::int) = 0 then 0 else 1000 + 0)\<rparr>]"
    by (rule example_stored[OF example_key(1), of 0])
  let ?begun = "example_start s"
  let ?subscribed = "?begun\<lparr>wa_subs := [(''1'', watch_sub)], wa_rt := \<lparr>rt_cancelled = [], rt_next = 1\<rparr>, wa_synced := wa_synced ?begun - {''1''}\<rparr>"
  have "Storage_Subscribe ''1'' Background ''a/'' 5 (wa_subs ?begun) (wa_rt ?begun) =
      (Inr 0, [(''1'', watch_sub)], \<lparr>rt_cancelled = [], rt_next = 1\<rparr>)"
    by (simp add: watch_start_def Storage_Subscribe_def WithCancel_def watch_sub_def)
  from watch_subscribe[OF _ _ _ this]
  have r1: "watch_reaches (range mem_node) example_keys mem_view (mem_node False) ?begun ?subscribed"
    by (intro watch_more[OF watch_init]) (simp add: watch_start_def)
  let ?obj = "\<lparr>ko_type = SecretTypeMeta, ko_meta = (ko_meta (new_bucket ''default'' ''a/x''))
    \<lparr>om_labels := bucket_labels (rawBucketForKey ''a/x'')\<rparr>, ko_payload = PSecret []\<rparr>"
  have name: "bucketForKey ''a/x'' = ''a''" by (rule example_bucket[OF example_key(1)])
  let ?queued = "?subscribed\<lparr>wa_cluster := cluster_act (Crash 0) (wa_cluster ?subscribed), wa_queue := enqueue_events [?obj] (wa_queue ?subscribed)\<rparr>"
  have q: "enqueue_events [?obj] [] = [bucket_request ''default'' ''a/x'']"
    by (simp add: enqueue_events_def enqueue_def enqueueObjectIfOwner_def bucket_request_def bucket_labels_def
        new_bucket_def MeshStorageLabel_def BucketLabel_def)
  have "watch_events mem_view (wa_server ?subscribed) (cl_server (cluster_act (Crash 0) (wa_cluster ?subscribed))) [?obj]"
    by (simp add: watch_events_def new_bucket_def name)
  from watch_more[OF r1 watch_act[OF _ this]]
  have r2: "watch_reaches (range mem_node) example_keys mem_view (mem_node False) ?begun ?queued" by simp
  have codec: "st_Unmarshal (mem_node False) = st_Unmarshal mem_storage" by (simp add: mem_node_def)
  have c: "kv_content (mem_node False) mem_view ''default'' s ''a/x'' =
      Some \<lparr>item_Key = ''a/x'', item_Value = ''v'', item_Expiry = 0\<rparr>"
    using fun_cong[OF s(3), of "''a/x''"] unfolding kv_content_def codec by simp
  then have "mem_view s (SecretT, ''default'', bucketForKey ''a/x'') \<noteq> None"
    by (auto simp: kv_content_def kv_raw_def bucket_data_def split: option.splits)
  with that[OF example_kv_inv[OF s(2)] r2] s(1) c q show ?thesis
    by (simp add: watch_start_def live_kv_subs_def watch_sub_def)
qed

theorem subscribers_agree_with_store_witness:
  "\<exists>s w sub. watch_reaches (range mem_node) example_keys mem_view (mem_node False) (example_start s) w
    \<and> (''1'', sub) \<in> set (wa_subs w) \<and> heard (ks_fn sub) (wa_log w) ''a/x'' = ''v''"
proof -
  let ?st = "mem_node False" and ?req = "bucket_request ''default'' ''a/x''"
  obtain s w where e: "\<forall>st \<in> range mem_node. kv_inv st example_keys mem_view ''default'' s"
    "watch_reaches (range mem_node) example_keys mem_view ?st (example_start s) w"
    "mem_up (wa_server w)" "wa_queue w = [] @ [?req]"
    "mem_view (wa_server w) (SecretT, ''default'', bucketForKey ''a/x'') \<noteq> None"
    "(''1'', watch_sub) \<in> set (live_kv_subs (wa_rt w) (wa_subs w))"
    "kv_content ?st mem_view ''default'' (wa_server w) ''a/x'' = Some \<lparr>item_Key = ''a/x'', item_Value = ''v'', item_Expiry = 0\<rparr>"
    by (rule example_watch)
  let ?w = "watch_reconcile ?st ?req w"
  have k: "cl_pending \<lparr>cl_server = s, cl_pending = [], cl_puts = []\<rparr> = []"
    "\<forall>st \<in> range mem_node. kv_inv st example_keys mem_view ''default'' (cl_server \<lparr>cl_server = s, cl_pending = [], cl_puts = []\<rparr>)"
    using e(1) by simp_all
  obtain I where "mem_watch.watch_inv example_keys I w" by (rule mem_watch.reached_inv[OF e(2) k])
  then have d: "distinct (map fst (wa_subs w))" by (simp add: mem_watch.watch_inv_def kv_subs_ok_def)
  note u = mem_watch.reconcile_up[OF e(3) d, of ?req]
  have r: "watch_reaches (range mem_node) example_keys mem_view ?st (example_start s) ?w"
    by (rule watch_more[OF e(2) watch_request]) (simp add: e(4))
  obtain seen where sub: "(''1'', watch_sub\<lparr>ks_seen := seen\<rparr>) \<in> set (wa_subs ?w)"
    using u(6) e(6) unfolding mem_watch.stays_def live_kv_subs_def by fastforce
  have "kv_content ?st mem_view ''default'' (wa_server ?w) ''a/x'' = Some \<lparr>item_Key = ''a/x'', item_Value = ''v'', item_Expiry = 0\<rparr>"
    using e(7) kv_store.content_cong[OF mem_node.kv_store_axioms u(2)] by simp
  moreover have i: "?req \<notin> set (wa_queue ?w)" "mem_view (wa_server ?w) (SecretT, ''default'', bucketForKey ''a/x'') \<noteq> None"
    "''1'' \<in> wa_synced ?w" "HasPrefix ''a/x'' (ks_prefix (watch_sub\<lparr>ks_seen := seen\<rparr>))" "CHR ''/'' \<in> set ''a/x''"
    using e(5) sub by (simp_all add: u(2,3,5) HasPrefix_def watch_sub_def image_iff) (rule bexI, rule fst_conv[symmetric])
  ultimately show ?thesis
    using subscribers_agree_with_store[OF mem_watch.watching_axioms r k example_key(1) u(4) i(1,2) sub i(3,4) refl i(5)] r sub
    by (intro exI conjI) auto
qed

subsection \<open>A queue that is worked off\<close>

text \<open>
  C5. Whatever happened before, when the server answers: a node that works off its queue in order
  ends with an empty queue and changes nothing in the store, and a subscription that is live has
  then heard the stored value of every key under its prefix in the bucket that was queued last.
\<close>

theorem queue_worked_off:
  assumes "live_watching cli view ns nodes unmarshal st up admissible"
    and "watch_reaches nodes K view st (watch_start c rt) w" and "cl_pending c = []"
    and "\<forall>st \<in> nodes. kv_inv st K view ns (cl_server c)" and "up (wa_server w)"
    and "wa_queue w = reqs @ [bucket_request ns key]" and "key \<in> K"
    and "view (wa_server w) (SecretT, ns, bucketForKey key) \<noteq> None"
    and "(i, sub) \<in> set (live_kv_subs (wa_rt w) (wa_subs w))"
    and "HasPrefix k (ks_prefix sub)" and "bucketForKey k = bucketForKey key" and "CHR ''/'' \<in> set k"
  shows "let w' = fold (watch_reconcile st) (wa_queue w) w
    in watch_reaches nodes K view st (watch_start c rt) w' \<and> wa_queue w' = []
     \<and> view (wa_server w') = view (wa_server w)
     \<and> heard (ks_fn sub) (wa_log w') k =
         (case kv_content st view ns (wa_server w) k of None \<Rightarrow> [] | Some item \<Rightarrow> item_Value item)"
proof -
  let ?req = "bucket_request ns key"
  define w1 where "w1 = fold (watch_reconcile st) reqs w"
  define w2 where "w2 = watch_reconcile st ?req w1"
  have w2: "w2 = fold (watch_reconcile st) (wa_queue w) w" by (simp add: w1_def w2_def assms(6))
  note watch = live_watching.axioms(1)[OF assms(1)] and dist = reached_queue_distinct[OF assms(2)]
  obtain I where inv: "watching.watch_inv view ns nodes unmarshal st K I w"
    by (rule watching.reached_inv[OF watch assms(2-4)])
  have 1: "watch_reaches nodes K view st (watch_start c rt) w1" "watching.watch_inv view ns nodes unmarshal st K I w1"
    "up (wa_server w1)" "live_watching.stays w w1" "view (wa_server w1) = view (wa_server w)"
    "set (wa_queue w1) = set (wa_queue w) - set reqs"
    using live_watching.work_off[OF assms(1,2) inv assms(5) _ _ w1_def] dist assms(6) by auto
  have 2: "watch_reaches nodes K view st (watch_start c rt) w2" "watching.watch_inv view ns nodes unmarshal st K I w2"
    "live_watching.stays w w2" "view (wa_server w2) = view (wa_server w)" "set (wa_queue w2) = {}"
    using live_watching.work_off[OF assms(1,2) inv assms(5) dist subset_refl w2] by auto
  have d: "distinct (map fst (wa_subs w1))" using 1(2) by (simp add: watching.watch_inv_def[OF watch] kv_subs_ok_def)
  note u = live_watching.reconcile_up[OF assms(1) 1(3) d, of ?req, folded w2_def]
  obtain seen where sub: "(i, sub\<lparr>ks_seen := seen\<rparr>) \<in> set (live_kv_subs (wa_rt w2) (wa_subs w2))"
    using 2(3) assms(9) unfolding live_watching.stays_def[OF assms(1)] by fast
  then have sub': "(i, sub\<lparr>ks_seen := seen\<rparr>) \<in> set (wa_subs w2)" using live_kv_subs_subset by fast
  have i: "?req \<notin> set (wa_queue w2)" "view (wa_server w2) (SecretT, ns, bucketForKey key) \<noteq> None" "i \<in> wa_synced w2"
    "HasPrefix k (ks_prefix (sub\<lparr>ks_seen := seen\<rparr>))"
    using assms(8,10) 2(4,5) sub' by (simp_all add: u(5)) force
  have "kv_content st view ns (wa_server w2) k = kv_content st view ns (wa_server w) k"
    using kv_store.content_cong[OF kv_cluster.node_store[OF watching.axioms(1)[OF watch] watching.watcher[OF watch]] 2(4)] by simp
  with watching.in_step_heard[OF watch 2(2) assms(7) u(4) i(1,2) sub' i(3,4) assms(11,12)] 2
  show ?thesis by (simp add: w2[symmetric] Let_def)
qed

theorem queue_worked_off_witness:
  "\<exists>s w. watch_reaches (range mem_node) example_keys mem_view (mem_node False) (example_start s) w
    \<and> wa_queue w \<noteq> []
    \<and> wa_queue (fold (watch_reconcile (mem_node False)) (wa_queue w) w) = []
    \<and> heard 5 (wa_log (fold (watch_reconcile (mem_node False)) (wa_queue w) w)) ''a/x'' = ''v''"
proof -
  obtain s w where e: "\<forall>st \<in> range mem_node. kv_inv st example_keys mem_view ''default'' s"
    "watch_reaches (range mem_node) example_keys mem_view (mem_node False) (example_start s) w"
    "mem_up (wa_server w)" "wa_queue w = [] @ [bucket_request ''default'' ''a/x'']"
    "mem_view (wa_server w) (SecretT, ''default'', bucketForKey ''a/x'') \<noteq> None"
    "(''1'', watch_sub) \<in> set (live_kv_subs (wa_rt w) (wa_subs w))"
    "kv_content (mem_node False) mem_view ''default'' (wa_server w) ''a/x'' =
      Some \<lparr>item_Key = ''a/x'', item_Value = ''v'', item_Expiry = 0\<rparr>"
    by (rule example_watch)
  have k: "cl_pending \<lparr>cl_server = s, cl_pending = [], cl_puts = []\<rparr> = []"
    "\<forall>st \<in> range mem_node. kv_inv st example_keys mem_view ''default'' (cl_server \<lparr>cl_server = s, cl_pending = [], cl_puts = []\<rparr>)"
    using e(1) by simp_all
  have i: "HasPrefix ''a/x'' (ks_prefix watch_sub)" "CHR ''/'' \<in> set ''a/x''" "ks_fn watch_sub = 5"
    by (simp_all add: HasPrefix_def watch_sub_def)
  from queue_worked_off[OF mem_watch.live_watching_axioms e(2) k e(3,4) example_key(1) e(5,6) i(1) refl i(2)] e(2,4,7)
  show ?thesis unfolding Let_def i(3) by (intro exI conjI) (assumption | simp)+
qed

end
