(* ===== verification/Members.thy ===== *)
theory Members
  imports ConsensusProps
begin

text \<open>
  Several members that change the group at the same time. \<open>AddVoter\<close>, \<open>AddObserver\<close> and \<open>RemovePeer\<close>
  make one call of the API server and so come one after the other; \<open>DemoteVoter\<close> reads the peer
  first, and the changes of other members may come in between. No change asks who leads.
\<close>

subsection \<open>The pieces of a demotion\<close>

definition DemoteVoter_read :: "'s consensus \<Rightarrow> storage_peer \<Rightarrow> ('s, kobject) act" where
  "DemoteVoter_read c peer s =
     (if co_isObserver c then (Inl ErrNotStorageNode, s)
      else (case api_get (co_cli c) StoragePeerT (co_Namespace c) (HashID (sp_id peer)) s of
              (Inl err, s') \<Rightarrow> (Inl err, s')
            | (Inr stpeer, s') \<Rightarrow>
                (Inr (stpeer\<lparr>ko_payload := PStoragePeer
                   ((as_storage_peer (ko_payload stpeer))\<lparr>sp_clusterStatus := CLUSTER_OBSERVER\<rparr>)\<rparr>), s')))"

definition DemoteVoter_apply :: "'s consensus \<Rightarrow> kobject \<Rightarrow> ('s, unit) act" where
  "DemoteVoter_apply c stpeer s = PatchObject (co_cli c) stpeer s"

lemma DemoteVoter_pieces:
  "DemoteVoter c p s =
     (case DemoteVoter_read c p s of (Inl err, s') \<Rightarrow> (Inl err, s') | (Inr obj, s') \<Rightarrow> DemoteVoter_apply c obj s')"
  by (auto simp: DemoteVoter_def DemoteVoter_read_def DemoteVoter_apply_def split: prod.split sum.split)

subsection \<open>Runs\<close>

text \<open>
  The server, the demotions that have read their peer, and the changes that were made, with the
  member that made them; the program does not have the last.
\<close>

record 's group_run =
  gr_server :: 's
  gr_pending :: "('s consensus \<times> kobject) list"
  gr_changes :: "('s consensus \<times> cons_op) list"

datatype 's group_action =
    Change "'s consensus" cons_op
  | DemoteBegin "'s consensus" storage_peer
  | DemoteEnd nat
  | DemoteCrash nat

fun group_act :: "'s group_action \<Rightarrow> 's group_run \<Rightarrow> 's group_run" where
  "group_act (Change c op) g =
     g\<lparr>gr_server := snd (cons_step c op (gr_server g)), gr_changes := (c, op) # gr_changes g\<rparr>"
| "group_act (DemoteBegin c p) g =
     (case DemoteVoter_read c p (gr_server g) of
        (Inl _, s') \<Rightarrow> g\<lparr>gr_server := s'\<rparr>
      | (Inr obj, s') \<Rightarrow> g\<lparr>gr_server := s', gr_pending := gr_pending g @ [(c, obj)]\<rparr>)"
| "group_act (DemoteEnd i) g =
     (if length (gr_pending g) \<le> i then g
      else g\<lparr>gr_server := snd (DemoteVoter_apply (fst (gr_pending g ! i)) (snd (gr_pending g ! i)) (gr_server g)),
             gr_pending := take i (gr_pending g) @ drop (Suc i) (gr_pending g)\<rparr>)"
| "group_act (DemoteCrash i) g = g\<lparr>gr_pending := take i (gr_pending g) @ drop (Suc i) (gr_pending g)\<rparr>"

fun act_of :: "'s consensus set \<Rightarrow> 's group_action \<Rightarrow> bool" where
  "act_of members (Change c op) \<longleftrightarrow> c \<in> members"
| "act_of members (DemoteBegin c p) \<longleftrightarrow> c \<in> members"
| "act_of members _ \<longleftrightarrow> True"

inductive group_reaches :: "'s consensus set \<Rightarrow> 's group_run \<Rightarrow> 's group_run \<Rightarrow> bool" for members g0 where
  group_start: "group_reaches members g0 g0"
| group_step: "group_reaches members g0 g \<Longrightarrow> act_of members a \<Longrightarrow> group_reaches members g0 (group_act a g)"

subsection \<open>Where stored peers come from\<close>

text \<open>The changes a member may make: an observer adds itself, as an observer, and nothing else.\<close>

fun may_change :: "'s consensus \<Rightarrow> cons_op \<Rightarrow> bool" where
  "may_change c (OpAddObserver p) \<longleftrightarrow> \<not> co_isObserver c \<or> sp_id p = co_NodeID c"
| "may_change c _ \<longleftrightarrow> \<not> co_isObserver c"

definition made :: "('s consensus \<times> cons_op) list \<Rightarrow> cons_op set" where
  "made ch = {op. \<exists>c. (c, op) \<in> set ch \<and> may_change c op}"

definition voters_of :: "storage_peer set \<Rightarrow> ('s consensus \<times> cons_op) list \<Rightarrow> storage_peer set" where
  "voters_of P ch = P \<union> {p\<lparr>sp_clusterStatus := CLUSTER_VOTER\<rparr> | p. OpAddVoter p \<in> made ch}"

definition observers_of :: "storage_peer set \<Rightarrow> ('s consensus \<times> cons_op) list \<Rightarrow> storage_peer set" where
  "observers_of P ch = {p\<lparr>sp_clusterStatus := CLUSTER_OBSERVER\<rparr> | p. p \<in> P \<or> OpAddVoter p \<in> made ch \<or> OpAddObserver p \<in> made ch}"

abbreviation group_of where
  "group_of P ch \<equiv> voters_of P ch \<union> observers_of P ch"

lemma group_of_grows: "group_of P ch \<subseteq> group_of P (x # ch)"
  by (auto simp: voters_of_def observers_of_def made_def)

lemma group_of_demoted: "p \<in> group_of P ch \<Longrightarrow> p\<lparr>sp_clusterStatus := CLUSTER_OBSERVER\<rparr> \<in> group_of P ch"
  unfolding voters_of_def observers_of_def by auto

context kube_ns begin

lemma refused_unchanged:
  assumes "\<not> may_change c op" and "cons_step c op s = (r, s')"
  shows "s' = s"
  using assms by (cases op) (auto simp: AddVoter_def AddObserver_def DemoteVoter_def RemovePeer_def removePeerByIDHash_def split: if_splits)

text \<open>What one call leaves on the server: a peer that was there, or one a change has made.\<close>

lemma cons_step_origin:
  assumes wf: "peers_wf view ns s" and step: "cons_step c op s = (r, s')" and c: "co_cli c = cli" "co_Namespace c = ns"
    and origin: "ran (peer_content view ns s) \<subseteq> group_of P ch"
  shows "ran (peer_content view ns s') \<subseteq> group_of P ((c, op) # ch)"
proof (cases "may_change c op")
  case False
  with refused_unchanged[OF False step] origin group_of_grows[of P ch "(c, op)"] show ?thesis by auto
next
  case True
  let ?m = "peer_content view ns s"
  have new: "ran (cons_apply op ?m) \<subseteq> group_of P ((c, op) # ch)"
  proof -
    have old: "ran ?m \<subseteq> group_of P ((c, op) # ch)" using origin group_of_grows[of P ch "(c, op)"] by blast
    have upd: "ran (?m(n \<mapsto> p)) \<subseteq> group_of P ((c, op) # ch)" if "p \<in> group_of P ((c, op) # ch)" for n p
      using that old by (auto simp: ran_def)
    have made: "op \<in> made ((c, op) # ch)" using True by (auto simp: made_def)
    show ?thesis
    proof (cases op)
      case (OpAddVoter p)
      then have e: "cons_apply op ?m = ?m(HashID (sp_id p) \<mapsto> p\<lparr>sp_clusterStatus := CLUSTER_VOTER\<rparr>)" by simp
      show ?thesis unfolding e by (rule upd) (use made OpAddVoter in \<open>auto simp: voters_of_def\<close>)
    next
      case (OpAddObserver p)
      then have e: "cons_apply op ?m = ?m(HashID (sp_id p) \<mapsto> p\<lparr>sp_clusterStatus := CLUSTER_OBSERVER\<rparr>)" by simp
      show ?thesis unfolding e by (rule upd) (use made OpAddObserver in \<open>auto simp: observers_of_def\<close>)
    next
      case (OpDemote p)
      show ?thesis
      proof (cases "?m (HashID (sp_id p))")
        case None
        then have "cons_apply op ?m = ?m" using OpDemote by (simp add: fun_upd_idem)
        with old show ?thesis by simp
      next
        case (Some q)
        then have "q \<in> group_of P ((c, op) # ch)" using old by (auto simp: ran_def)
        from upd[OF group_of_demoted[OF this]] Some OpDemote show ?thesis by simp
      qed
    next
      case (OpRemove p)
      then show ?thesis using old by (auto simp: ran_def)
    qed
  qed
  from cons_step_content(2)[OF wf step c] origin group_of_grows[of P ch "(c, op)"] new show ?thesis by auto
qed

text \<open>What a demotion has read, and will write.\<close>

definition demotes :: "storage_peer set \<Rightarrow> kobject \<Rightarrow> bool" where
  "demotes Q obj \<longleftrightarrow> (\<exists>q. key_of obj = (StoragePeerT, ns, HashID (sp_id q)) \<and> shown obj = stored_peer q
     \<and> sp_clusterStatus q = CLUSTER_OBSERVER \<and> q \<in> Q)"

lemma demotes_mono: "demotes Q obj \<Longrightarrow> Q \<subseteq> Q' \<Longrightarrow> demotes Q' obj"
  unfolding demotes_def by blast

lemma DemoteVoter_read_frame:
  assumes "DemoteVoter_read c p s = (r, s')" and "co_cli c = cli"
  shows "view s' = view s"
proof -
  obtain g s1 where g: "api_get cli StoragePeerT (co_Namespace c) (HashID (sp_id p)) s = (g, s1)" by fastforce
  with assms get_frame[OF g] show ?thesis by (cases g) (auto simp: DemoteVoter_read_def split: if_splits)
qed

lemma DemoteVoter_read_done:
  assumes "DemoteVoter_read c p s = (Inr obj, s')" and "co_cli c = cli" "co_Namespace c = ns" and wf: "peers_wf view ns s"
  obtains q where "view s (StoragePeerT, ns, HashID (sp_id p)) = Some (stored_peer q)" "HashID (sp_id q) = HashID (sp_id p)"
    "key_of obj = (StoragePeerT, ns, HashID (sp_id p))" "shown obj = stored_peer (q\<lparr>sp_clusterStatus := CLUSTER_OBSERVER\<rparr>)"
proof -
  from assms(1-3) obtain o1 where g: "api_get cli StoragePeerT ns (HashID (sp_id p)) s = (Inr o1, s')"
    "obj = o1\<lparr>ko_payload := PStoragePeer ((as_storage_peer (ko_payload o1))\<lparr>sp_clusterStatus := CLUSTER_OBSERVER\<rparr>)\<rparr>"
    by (auto simp: DemoteVoter_read_def split: if_splits prod.splits sum.splits)
  from get_found[OF g(1)] have o: "key_of o1 = (StoragePeerT, ns, HashID (sp_id p))"
    "view s (StoragePeerT, ns, HashID (sp_id p)) = Some (shown o1)" by simp_all
  with wf obtain q where q: "shown o1 = stored_peer q" "HashID (sp_id q) = HashID (sp_id p)" unfolding peers_wf_def by metis
  then have "om_labels (ko_meta o1) = [NodeIDLabel \<mapsto> sp_id q]" "ko_payload o1 = PStoragePeer q"
    by (auto simp: shown_def stored_peer_def)
  then have "shown obj = stored_peer (q\<lparr>sp_clusterStatus := CLUSTER_OBSERVER\<rparr>)"
    "key_of obj = (StoragePeerT, ns, HashID (sp_id p))"
    using o(1) by (simp_all add: g(2) shown_def stored_peer_def key_of_def)
  with that o(2) q show ?thesis by simp
qed

text \<open>The invariant of runs.\<close>

definition group_inv :: "storage_peer set \<Rightarrow> 'a group_run \<Rightarrow> bool" where
  "group_inv P g \<longleftrightarrow> peers_wf view ns (gr_server g)
     \<and> ran (peer_content view ns (gr_server g)) \<subseteq> group_of P (gr_changes g)
     \<and> (\<forall>(c, obj) \<in> set (gr_pending g). co_cli c = cli \<and> demotes (group_of P (gr_changes g)) obj)"

lemma group_inv_same:
  assumes "group_inv P g" and v: "view s' = view (gr_server g)"
  shows "group_inv P (g\<lparr>gr_server := s'\<rparr>)"
  using assms(1) named_content_cong[OF v, of as_storage_peer StoragePeerT ns]
  by (simp add: group_inv_def peers_wf_def v)

lemma group_inv_drop:
  "group_inv P g \<Longrightarrow> group_inv P (g\<lparr>gr_pending := take i (gr_pending g) @ drop (Suc i) (gr_pending g)\<rparr>)"
  by (auto simp: group_inv_def dest: in_set_takeD in_set_dropD)

lemma group_inv_demoted:
  assumes inv: "group_inv P g" and i: "i < length (gr_pending g)"
  shows "group_inv P (g\<lparr>gr_server := snd (DemoteVoter_apply (fst (gr_pending g ! i)) (snd (gr_pending g ! i)) (gr_server g))\<rparr>)"
proof -
  obtain c obj where co: "gr_pending g ! i = (c, obj)" by fastforce
  with i inv have c: "co_cli c = cli" and d: "demotes (group_of P (gr_changes g)) obj"
    unfolding group_inv_def using nth_mem[OF i] by auto
  then obtain q where q: "key_of obj = (StoragePeerT, ns, HashID (sp_id q))" "shown obj = stored_peer q"
    "sp_clusterStatus q = CLUSTER_OBSERVER" "q \<in> group_of P (gr_changes g)" unfolding demotes_def by blast
  obtain r s' where a: "PatchObject cli obj (gr_server g) = (r, s')" by fastforce
  have s': "snd (DemoteVoter_apply c obj (gr_server g)) = s'" using a c by (simp add: DemoteVoter_apply_def)
  from PatchObject_peer(2)[OF a q(1,2)] have "group_inv P (g\<lparr>gr_server := s'\<rparr>)"
  proof
    assume v: "view s' = (view (gr_server g))((StoragePeerT, ns, HashID (sp_id q)) \<mapsto> stored_peer q)"
    have "peers_wf view ns s'" using inv q(3) by (intro peers_wf_put[OF _ v]) (simp_all add: group_inv_def)
    moreover have "ran (peer_content view ns s') \<subseteq> group_of P (gr_changes g)"
      using inv q(4) unfolding peer_content_put[OF v] group_inv_def by (auto simp: ran_def)
    ultimately show ?thesis using inv by (simp add: group_inv_def)
  qed (rule group_inv_same[OF inv])
  with co s' show ?thesis by simp
qed

lemma group_act_inv:
  assumes "group_inv P g" and "act_of members a" and "\<forall>c \<in> members. co_cli c = cli \<and> co_Namespace c = ns"
  shows "group_inv P (group_act a g)"
proof (cases a)
  case (Change c op)
  obtain r s' where step: "cons_step c op (gr_server g) = (r, s')" by fastforce
  have c: "co_cli c = cli" "co_Namespace c = ns" using assms(2,3) Change by auto
  note inv = assms(1)[unfolded group_inv_def]
  have "peers_wf view ns s'" using cons_step_wf[OF _ step c] inv by blast
  moreover have "ran (peer_content view ns s') \<subseteq> group_of P ((c, op) # gr_changes g)" using cons_step_origin[OF _ step c] inv by blast
  moreover have "\<forall>(c', obj) \<in> set (gr_pending g). co_cli c' = cli \<and> demotes (group_of P ((c, op) # gr_changes g)) obj"
    using inv demotes_mono[OF _ group_of_grows] by fast
  ultimately show ?thesis by (simp add: Change step group_inv_def)
next
  case (DemoteBegin c p)
  have c: "co_cli c = cli" "co_Namespace c = ns" using assms(2,3) DemoteBegin by auto
  obtain r s' where rd: "DemoteVoter_read c p (gr_server g) = (r, s')" by fastforce
  note same = group_inv_same[OF assms(1) DemoteVoter_read_frame[OF rd c(1)]]
  show ?thesis
  proof (cases r)
    case (Inl e)
    with same rd show ?thesis by (simp add: DemoteBegin)
  next
    case (Inr obj)
    have wf: "peers_wf view ns (gr_server g)" using assms(1) by (simp add: group_inv_def)
    obtain q where q: "view (gr_server g) (StoragePeerT, ns, HashID (sp_id p)) = Some (stored_peer q)"
      "HashID (sp_id q) = HashID (sp_id p)" "key_of obj = (StoragePeerT, ns, HashID (sp_id p))"
      "shown obj = stored_peer (q\<lparr>sp_clusterStatus := CLUSTER_OBSERVER\<rparr>)"
      by (rule DemoteVoter_read_done[OF rd[unfolded Inr] c wf])
    have "peer_content view ns (gr_server g) (HashID (sp_id p)) = Some q" using q(1) by (simp add: named_content_def stored_peer_def)
    then have "q \<in> ran (peer_content view ns (gr_server g))" by (rule ranI)
    then have "q\<lparr>sp_clusterStatus := CLUSTER_OBSERVER\<rparr> \<in> group_of P (gr_changes g)"
      using assms(1) by (intro group_of_demoted) (auto simp: group_inv_def)
    then have "demotes (group_of P (gr_changes g)) obj"
      unfolding demotes_def using q by (intro exI[of _ "q\<lparr>sp_clusterStatus := CLUSTER_OBSERVER\<rparr>"]) simp
    with same c(1) show ?thesis by (simp add: DemoteBegin rd Inr group_inv_def)
  qed
next
  case (DemoteEnd i)
  then show ?thesis using group_inv_drop[OF group_inv_demoted[OF assms(1), of i], of i] assms(1) by simp
next
  case (DemoteCrash i)
  then show ?thesis using group_inv_drop[OF assms(1)] by simp
qed

lemma group_reaches_inv:
  assumes "group_reaches members g0 g" and "group_inv P g0" and "\<forall>c \<in> members. co_cli c = cli \<and> co_Namespace c = ns"
  shows "group_inv P g"
  using assms by (induction rule: group_reaches.induct) (blast intro: group_act_inv)+

end


subsection \<open>Properties\<close>

text \<open>
  C15. However the members of the group interleave their changes, with demotions that are overtaken or
  lost in a crash: every stored peer is of the type the sequential operations keep, it was there at
  first or is one that a member was allowed to add, and it is a voter only if it was one at first
  or a member that is no observer added it as a voter.
\<close>

theorem group_members_were_added:
  assumes "kube_ns cli view ns" and "\<forall>c \<in> members. co_cli c = cli \<and> co_Namespace c = ns" and "peers_wf view ns s"
    and "group_reaches members \<lparr>gr_server = s, gr_pending = [], gr_changes = []\<rparr> g"
  shows "peers_wf view ns (gr_server g)
    \<and> ran (peer_content view ns (gr_server g))
        \<subseteq> group_of (ran (peer_content view ns s)) (gr_changes g)
    \<and> {p \<in> ran (peer_content view ns (gr_server g)). sp_clusterStatus p = CLUSTER_VOTER}
        \<subseteq> voters_of (ran (peer_content view ns s)) (gr_changes g)"
proof -
  let ?P = "ran (peer_content view ns s)"
  have "kube_ns.group_inv cli view ns ?P \<lparr>gr_server = s, gr_pending = [], gr_changes = []\<rparr>"
    using assms(3) by (auto simp: kube_ns.group_inv_def[OF assms(1)] voters_of_def)
  from kube_ns.group_reaches_inv[OF assms(1,4) this assms(2)]
  have inv: "peers_wf view ns (gr_server g)" "ran (peer_content view ns (gr_server g)) \<subseteq> group_of ?P (gr_changes g)"
    by (simp_all add: kube_ns.group_inv_def[OF assms(1)])
  then show ?thesis by (auto simp: observers_of_def)
qed

theorem group_members_were_added_witness:
  "{p \<in> ran (peer_content mem_view ''default'' (gr_server
       (group_act (Change example_observer (OpAddVoter (example_peer ''node-o'')))
         (group_act (Change (example_member ''node-a'') (OpAddVoter (example_peer ''node-a'')))
           \<lparr>gr_server = mem_init, gr_pending = [], gr_changes = []\<rparr>)))). sp_clusterStatus p = CLUSTER_VOTER}
     \<subseteq> {(example_peer ''node-a'')\<lparr>sp_clusterStatus := CLUSTER_VOTER\<rparr>}"
proof -
  let ?members = "{example_observer, example_member ''node-a''}"
  let ?start = "\<lparr>gr_server = mem_init, gr_pending = [], gr_changes = []\<rparr> :: mem_state group_run"
  let ?g = "group_act (Change example_observer (OpAddVoter (example_peer ''node-o'')))
      (group_act (Change (example_member ''node-a'') (OpAddVoter (example_peer ''node-a''))) ?start)"
  have reach: "group_reaches ?members ?start ?g"
    by (intro group_step group_start) simp_all
  have empty: "ran (peer_content mem_view ''default'' mem_init) = {}" by (simp add: named_content_def ran_def)
  have ch: "gr_changes ?g = [(example_observer, OpAddVoter (example_peer ''node-o'')),
      (example_member ''node-a'', OpAddVoter (example_peer ''node-a''))]" by simp
  have "voters_of {} (gr_changes ?g) \<subseteq> {(example_peer ''node-a'')\<lparr>sp_clusterStatus := CLUSTER_VOTER\<rparr>}"
    unfolding ch by (auto simp: voters_of_def made_def)
  moreover have "\<forall>c \<in> ?members. co_cli c = mem_client \<and> co_Namespace c = ''default''" by simp
  note group_members_were_added[OF mem_kube_ns this example_peers_wf reach, unfolded empty, THEN conjunct2, THEN conjunct2]
  ultimately show ?thesis by (rule subset_trans[rotated])
qed

text \<open>
  C29. A demotion that is overtaken by the removal of its peer brings the peer back: the voter is
  read, another member removes it, and the apply, which names no version or uid of the object it
  read, stores it again as an observer. Had the removal come first, the demotion would have failed
  and the peer stayed removed.
\<close>

theorem stale_demotion_revives_peer:
  assumes "kube_ns_server cli view up admissible ns" and "up s" and "peers_wf view ns s"
    and "co_cli c = cli" "co_Namespace c = ns" "\<not> co_isObserver c"
    and "co_cli c' = cli" "co_Namespace c' = ns" "\<not> co_isObserver c'"
    and "peer_content view ns s (HashID (sp_id p)) = Some q"
    and "\<And>n s obj s'. api_get cli StoragePeerT ns n s = (Inr obj, s') \<Longrightarrow> ko_type obj = StoragePeerTypeMeta"
    and "\<And>obj. key_of obj = (StoragePeerT, ns, HashID (sp_id p)) \<Longrightarrow> ko_type obj = StoragePeerTypeMeta \<Longrightarrow> admissible obj"
  shows "\<exists>obj s1 s2 s3 e s4. DemoteVoter_read c p s = (Inr obj, s1)
    \<and> RemovePeer c' p w s1 = (Inr (), s2) \<and> peer_content view ns s2 (HashID (sp_id p)) = None
    \<and> DemoteVoter_apply c obj s2 = (Inr (), s3)
    \<and> peer_content view ns s3 = (peer_content view ns s)(HashID (sp_id p) \<mapsto> q\<lparr>sp_clusterStatus := CLUSTER_OBSERVER\<rparr>)
    \<and> DemoteVoter c p s2 = (Inl e, s4) \<and> is_not_found e \<and> view s4 = view s2"
proof -
  note srv = kube_ns_server.axioms(1)[OF assms(1)] and ns = kube_ns_server.axioms(2)[OF assms(1)]
  note api = kube_server.axioms(1)[OF srv]
  let ?n = "HashID (sp_id p)"
  obtain x where "view s (StoragePeerT, ns, ?n) = Some x" using assms(10) by (auto simp: named_content_def)
  then obtain obj1 s1 where g: "api_get cli StoragePeerT ns ?n s = (Inr obj1, s1)" "up s1"
    using kube_server.up_get[OF srv assms(2)] by blast
  let ?obj = "obj1\<lparr>ko_payload := PStoragePeer ((as_storage_peer (ko_payload obj1))\<lparr>sp_clusterStatus := CLUSTER_OBSERVER\<rparr>)\<rparr>"
  have r: "DemoteVoter_read c p s = (Inr ?obj, s1)" using g(1) assms(4-6) by (simp add: DemoteVoter_read_def)
  obtain q' where q': "view s (StoragePeerT, ns, ?n) = Some (stored_peer q')"
    "key_of ?obj = (StoragePeerT, ns, ?n)" "shown ?obj = stored_peer (q'\<lparr>sp_clusterStatus := CLUSTER_OBSERVER\<rparr>)"
    by (rule kube_ns.DemoteVoter_read_done[OF ns r assms(4,5,3)])
  then have q: "q' = q" using assms(10) by (simp add: named_content_def stored_peer_def)
  have v1: "view s1 = view s" by (rule kube_ns.DemoteVoter_read_frame[OF ns r assms(4)])
  obtain s2 where s2: "RemovePeer c' p w s1 = (Inr (), s2)" "up s2"
    using kube_ns_server.RemovePeer_up[OF assms(1) g(2) assms(7,8,9)] by blast
  note v2 = kube_ns.RemovePeer_view(1)[OF ns s2(1) assms(7,8) refl]
  have "admissible (StripPatchMeta ?obj)" by (rule assms(12)) (simp_all add: q'(2) assms(11)[OF g(1)])
  then obtain s3 where s3: "PatchObject cli ?obj s2 = (Inr (), s3)"
    "view s3 = (view s2)(key_of ?obj \<mapsto> shown ?obj)" by (rule kube_server.PatchObject_up[OF srv s2(2)])
  have a: "DemoteVoter_apply c ?obj s2 = (Inr (), s3)" using s3(1) assms(4) by (simp add: DemoteVoter_apply_def)
  have v3: "view s3 = (view s)((StoragePeerT, ns, ?n) \<mapsto> stored_peer (q\<lparr>sp_clusterStatus := CLUSTER_OBSERVER\<rparr>))"
    by (simp add: s3(2) v2 v1 q'(2,3) q)
  have gone: "view s2 (StoragePeerT, ns, ?n) = None" by (simp add: v2)
  obtain e s4 where e: "api_get cli StoragePeerT ns ?n s2 = (Inl e, s4)" "is_not_found e"
    using kube_server.up_get_absent[OF srv s2(2) gone] by blast
  have "DemoteVoter c p s2 = (Inl e, s4)" using e(1) assms(4-6) by (simp add: DemoteVoter_def)
  moreover have "view s4 = view s2" by (rule kube_api.get_frame[OF api e(1)])
  moreover have "peer_content view ns s2 ?n = None" using gone by (simp add: named_content_def)
  ultimately show ?thesis using r s2(1) a peer_content_put[OF v3] e(2) by blast
qed

text \<open>A client that returns objects with their type, as a client with a cache does.\<close>

definition typed_client :: "mem_state client" where
  "typed_client = mem_client\<lparr>api_get := \<lambda>t ns n s. (case api_get mem_client t ns n s of
     (Inl e, s') \<Rightarrow> (Inl e, s') | (Inr obj, s') \<Rightarrow> (Inr (obj\<lparr>ko_type := StoragePeerTypeMeta\<rparr>), s'))\<rparr>"

lemma typed_client_calls:
  "api_list typed_client = api_list mem_client" "api_patch typed_client = api_patch mem_client"
  "api_delete typed_client = api_delete mem_client"
  "api_get typed_client t ns n s = (Inl e, s') \<longleftrightarrow> api_get mem_client t ns n s = (Inl e, s')"
  "api_get typed_client t ns n s = (Inr obj, s') \<longleftrightarrow>
     (\<exists>o1. api_get mem_client t ns n s = (Inr o1, s') \<and> obj = o1\<lparr>ko_type := StoragePeerTypeMeta\<rparr>)"
  by (auto simp: typed_client_def split: prod.splits sum.splits)

lemma typed_object [simp]: "key_of (obj\<lparr>ko_type := t\<rparr>) = key_of obj" "shown (obj\<lparr>ko_type := t\<rparr>) = shown obj"
  by (simp_all add: key_of_def shown_def)

interpretation typed_ns: kube_ns_server typed_client mem_view mem_up mem_admits "''default''"
proof (unfold_locales, goal_cases)
  case (1 t ns n s r s')
  then show ?case by (cases r) (auto simp: typed_client_calls dest: mem.get_frame)
next
  case (2 t ns n s obj s')
  then show ?case using mem.get_found[of t ns n s] by (auto simp: typed_client_calls)
next
  case (16 s t ns n st)
  then show ?case using mem.up_get[OF 16] by (auto simp: typed_client_calls)
qed (use mem.get_absent mem.get_error mem.list_frame mem.list_sound mem.list_complete mem.list_distinct mem.list_absent
      mem.list_error mem.patch_done mem.patch_failed mem.delete_done mem.delete_absent mem.delete_failed
      mem.up_get_absent mem.up_list mem.up_patch mem.up_delete mem.up_delete_absent
     in \<open>simp_all add: typed_client_calls\<close>)

text \<open>Two members that use it, and the group with one voter.\<close>

definition typed_member :: "mem_state consensus" where
  "typed_member = (example_member ''node-b'')\<lparr>co_cli := typed_client\<rparr>"

theorem stale_demotion_revives_peer_witness:
  "\<exists>s obj s1 s2 s3. DemoteVoter_read typed_member (example_peer ''node-a'') s = (Inr obj, s1)
    \<and> RemovePeer typed_member (example_peer ''node-a'') False s1 = (Inr (), s2)
    \<and> DemoteVoter_apply typed_member obj s2 = (Inr (), s3)
    \<and> peer_content mem_view ''default'' s2 (HashID ''node-a'') = None
    \<and> peer_content mem_view ''default'' s3 (HashID ''node-a'') = Some ((example_peer ''node-a'')\<lparr>sp_clusterStatus := CLUSTER_OBSERVER\<rparr>)"
proof -
  obtain s where s: "mem_up s" "peers_wf mem_view ''default'' s"
    "peer_content mem_view ''default'' s = [HashID ''node-a'' \<mapsto> (example_peer ''node-a'')\<lparr>sp_clusterStatus := CLUSTER_VOTER\<rparr>]"
    by (rule example_group[of "''node-b''" "''node-a''"])
  have c: "co_cli typed_member = typed_client" "co_Namespace typed_member = ''default''" "\<not> co_isObserver typed_member"
    by (simp_all add: typed_member_def)
  have q: "peer_content mem_view ''default'' s (HashID (sp_id (example_peer ''node-a''))) =
      Some ((example_peer ''node-a'')\<lparr>sp_clusterStatus := CLUSTER_VOTER\<rparr>)" unfolding s(3) by simp
  have typed: "ko_type obj = StoragePeerTypeMeta" if "api_get typed_client StoragePeerT ''default'' n s = (Inr obj, s')" for n s obj s'
    using that by (auto simp: typed_client_calls)
  have admitted: "mem_admits obj" if "key_of obj = (StoragePeerT, ''default'', HashID (sp_id (example_peer ''node-a'')))"
    "ko_type obj = StoragePeerTypeMeta" for obj using that by (rule mem_admits_peer)
  let ?p = "example_peer ''node-a''" and ?m = "peer_content mem_view ''default''"
  have "\<exists>obj s1 s2 s3 e s4. DemoteVoter_read typed_member ?p s = (Inr obj, s1)
    \<and> RemovePeer typed_member ?p False s1 = (Inr (), s2) \<and> ?m s2 (HashID (sp_id ?p)) = None
    \<and> DemoteVoter_apply typed_member obj s2 = (Inr (), s3)
    \<and> ?m s3 = (?m s)(HashID (sp_id ?p) \<mapsto> ?p\<lparr>sp_clusterStatus := CLUSTER_VOTER\<rparr>\<lparr>sp_clusterStatus := CLUSTER_OBSERVER\<rparr>)
    \<and> DemoteVoter typed_member ?p s2 = (Inl e, s4) \<and> is_not_found e \<and> mem_view s4 = mem_view s2"
    by (rule stale_demotion_revives_peer[OF typed_ns.kube_ns_server_axioms s(1,2) c c q]) (fact typed, fact admitted)
  then obtain obj s1 s2 s3 where "DemoteVoter_read typed_member ?p s = (Inr obj, s1)"
    "RemovePeer typed_member ?p False s1 = (Inr (), s2)" "?m s2 (HashID (sp_id ?p)) = None"
    "DemoteVoter_apply typed_member obj s2 = (Inr (), s3)"
    "?m s3 = (?m s)(HashID (sp_id ?p) \<mapsto> ?p\<lparr>sp_clusterStatus := CLUSTER_VOTER\<rparr>\<lparr>sp_clusterStatus := CLUSTER_OBSERVER\<rparr>)"
    by (elim exE conjE)
  then show ?thesis by (intro exI conjI) (assumption | simp)+
qed

end
