(* ===== verification/Locks.thy ===== *)
theory Locks
  imports Prelude
begin

text \<open>
  The locks of the program. The other theories take every operation as one step; here the
  operations are the sequences of lock calls and accesses to shared maps they make, and their
  interleavings are the runs of a machine with Go's \<open>sync.Mutex\<close> and \<open>sync.RWMutex\<close>. As
  documented, a waiting \<open>Lock\<close> of an RWMutex keeps out later calls of \<open>RLock\<close>, also by a
  goroutine that already holds the lock for reading.
\<close>

subsection \<open>The machine\<close>

datatype lock = ProviderMu | StorageMu | SubsMu | ConsensusMu | GraphSubMu | MeshStateMu | CrdsOnce | CrdsMu

datatype var = KvSubs | GraphSubs | ConsensusSelf

datatype lock_mode = ReadMode | WriteMode

datatype instr =
    Lock lock
  | Unlock lock
  | RLock lock
  | RUnlock lock
  | ReadVar var
  | WriteVar var

text \<open>A goroutine: what it still has to do, the locks it holds, and whether its call of \<open>Lock\<close> waits.\<close>

record thread =
  th_todo :: "instr list"
  th_held :: "(lock_mode \<times> lock) list"
  th_waiting :: bool

definition holds :: "thread \<Rightarrow> lock \<Rightarrow> bool" where
  "holds t l \<longleftrightarrow> l \<in> snd ` set (th_held t)"

definition held_by_any :: "thread list \<Rightarrow> lock \<Rightarrow> bool" where
  "held_by_any ts l \<longleftrightarrow> (\<exists>t \<in> set ts. holds t l)"

definition write_held :: "thread list \<Rightarrow> lock \<Rightarrow> bool" where
  "write_held ts l \<longleftrightarrow> (\<exists>t \<in> set ts. (WriteMode, l) \<in> set (th_held t))"

fun wants :: "instr list \<Rightarrow> lock \<Rightarrow> bool" where
  "wants (Lock l' # _) l \<longleftrightarrow> l' = l"
| "wants _ l \<longleftrightarrow> False"

lemma wants_iff: "wants todo l \<longleftrightarrow> (\<exists>rest. todo = Lock l # rest)"
  by (cases "(todo, l)" rule: wants.cases) auto

definition lock_wanted :: "thread list \<Rightarrow> lock \<Rightarrow> bool" where
  "lock_wanted ts l \<longleftrightarrow> (\<exists>t \<in> set ts. th_waiting t \<and> wants (th_todo t) l)"

text \<open>What a goroutine does next in the company of all the goroutines, unless it has to wait.\<close>

fun thread_step :: "thread list \<Rightarrow> thread \<Rightarrow> thread option" where
  "thread_step ts t =
     (case th_todo t of
        [] \<Rightarrow> None
      | Lock l # rest \<Rightarrow>
          (if \<not> th_waiting t then Some (t\<lparr>th_waiting := True\<rparr>)
           else if held_by_any ts l then None
           else Some \<lparr>th_todo = rest, th_held = (WriteMode, l) # th_held t, th_waiting = False\<rparr>)
      | Unlock l # rest \<Rightarrow> Some (t\<lparr>th_todo := rest, th_held := remove1 (WriteMode, l) (th_held t)\<rparr>)
      | RLock l # rest \<Rightarrow>
          (if write_held ts l \<or> lock_wanted ts l then None
           else Some (t\<lparr>th_todo := rest, th_held := (ReadMode, l) # th_held t\<rparr>))
      | RUnlock l # rest \<Rightarrow> Some (t\<lparr>th_todo := rest, th_held := remove1 (ReadMode, l) (th_held t)\<rparr>)
      | ReadVar v # rest \<Rightarrow> Some (t\<lparr>th_todo := rest\<rparr>)
      | WriteVar v # rest \<Rightarrow> Some (t\<lparr>th_todo := rest\<rparr>))"

inductive steps_to :: "thread list \<Rightarrow> thread list \<Rightarrow> bool" where
  step: "i < length ts \<Longrightarrow> thread_step ts (ts ! i) = Some t' \<Longrightarrow> steps_to ts (ts[i := t'])"

inductive_cases steps_toE: "steps_to ts ts'"

inductive reaches :: "thread list \<Rightarrow> thread list \<Rightarrow> bool" for ts0 where
  reaches_refl: "reaches ts0 ts0"
| reaches_step: "reaches ts0 ts \<Longrightarrow> steps_to ts ts' \<Longrightarrow> reaches ts0 ts'"

definition start :: "instr list list \<Rightarrow> thread list" where
  "start progs = map (\<lambda>p. \<lparr>th_todo = p, th_held = [], th_waiting = False\<rparr>) progs"

definition finished :: "thread list \<Rightarrow> bool" where
  "finished ts \<longleftrightarrow> (\<forall>t \<in> set ts. th_todo t = [])"

definition stuck :: "thread list \<Rightarrow> bool" where
  "stuck ts \<longleftrightarrow> (\<forall>t \<in> set ts. thread_step ts t = None)"

text \<open>The access a goroutine is about to make, and whether it writes.\<close>

fun accesses :: "thread \<Rightarrow> (var \<times> bool) option" where
  "accesses t = (case th_todo t of WriteVar v # _ \<Rightarrow> Some (v, True) | ReadVar v # _ \<Rightarrow> Some (v, False) | _ \<Rightarrow> None)"

subsection \<open>The operations\<close>

text \<open>
  The lock calls of the operations, with the deferred unlocks at the end. \<open>GetValue\<close>, \<open>PutValue\<close>,
  \<open>Delete\<close>, \<open>ListKeys\<close>, \<open>IterPrefix\<close> and the goroutine of an expired key take the lock of the
  store around all they do. Each definition is the longest path through the operation; a path that
  returns early leaves out accesses, which never block, or is the path of another operation: a
  \<open>Bootstrap\<close>, \<open>Status\<close> or \<open>Close\<close> of a provider that is not started has the locks of \<open>Start_locks\<close>.
\<close>

definition storage_op_locks :: "instr list" where
  "storage_op_locks = [Lock StorageMu, Unlock StorageMu]"

definition Subscribe_locks :: "instr list" where
  "Subscribe_locks = [Lock StorageMu, WriteVar KvSubs, Unlock StorageMu]"

definition Reconcile_locks :: "instr list" where
  "Reconcile_locks = [Lock SubsMu, ReadVar KvSubs, WriteVar KvSubs, Unlock SubsMu]"

definition Start_locks :: "instr list" where
  "Start_locks = [Lock ProviderMu, Unlock ProviderMu]"

definition Close_locks :: "instr list" where
  "Close_locks = [Lock ProviderMu, Lock SubsMu, WriteVar KvSubs, Unlock SubsMu, Unlock ProviderMu]"

definition IsLeader_locks :: "instr list" where
  "IsLeader_locks = [RLock ConsensusMu, RUnlock ConsensusMu]"

definition GetPeers_locks :: "instr list" where
  "GetPeers_locks = [RLock ConsensusMu, RUnlock ConsensusMu]"

definition change_group_locks :: "instr list" where
  "change_group_locks = [Lock ConsensusMu, Unlock ConsensusMu]"

text \<open>
  \<open>GetLeader\<close> calls \<open>IsLeader\<close> while it holds the lock for reading, and writes \<open>self\<close> under it. This is
  the path of a leader that has not remembered itself; the second call is in the loop over the peers,
  at the node itself.
\<close>

definition GetLeader_locks :: "instr list" where
  "GetLeader_locks = RLock ConsensusMu # IsLeader_locks @ ReadVar ConsensusSelf # IsLeader_locks
     @ [WriteVar ConsensusSelf, RUnlock ConsensusMu]"

definition Bootstrap_locks :: "instr list" where
  "Bootstrap_locks = Lock ProviderMu # change_group_locks @ [Unlock ProviderMu]"

text \<open>The status of a node that is in the group, and of one that is not.\<close>

definition Status_locks :: "instr list" where
  "Status_locks = Lock ProviderMu # GetPeers_locks @ IsLeader_locks @ [Unlock ProviderMu]"

definition Status_alone_locks :: "instr list" where
  "Status_alone_locks = Lock ProviderMu # GetPeers_locks @ [Unlock ProviderMu]"

definition Graph_Subscribe_locks :: "instr list" where
  "Graph_Subscribe_locks = [Lock GraphSubMu, WriteVar GraphSubs, Unlock GraphSubMu]"

definition Database_Reconcile_locks :: "instr list" where
  "Database_Reconcile_locks = [RLock GraphSubMu, ReadVar GraphSubs, WriteVar GraphSubs, RUnlock GraphSubMu]"

definition Database_Close_locks :: "instr list" where
  "Database_Close_locks = [Lock GraphSubMu, ReadVar GraphSubs, WriteVar GraphSubs, Unlock GraphSubMu]"

text \<open>
  \<open>SetMeshState\<close> and \<open>GetMeshState\<close> both take their lock for writing. The first call that asks for the
  definitions of the custom resources runs the function under the lock of \<open>sync.Once\<close>; a later call
  finds it done.
\<close>

definition MeshState_locks :: "instr list" where
  "MeshState_locks = [Lock MeshStateMu, Unlock MeshStateMu]"

definition GetCRDs_locks :: "instr list" where
  "GetCRDs_locks = [Lock CrdsOnce, Lock CrdsMu, Unlock CrdsMu, Unlock CrdsOnce]"

lemmas locks_defs = MeshState_locks_def GetCRDs_locks_def storage_op_locks_def Subscribe_locks_def Reconcile_locks_def Start_locks_def Close_locks_def
  IsLeader_locks_def GetPeers_locks_def change_group_locks_def GetLeader_locks_def Bootstrap_locks_def
  Status_locks_def Status_alone_locks_def Graph_Subscribe_locks_def Database_Reconcile_locks_def Database_Close_locks_def

definition operations_but_GetLeader :: "instr list list" where
  "operations_but_GetLeader = [storage_op_locks, Subscribe_locks, Reconcile_locks, Start_locks, Close_locks,
     IsLeader_locks, GetPeers_locks, change_group_locks, Bootstrap_locks, Status_locks,
     Status_alone_locks, Graph_Subscribe_locks, Database_Reconcile_locks, Database_Close_locks,
     MeshState_locks, GetCRDs_locks]"

subsection \<open>Locks taken in order\<close>

fun rank :: "lock \<Rightarrow> nat" where
  "rank GraphSubMu = 0"
| "rank ProviderMu = 1"
| "rank SubsMu = 2"
| "rank StorageMu = 3"
| "rank ConsensusMu = 4"
| "rank MeshStateMu = 5"
| "rank CrdsOnce = 6"
| "rank CrdsMu = 7"

text \<open>
  With the locks \<open>held\<close>, the rest of a program is ordered when it takes only locks above all
  those it holds, releases only locks it holds, and holds none at its end.
\<close>

fun ordered :: "(lock_mode \<times> lock) list \<Rightarrow> instr list \<Rightarrow> bool" where
  "ordered held [] \<longleftrightarrow> held = []"
| "ordered held (Lock l # rest) \<longleftrightarrow> (\<forall>h \<in> set held. rank (snd h) < rank l) \<and> ordered ((WriteMode, l) # held) rest"
| "ordered held (RLock l # rest) \<longleftrightarrow> (\<forall>h \<in> set held. rank (snd h) < rank l) \<and> ordered ((ReadMode, l) # held) rest"
| "ordered held (Unlock l # rest) \<longleftrightarrow> (WriteMode, l) \<in> set held \<and> ordered (remove1 (WriteMode, l) held) rest"
| "ordered held (RUnlock l # rest) \<longleftrightarrow> (ReadMode, l) \<in> set held \<and> ordered (remove1 (ReadMode, l) held) rest"
| "ordered held (ReadVar v # rest) \<longleftrightarrow> ordered held rest"
| "ordered held (WriteVar v # rest) \<longleftrightarrow> ordered held rest"

lemma operations_ordered: "p \<in> set operations_but_GetLeader \<Longrightarrow> ordered [] p"
  by (auto simp: operations_but_GetLeader_def locks_defs)

definition all_ordered :: "thread list \<Rightarrow> bool" where
  "all_ordered ts \<longleftrightarrow> (\<forall>t \<in> set ts. ordered (th_held t) (th_todo t))"

lemma thread_step_ordered:
  "thread_step ts t = Some t' \<Longrightarrow> ordered (th_held t) (th_todo t) \<Longrightarrow> ordered (th_held t') (th_todo t')"
  by (auto split: list.splits instr.splits if_splits)

lemma steps_to_ordered:
  assumes "steps_to ts ts'" and "all_ordered ts"
  shows "all_ordered ts'"
  using assms(1)
proof (cases rule: steps_to.cases)
  case i: (step i t')
  have "ordered (th_held (ts ! i)) (th_todo (ts ! i))" using assms(2) i(2) by (auto simp: all_ordered_def)
  note t' = thread_step_ordered[OF i(3) this]
  have "set ts' \<subseteq> insert t' (set ts)" unfolding i(1) by (rule set_update_subset_insert)
  with t' assms(2) show "all_ordered ts'" by (auto simp: all_ordered_def)
qed

lemma reaches_ordered: "reaches ts0 ts \<Longrightarrow> all_ordered ts0 \<Longrightarrow> all_ordered ts"
  by (induction rule: reaches.induct) (auto intro: steps_to_ordered)

text \<open>The lock a goroutine waits for.\<close>

definition blocked_on :: "thread list \<Rightarrow> thread \<Rightarrow> lock \<Rightarrow> bool" where
  "blocked_on ts t l \<longleftrightarrow> thread_step ts t = None \<and> (\<exists>rest. th_todo t = Lock l # rest \<or> th_todo t = RLock l # rest)"

text \<open>A goroutine that waits for a lock in a stuck state waits for one that is held.\<close>

lemma blocked_on_held:
  assumes "stuck ts" and "t \<in> set ts" and "blocked_on ts t l"
  shows "held_by_any ts l"
proof -
  obtain rest where "th_todo t = Lock l # rest \<or> th_todo t = RLock l # rest" and n: "thread_step ts t = None"
    using assms(3) by (auto simp: blocked_on_def)
  from this(1) show ?thesis
  proof
    assume "th_todo t = Lock l # rest"
    with n show ?thesis by (auto split: if_splits)
  next
    assume "th_todo t = RLock l # rest"
    with n consider "write_held ts l" | "lock_wanted ts l" by (auto split: if_splits)
    then show ?thesis
    proof cases
      case 1
      then show ?thesis unfolding write_held_def held_by_any_def holds_def by force
    next
      case 2
      then obtain u js where u: "u \<in> set ts" "th_waiting u" "th_todo u = Lock l # js"
        by (auto simp: lock_wanted_def wants_iff)
      with assms(1) have "thread_step ts u = None" unfolding stuck_def by blast
      with u(2,3) show ?thesis by (auto split: if_splits)
    qed
  qed
qed

lemma stuck_blocked:
  assumes "stuck ts" and "t \<in> set ts" and "th_todo t \<noteq> []"
  obtains l where "blocked_on ts t l"
proof -
  have n: "thread_step ts t = None" using assms(1,2) by (simp add: stuck_def)
  with assms(3) have "\<exists>l rest. th_todo t = Lock l # rest \<or> th_todo t = RLock l # rest"
    by (auto split: list.splits instr.splits)
  with n that show ?thesis by (auto simp: blocked_on_def simp del: thread_step.simps)
qed

lemma held_unfinished: "ordered held rest \<Longrightarrow> held \<noteq> [] \<Longrightarrow> rest \<noteq> []"
  by (cases rest) auto

lemma blocked_above_held:
  assumes "all_ordered ts" and "t \<in> set ts" and "blocked_on ts t l" and "holds t l'"
  shows "rank l' < rank l"
proof -
  have "ordered (th_held t) (th_todo t)" using assms(1,2) by (simp add: all_ordered_def)
  with assms(3,4) show ?thesis by (force simp: blocked_on_def holds_def simp del: thread_step.simps)
qed

text \<open>When all goroutines take their locks in order, only finished ones are stuck.\<close>

lemma ordered_not_stuck:
  assumes "all_ordered ts" and "stuck ts"
  shows "finished ts"
proof (rule ccontr)
  assume "\<not> finished ts"
  then obtain t0 where t0: "t0 \<in> set ts" "th_todo t0 \<noteq> []" by (auto simp: finished_def)
  have climb: "\<exists>t \<in> set ts. \<exists>l. blocked_on ts t l \<and> n \<le> rank l" for n
  proof (induction n)
    case 0
    obtain l where "blocked_on ts t0 l" by (rule stuck_blocked[OF assms(2) t0])
    with t0(1) show ?case by auto
  next
    case (Suc n)
    then obtain t l where t: "t \<in> set ts" "blocked_on ts t l" "n \<le> rank l" by blast
    then obtain u where u: "u \<in> set ts" "holds u l"
      using blocked_on_held[OF assms(2)] by (auto simp: held_by_any_def)
    then have "th_held u \<noteq> []" by (auto simp: holds_def)
    with u(1) assms(1) have "th_todo u \<noteq> []" by (auto simp: all_ordered_def dest: held_unfinished)
    then obtain l' where l': "blocked_on ts u l'" by (rule stuck_blocked[OF assms(2) u(1)])
    from blocked_above_held[OF assms(1) u(1) l' u(2)] t(3) u(1) l' show ?case by (intro bexI[of _ u] exI[of _ l']) auto
  qed
  from climb[of 8] obtain l where "8 \<le> rank l" by blast
  then show False by (cases l) auto
qed

lemma all_ordered_progress:
  assumes "all_ordered (start progs)" and "reaches (start progs) ts"
  shows "finished ts \<or> (\<exists>ts'. steps_to ts ts')"
proof (cases "stuck ts")
  case True
  with ordered_not_stuck[OF reaches_ordered[OF assms(2,1)]] show ?thesis by blast
next
  case False
  then obtain i t' where "i < length ts" "thread_step ts (ts ! i) = Some t'"
    by (auto simp: stuck_def in_set_conv_nth simp del: thread_step.simps)
  then show ?thesis using steps_to.step by blast
qed

lemma all_orderedI: "(\<And>p. p \<in> set progs \<Longrightarrow> ordered [] p) \<Longrightarrow> all_ordered (start progs)"
  by (auto simp: all_ordered_def start_def)

text \<open>
  However the operations of the program but \<open>GetLeader\<close> interleave, and however many run at a
  time, they never block each other for good: as long as one has not finished, one can go on.
\<close>

theorem operations_never_deadlock:
  assumes "set progs \<subseteq> set operations_but_GetLeader" and "reaches (start progs) ts"
  shows "finished ts \<or> (\<exists>ts'. steps_to ts ts')"
  using assms(1) operations_ordered by (intro all_ordered_progress[OF all_orderedI assms(2)]) blast

theorem operations_never_deadlock_witness:
  "\<exists>ts. steps_to (start [Bootstrap_locks, Status_locks, Close_locks]) ts"
proof -
  have "finished (start [Bootstrap_locks, Status_locks, Close_locks])
    \<or> (\<exists>ts. steps_to (start [Bootstrap_locks, Status_locks, Close_locks]) ts)"
    by (rule operations_never_deadlock[OF _ reaches_refl]) (simp add: operations_but_GetLeader_def)
  then show ?thesis by (simp add: finished_def start_def Bootstrap_locks_def)
qed

subsection \<open>Mutual exclusion\<close>

text \<open>A lock that is held for writing is held by nobody else, and the programs keep it that way.\<close>

definition exclusive :: "thread list \<Rightarrow> bool" where
  "exclusive ts \<longleftrightarrow> (\<forall>i < length ts. \<forall>j < length ts. \<forall>l. i \<noteq> j \<longrightarrow>
     (WriteMode, l) \<in> set (th_held (ts ! i)) \<longrightarrow> \<not> holds (ts ! j) l)"

lemma thread_step_held:
  assumes "thread_step ts t = Some t'" and "(m, l) \<in> set (th_held t')"
  shows "(m, l) \<in> set (th_held t) \<or> (if m = WriteMode then \<not> held_by_any ts l else \<not> write_held ts l)"
  using assms by (auto split: list.splits instr.splits if_splits dest: notin_set_remove1 in_set_remove1[THEN iffD1])

lemma steps_to_exclusive:
  assumes "steps_to ts ts'" and "exclusive ts"
  shows "exclusive ts'"
  using assms(1)
proof (cases rule: steps_to.cases)
  case s: (step i t')
  have old: "\<not> holds (ts ! k) l" if "j < length ts" "k < length ts" "j \<noteq> k" "(WriteMode, l) \<in> set (th_held (ts ! j))" for j k l
    using assms(2) that unfolding exclusive_def by blast
  show ?thesis unfolding exclusive_def
  proof (intro allI impI)
    fix j k l
    assume jk: "j < length ts'" "k < length ts'" "j \<noteq> k" and w: "(WriteMode, l) \<in> set (th_held (ts' ! j))"
    then have len: "j < length ts" "k < length ts" using s(1) by simp_all
    show "\<not> holds (ts' ! k) l"
    proof (cases "j = i")
      case True
      then have "(WriteMode, l) \<in> set (th_held t')" "ts' ! k = ts ! k" using w jk len s(1) by auto
      with thread_step_held[OF s(3), of WriteMode l] old[OF len jk(3)] True len show ?thesis
        by (auto simp: held_by_any_def)
    next
      case False
      then have wj: "(WriteMode, l) \<in> set (th_held (ts ! j))" using w s(1) by simp
      show ?thesis
      proof (cases "k = i")
        case True
        have "\<not> holds t' l"
        proof
          assume "holds t' l"
          then obtain m where m: "(m, l) \<in> set (th_held t')" by (auto simp: holds_def)
          from wj len(1) have "write_held ts l" "held_by_any ts l"
            unfolding write_held_def held_by_any_def holds_def by force+
          with thread_step_held[OF s(3) m] have "(m, l) \<in> set (th_held (ts ! i))" by (auto split: if_splits)
          then have "holds (ts ! k) l" unfolding holds_def True by force
          with old[OF len jk(3) wj] show False ..
        qed
        with True s(1,2) show ?thesis by simp
      next
        case False
        with old[OF len jk(3) wj] s(1) show ?thesis by simp
      qed
    qed
  qed
qed

lemma reaches_exclusive: "reaches (start progs) ts \<Longrightarrow> exclusive ts"
proof (induction rule: reaches.induct)
  case reaches_refl
  then show ?case by (simp add: exclusive_def start_def)
qed (rule steps_to_exclusive)

text \<open>
  A program is guarded by a lock when it accesses a variable only while it holds the lock for
  writing.
\<close>

fun guarded :: "var \<Rightarrow> lock \<Rightarrow> (lock_mode \<times> lock) list \<Rightarrow> instr list \<Rightarrow> bool" where
  "guarded v g held [] \<longleftrightarrow> True"
| "guarded v g held (Lock l # rest) \<longleftrightarrow> guarded v g ((WriteMode, l) # held) rest"
| "guarded v g held (RLock l # rest) \<longleftrightarrow> guarded v g ((ReadMode, l) # held) rest"
| "guarded v g held (Unlock l # rest) \<longleftrightarrow> guarded v g (remove1 (WriteMode, l) held) rest"
| "guarded v g held (RUnlock l # rest) \<longleftrightarrow> guarded v g (remove1 (ReadMode, l) held) rest"
| "guarded v g held (ReadVar v' # rest) \<longleftrightarrow> (v' = v \<longrightarrow> (WriteMode, g) \<in> set held) \<and> guarded v g held rest"
| "guarded v g held (WriteVar v' # rest) \<longleftrightarrow> (v' = v \<longrightarrow> (WriteMode, g) \<in> set held) \<and> guarded v g held rest"

text \<open>A data race: two goroutines about to access one variable, one of them to write it.\<close>

definition race_on :: "var \<Rightarrow> thread list \<Rightarrow> bool" where
  "race_on v ts \<longleftrightarrow> (\<exists>i < length ts. \<exists>j < length ts. i \<noteq> j
     \<and> accesses (ts ! i) = Some (v, True) \<and> (\<exists>w. accesses (ts ! j) = Some (v, w)))"

lemma race_onI:
  "i < length ts \<Longrightarrow> j < length ts \<Longrightarrow> i \<noteq> j \<Longrightarrow> accesses (ts ! i) = Some (v, True) \<Longrightarrow>
     accesses (ts ! j) = Some (v, w) \<Longrightarrow> race_on v ts"
  unfolding race_on_def by blast

lemma thread_step_guarded:
  "thread_step ts t = Some t' \<Longrightarrow> guarded v g (th_held t) (th_todo t) \<Longrightarrow> guarded v g (th_held t') (th_todo t')"
  by (auto split: list.splits instr.splits if_splits)

lemma reaches_guarded:
  "reaches ts0 ts \<Longrightarrow> \<forall>t \<in> set ts0. guarded v g (th_held t) (th_todo t) \<Longrightarrow>
     \<forall>t \<in> set ts. guarded v g (th_held t) (th_todo t)"
proof (induction rule: reaches.induct)
  case (reaches_step ts ts')
  from reaches_step.hyps(2) show ?case
  proof (cases rule: steps_to.cases)
    case s: (step i t')
    have "guarded v g (th_held (ts ! i)) (th_todo (ts ! i))" using reaches_step.IH reaches_step.prems s(2) by simp
    note t' = thread_step_guarded[OF s(3) this]
    have "set ts' \<subseteq> insert t' (set ts)" unfolding s(1) by (rule set_update_subset_insert)
    with t' reaches_step.IH reaches_step.prems show ?thesis by auto
  qed
qed

lemma guarded_access:
  "guarded v g (th_held t) (th_todo t) \<Longrightarrow> accesses t = Some (v, w) \<Longrightarrow> (WriteMode, g) \<in> set (th_held t)"
  by (cases "th_todo t"; cases "hd (th_todo t)") (auto split: if_splits)

lemma guarded_no_race:
  assumes "\<forall>p \<in> set progs. guarded v g [] p" and "reaches (start progs) ts"
  shows "\<not> race_on v ts"
proof
  assume "race_on v ts"
  then obtain i j w where ij: "i < length ts" "j < length ts" "i \<noteq> j"
    "accesses (ts ! i) = Some (v, True)" "accesses (ts ! j) = Some (v, w)"
    by (auto simp: race_on_def simp del: accesses.simps)
  have "\<forall>t \<in> set ts. guarded v g (th_held t) (th_todo t)"
    by (rule reaches_guarded[OF assms(2)]) (use assms(1) in \<open>auto simp: start_def\<close>)
  with ij(1,2) have "guarded v g (th_held (ts ! i)) (th_todo (ts ! i))" "guarded v g (th_held (ts ! j)) (th_todo (ts ! j))"
    by simp_all
  then have "(WriteMode, g) \<in> set (th_held (ts ! i))" "(WriteMode, g) \<in> set (th_held (ts ! j))"
    using ij(4,5) guarded_access by blast+
  then have "holds (ts ! j) g" unfolding holds_def by force
  with reaches_exclusive[OF assms(2)] ij(1-3) \<open>(WriteMode, g) \<in> set (th_held (ts ! i))\<close> show False
    unfolding exclusive_def by blast
qed

subsection \<open>Where the locks fall short\<close>

text \<open>Runs of the machine by the numbers of the goroutines that move.\<close>

fun run_schedule :: "nat list \<Rightarrow> thread list \<Rightarrow> thread list option" where
  "run_schedule [] ts = Some ts"
| "run_schedule (i # sched) ts =
     (if i < length ts then
        (case thread_step ts (ts ! i) of None \<Rightarrow> None | Some t' \<Rightarrow> run_schedule sched (ts[i := t']))
      else None)"

lemma run_schedule_reaches: "run_schedule sched ts = Some ts' \<Longrightarrow> reaches ts0 ts \<Longrightarrow> reaches ts0 ts'"
proof (induction sched arbitrary: ts)
  case (Cons i sched)
  then obtain t' where t': "i < length ts" "thread_step ts (ts ! i) = Some t'" "run_schedule sched (ts[i := t']) = Some ts'"
    by (auto split: if_splits option.splits simp del: thread_step.simps)
  from Cons.IH[OF t'(3)] reaches.reaches_step[OF Cons.prems(2) steps_to.step[OF t'(1,2)]] show ?case by blast
qed simp

text \<open>
  C30. \<open>GetLeader\<close> can block for good together with a change of the group that arrives between its
  two read locks, and takes every later operation of the consensus with it.
\<close>

theorem get_leader_can_deadlock:
  "\<exists>ts. reaches (start [GetLeader_locks, change_group_locks, IsLeader_locks]) ts \<and> stuck ts
    \<and> [] \<notin> th_todo ` set ts"
proof -
  let ?ts = "[\<lparr>th_todo = tl GetLeader_locks, th_held = [(ReadMode, ConsensusMu)], th_waiting = False\<rparr>,
     \<lparr>th_todo = change_group_locks, th_held = [], th_waiting = True\<rparr>,
     \<lparr>th_todo = IsLeader_locks, th_held = [], th_waiting = False\<rparr>]"
  have "run_schedule [0, 1] (start [GetLeader_locks, change_group_locks, IsLeader_locks]) = Some ?ts"
    by (simp add: start_def locks_defs write_held_def lock_wanted_def)
  from run_schedule_reaches[OF this reaches_refl]
  have "reaches (start [GetLeader_locks, change_group_locks, IsLeader_locks]) ?ts" .
  moreover have "stuck ?ts"
    by (simp add: stuck_def locks_defs write_held_def lock_wanted_def held_by_any_def holds_def)
  moreover have "[] \<notin> th_todo ` set ?ts" by (simp add: locks_defs)
  ultimately show ?thesis by blast
qed

text \<open>
  C31. The subscriptions of the graph are never accessed by two goroutines at a time while they are
  subscribed to and closed; but a subscription to keys can write the map of subscriptions while
  the reconciler ranges over it, because the two take different locks. A reconcile of the
  database deletes under a read lock: two of them race, should the controller be given more than
  the one worker it has by default. Two calls of \<open>GetLeader\<close> on the leader write the peer it
  remembers at the same time, for they hold its lock for reading only.
\<close>

theorem subscription_maps_races:
  assumes "set progs \<subseteq> {Graph_Subscribe_locks, Database_Close_locks}" and "reaches (start progs) ts"
  shows "\<not> race_on GraphSubs ts
    \<and> (\<exists>ts. reaches (start [Subscribe_locks, Reconcile_locks]) ts \<and> race_on KvSubs ts)
    \<and> (\<exists>ts. reaches (start [Database_Reconcile_locks, Database_Reconcile_locks]) ts \<and> race_on GraphSubs ts)
    \<and> (\<exists>ts. reaches (start [GetLeader_locks, GetLeader_locks]) ts \<and> race_on ConsensusSelf ts)"
proof -
  have "\<forall>p \<in> set progs. guarded GraphSubs GraphSubMu [] p"
    using assms(1) by (auto simp: Graph_Subscribe_locks_def Database_Close_locks_def)
  then have "\<not> race_on GraphSubs ts" using assms(2) by (rule guarded_no_race)
  moreover have "\<exists>ts. reaches (start [Subscribe_locks, Reconcile_locks]) ts \<and> race_on KvSubs ts"
  proof -
    let ?ts = "[\<lparr>th_todo = tl Subscribe_locks, th_held = [(WriteMode, StorageMu)], th_waiting = False\<rparr>,
       \<lparr>th_todo = tl Reconcile_locks, th_held = [(WriteMode, SubsMu)], th_waiting = False\<rparr>]"
    have "run_schedule [0, 0, 1, 1] (start [Subscribe_locks, Reconcile_locks]) = Some ?ts"
      by (simp add: start_def locks_defs held_by_any_def holds_def)
    moreover have "race_on KvSubs ?ts"
      by (rule race_onI[of 0 _ 1 _ False]) (simp_all add: locks_defs)
    ultimately show ?thesis using run_schedule_reaches[OF _ reaches_refl] by blast
  qed
  moreover have "\<exists>ts. reaches (start [Database_Reconcile_locks, Database_Reconcile_locks]) ts \<and> race_on GraphSubs ts"
  proof -
    let ?t = "\<lparr>th_todo = tl (tl Database_Reconcile_locks), th_held = [(ReadMode, GraphSubMu)], th_waiting = False\<rparr>"
    have "run_schedule [0, 1, 0, 1] (start [Database_Reconcile_locks, Database_Reconcile_locks]) = Some [?t, ?t]"
      by (simp add: start_def locks_defs write_held_def lock_wanted_def)
    moreover have "race_on GraphSubs [?t, ?t]"
      by (rule race_onI[of 0 _ 1 _ True]) (simp_all add: locks_defs)
    ultimately show ?thesis using run_schedule_reaches[OF _ reaches_refl] by blast
  qed
  moreover have "\<exists>ts. reaches (start [GetLeader_locks, GetLeader_locks]) ts \<and> race_on ConsensusSelf ts"
  proof -
    let ?t = "\<lparr>th_todo = [WriteVar ConsensusSelf, RUnlock ConsensusMu], th_held = [(ReadMode, ConsensusMu)], th_waiting = False\<rparr>"
    have "run_schedule [0, 0, 0, 0, 0, 0, 1, 1, 1, 1, 1, 1] (start [GetLeader_locks, GetLeader_locks]) = Some [?t, ?t]"
      by (simp add: start_def locks_defs write_held_def lock_wanted_def)
    moreover have "race_on ConsensusSelf [?t, ?t]"
      by (rule race_onI[of 0 _ 1 _ True]) simp_all
    ultimately show ?thesis using run_schedule_reaches[OF _ reaches_refl] by blast
  qed
  ultimately show ?thesis by blast
qed

theorem subscription_maps_races_witness:
  "\<not> race_on GraphSubs (start [Graph_Subscribe_locks, Graph_Subscribe_locks, Database_Close_locks])"
proof -
  have "set [Graph_Subscribe_locks, Graph_Subscribe_locks, Database_Close_locks]
      \<subseteq> {Graph_Subscribe_locks, Database_Close_locks}" by simp
  from subscription_maps_races[OF this reaches_refl] show ?thesis by (rule conjunct1)
qed

end
