(* ===== verification/Callbacks.thy ===== *)
theory Callbacks
  imports Locks
begin

text \<open>
  The functions the program calls with a lock held: the iterator of \<open>IterPrefix\<close>, the subscribers of
  the key-value store and those of the graph. They are given by the user, who may call the program
  from them. Here a callback is a sequence of operations, and the question is which operations
  it may call.
\<close>

definition IterPrefix_locks :: "instr list \<Rightarrow> instr list" where
  "IterPrefix_locks calls = Lock StorageMu # calls @ [Unlock StorageMu]"

definition Reconcile_telling :: "instr list \<Rightarrow> instr list" where
  "Reconcile_telling calls = [Lock SubsMu, ReadVar KvSubs, WriteVar KvSubs] @ calls @ [Unlock SubsMu]"

definition Database_Reconcile_telling :: "instr list \<Rightarrow> instr list" where
  "Database_Reconcile_telling calls =
     [RLock GraphSubMu, ReadVar GraphSubs, WriteVar GraphSubs] @ calls @ [RUnlock GraphSubMu]"

lemmas callback_defs = IterPrefix_locks_def Reconcile_telling_def Database_Reconcile_telling_def

text \<open>Without a callback these are the operations of \<open>Locks\<close>.\<close>

lemma telling_nobody:
  "IterPrefix_locks [] = storage_op_locks" "Reconcile_telling [] = Reconcile_locks"
  "Database_Reconcile_telling [] = Database_Reconcile_locks"
  by (simp_all add: callback_defs locks_defs)

subsection \<open>Callbacks that keep the order\<close>

text \<open>A program that takes and releases locks above \<open>n\<close> can run in the middle of another.\<close>

fun above :: "nat \<Rightarrow> instr list \<Rightarrow> bool" where
  "above n (Lock l # rest) \<longleftrightarrow> n < rank l \<and> above n rest"
| "above n (RLock l # rest) \<longleftrightarrow> n < rank l \<and> above n rest"
| "above n (_ # rest) \<longleftrightarrow> above n rest"
| "above n [] \<longleftrightarrow> True"

lemma ordered_in_context:
  assumes "ordered inner p" and "above n p" and "\<forall>h \<in> set outer. rank (snd h) \<le> n" and "ordered outer rest"
  shows "ordered (inner @ outer) (p @ rest)"
  using assms(1-3)
proof (induction inner p rule: ordered.induct)
  case (1 held) then show ?case using assms(4) by simp
qed (fastforce simp: remove1_append)+

lemma ordered_calls:
  assumes "\<forall>p \<in> set calls. ordered [] p \<and> above n p" and "\<forall>h \<in> set outer. rank (snd h) \<le> n" and "ordered outer rest"
  shows "ordered outer (concat calls @ rest)"
  using assms(1)
proof (induction calls)
  case (Cons p calls)
  then show ?case using ordered_in_context[of "[]" p n outer "concat calls @ rest"] assms(2) by simp
qed (simp add: assms(3))

text \<open>The operations a callback may call, by who calls it.\<close>

definition iterator_operations :: "instr list list" where
  "iterator_operations = [IsLeader_locks, GetPeers_locks, change_group_locks, MeshState_locks, GetCRDs_locks]"

definition subscriber_operations :: "instr list list" where
  "subscriber_operations = [storage_op_locks, Subscribe_locks] @ iterator_operations"

definition graph_operations :: "instr list list" where
  "graph_operations = [Start_locks, Close_locks, Bootstrap_locks, Status_locks, Status_alone_locks, Reconcile_locks]
     @ subscriber_operations"

inductive operation :: "instr list \<Rightarrow> bool" where
  plain: "p \<in> set operations_but_GetLeader \<Longrightarrow> operation p"
| iterating: "set calls \<subseteq> set iterator_operations \<Longrightarrow> operation (IterPrefix_locks (concat calls))"
| telling: "set calls \<subseteq> set subscriber_operations \<Longrightarrow> operation (Reconcile_telling (concat calls))"
| graph_telling: "set calls \<subseteq> set graph_operations \<Longrightarrow> operation (Database_Reconcile_telling (concat calls))"

lemma above_operations:
  "p \<in> set iterator_operations \<Longrightarrow> ordered [] p \<and> above (rank StorageMu) p"
  "p \<in> set subscriber_operations \<Longrightarrow> ordered [] p \<and> above (rank SubsMu) p"
  "p \<in> set graph_operations \<Longrightarrow> ordered [] p \<and> above (rank GraphSubMu) p"
  by (auto simp: iterator_operations_def subscriber_operations_def graph_operations_def locks_defs)

lemma operation_ordered: "operation p \<Longrightarrow> ordered [] p"
proof (induction rule: operation.induct)
  case (plain p) then show ?case by (rule operations_ordered)
next
  case (iterating calls)
  then have "ordered [(WriteMode, StorageMu)] (concat calls @ [Unlock StorageMu])"
    using above_operations(1) by (intro ordered_calls[of _ "rank StorageMu"]) auto
  then show ?case by (simp add: IterPrefix_locks_def)
next
  case (telling calls)
  then have "ordered [(WriteMode, SubsMu)] (concat calls @ [Unlock SubsMu])"
    using above_operations(2) by (intro ordered_calls[of _ "rank SubsMu"]) auto
  then show ?case by (simp add: Reconcile_telling_def)
next
  case (graph_telling calls)
  then have "ordered [(ReadMode, GraphSubMu)] (concat calls @ [RUnlock GraphSubMu])"
    using above_operations(3) by (intro ordered_calls[of _ "rank GraphSubMu"]) auto
  then show ?case by (simp add: Database_Reconcile_telling_def)
qed

subsection \<open>Callbacks that block\<close>

text \<open>
  A schedule of a callback and its company that ends with all of them waiting. The goroutine of the
  callback is the first.
\<close>

definition deadlocks :: "nat list \<Rightarrow> instr list list \<Rightarrow> bool" where
  "deadlocks sched progs = (case run_schedule sched (start progs) of
     None \<Rightarrow> False | Some ts \<Rightarrow> stuck ts \<and> th_todo (ts ! 0) \<noteq> [])"

definition blocks :: "instr list \<Rightarrow> instr list list \<Rightarrow> bool" where
  "blocks p others \<longleftrightarrow> (\<forall>q \<in> set others. operation q)
     \<and> (\<exists>ts. reaches (start (p # others)) ts \<and> stuck ts \<and> th_todo (ts ! 0) \<noteq> [])"

lemma blocksI: "deadlocks sched (p # others) \<Longrightarrow> \<forall>q \<in> set others. operation q \<Longrightarrow> blocks p others"
  unfolding deadlocks_def blocks_def
  by (auto split: option.splits intro: run_schedule_reaches[OF _ reaches_refl])

lemmas deadlock_simps = deadlocks_def stuck_def start_def callback_defs locks_defs held_by_any_def holds_def
  write_held_def lock_wanted_def

text \<open>The company: operations and callbacks that keep the order.\<close>

lemma company [simp]:
  "operation Close_locks" "operation change_group_locks" "operation Graph_Subscribe_locks"
  "operation (Reconcile_telling storage_op_locks)" "operation (Database_Reconcile_telling storage_op_locks)"
  "operation (Database_Reconcile_telling Reconcile_locks)"
  using operation.telling[of "[storage_op_locks]"] operation.graph_telling[of "[storage_op_locks]"]
    operation.graph_telling[of "[Reconcile_locks]"]
  by (auto simp: operations_but_GetLeader_def subscriber_operations_def graph_operations_def intro: operation.plain)

abbreviation telling_storage :: "instr list" where
  "telling_storage \<equiv> Reconcile_telling storage_op_locks"

abbreviation graph_telling_storage :: "instr list" where
  "graph_telling_storage \<equiv> Database_Reconcile_telling storage_op_locks"

abbreviation graph_telling_reconcile :: "instr list" where
  "graph_telling_reconcile \<equiv> Database_Reconcile_telling Reconcile_locks"

lemma iterators_block:
  "blocks (IterPrefix_locks storage_op_locks) []"
  "blocks (IterPrefix_locks Subscribe_locks) []"
  "blocks (IterPrefix_locks Reconcile_locks) [telling_storage]"
  "blocks (IterPrefix_locks Close_locks) [telling_storage]"
  "blocks (IterPrefix_locks Start_locks) [Close_locks, telling_storage]"
  "blocks (IterPrefix_locks Bootstrap_locks) [Close_locks, telling_storage]"
  "blocks (IterPrefix_locks Status_locks) [Close_locks, telling_storage]"
  "blocks (IterPrefix_locks Status_alone_locks) [Close_locks, telling_storage]"
  "blocks (IterPrefix_locks Graph_Subscribe_locks) [graph_telling_storage]"
  "blocks (IterPrefix_locks Database_Close_locks) [graph_telling_storage]"
  "blocks (IterPrefix_locks Database_Reconcile_locks) [graph_telling_storage, Graph_Subscribe_locks]"
  "blocks (IterPrefix_locks GetLeader_locks) [change_group_locks]"
  by (rule blocksI[of "[0, 0, 0]"], simp add: deadlock_simps, simp; fail
      | rule blocksI[of "[0, 0, 1, 1, 1, 1, 1, 0]"], simp add: deadlock_simps, simp; fail
      | rule blocksI[of "[0, 0, 0, 0, 1, 1, 1, 1, 1, 0]"], simp add: deadlock_simps, simp; fail
      | rule blocksI[of "[0, 0, 1, 1, 2, 2, 2, 2, 1, 2, 0]"], simp add: deadlock_simps, simp; fail
      | rule blocksI[of "[0, 0, 1, 1, 1, 1, 0]"], simp add: deadlock_simps, simp; fail
      | rule blocksI[of "[0, 0, 1, 1, 1, 1, 2]"], simp add: deadlock_simps, simp; fail
      | rule blocksI[of "[0, 0, 0, 1]"], simp add: deadlock_simps, simp; fail)+

lemma key_subscribers_block:
  "blocks (Reconcile_telling Reconcile_locks) []"
  "blocks (Reconcile_telling Close_locks) []"
  "blocks (Reconcile_telling Start_locks) [Close_locks]"
  "blocks (Reconcile_telling Bootstrap_locks) [Close_locks]"
  "blocks (Reconcile_telling Status_locks) [Close_locks]"
  "blocks (Reconcile_telling Status_alone_locks) [Close_locks]"
  "blocks (Reconcile_telling Graph_Subscribe_locks) [graph_telling_reconcile]"
  "blocks (Reconcile_telling Database_Close_locks) [graph_telling_reconcile]"
  "blocks (Reconcile_telling Database_Reconcile_locks) [graph_telling_reconcile, Graph_Subscribe_locks]"
  "blocks (Reconcile_telling GetLeader_locks) [change_group_locks]"
  by (rule blocksI[of "[0, 0, 0, 0, 0]"], simp add: deadlock_simps, simp; fail
      | rule blocksI[of "[0, 0, 0, 0, 0, 0, 0]"], simp add: deadlock_simps, simp; fail
      | rule blocksI[of "[0, 0, 0, 0, 1, 1, 1, 0]"], simp add: deadlock_simps, simp; fail
      | rule blocksI[of "[0, 0, 0, 0, 1, 1, 1, 1, 0]"], simp add: deadlock_simps, simp; fail
      | rule blocksI[of "[0, 0, 0, 0, 1, 1, 1, 1, 2]"], simp add: deadlock_simps, simp; fail
      | rule blocksI[of "[0, 0, 0, 0, 0, 1]"], simp add: deadlock_simps, simp; fail)+

lemma graph_subscribers_block:
  "blocks (Database_Reconcile_telling Graph_Subscribe_locks) []"
  "blocks (Database_Reconcile_telling Database_Close_locks) []"
  "blocks (Database_Reconcile_telling Database_Reconcile_locks) [Graph_Subscribe_locks]"
  "blocks (Database_Reconcile_telling GetLeader_locks) [change_group_locks]"
  by (rule blocksI[of "[0, 0, 0, 0]"], simp add: deadlock_simps, simp; fail
      | rule blocksI[of "[0, 0, 0, 1]"], simp add: deadlock_simps, simp; fail
      | rule blocksI[of "[0, 0, 0, 0, 1]"], simp add: deadlock_simps, simp; fail)+

text \<open>The operations a callback may not call, each with a company in which it blocks.\<close>

definition iterator_company :: "(instr list \<times> instr list list) list" where
  "iterator_company = [
     (storage_op_locks, []),
     (Subscribe_locks, []),
     (Reconcile_locks, [telling_storage]),
     (Close_locks, [telling_storage]),
     (Start_locks, [Close_locks, telling_storage]),
     (Bootstrap_locks, [Close_locks, telling_storage]),
     (Status_locks, [Close_locks, telling_storage]),
     (Status_alone_locks, [Close_locks, telling_storage]),
     (Graph_Subscribe_locks, [graph_telling_storage]),
     (Database_Close_locks, [graph_telling_storage]),
     (Database_Reconcile_locks, [graph_telling_storage, Graph_Subscribe_locks]),
     (GetLeader_locks, [change_group_locks])]"

lemma iterator_company_blocks:
  "(p, others) \<in> set iterator_company \<Longrightarrow> blocks (IterPrefix_locks p) others"
  "(p, others) \<in> set iterator_company \<Longrightarrow> length others \<le> 2 \<and> (Lock StorageMu \<in> set p \<longrightarrow> others = [])"
  "p \<in> set (GetLeader_locks # operations_but_GetLeader) \<Longrightarrow> p \<notin> set iterator_operations \<Longrightarrow> \<exists>others. (p, others) \<in> set iterator_company"
proof -
  show "(p, others) \<in> set iterator_company \<Longrightarrow> blocks (IterPrefix_locks p) others"
    by (auto simp: iterator_company_def iterators_block)
  show "(p, others) \<in> set iterator_company \<Longrightarrow> length others \<le> 2 \<and> (Lock StorageMu \<in> set p \<longrightarrow> others = [])"
    by (auto simp: iterator_company_def) (simp_all add: locks_defs)
  have "fst ` set iterator_company \<union> set iterator_operations = set (GetLeader_locks # operations_but_GetLeader)"
    by (auto simp: iterator_company_def operations_but_GetLeader_def iterator_operations_def subscriber_operations_def graph_operations_def)
  then show "p \<in> set (GetLeader_locks # operations_but_GetLeader) \<Longrightarrow> p \<notin> set iterator_operations \<Longrightarrow> \<exists>others. (p, others) \<in> set iterator_company"
    by (metis UnE imageE prod.collapse)
qed

definition subscriber_company :: "(instr list \<times> instr list list) list" where
  "subscriber_company = [
     (Reconcile_locks, []),
     (Close_locks, []),
     (Start_locks, [Close_locks]),
     (Bootstrap_locks, [Close_locks]),
     (Status_locks, [Close_locks]),
     (Status_alone_locks, [Close_locks]),
     (Graph_Subscribe_locks, [graph_telling_reconcile]),
     (Database_Close_locks, [graph_telling_reconcile]),
     (Database_Reconcile_locks, [graph_telling_reconcile, Graph_Subscribe_locks]),
     (GetLeader_locks, [change_group_locks])]"

lemma subscriber_company_blocks:
  "(p, others) \<in> set subscriber_company \<Longrightarrow> blocks (Reconcile_telling p) others"
  "(p, others) \<in> set subscriber_company \<Longrightarrow> length others \<le> 2 \<and> (Lock SubsMu \<in> set p \<longrightarrow> others = [])"
  "p \<in> set (GetLeader_locks # operations_but_GetLeader) \<Longrightarrow> p \<notin> set subscriber_operations \<Longrightarrow> \<exists>others. (p, others) \<in> set subscriber_company"
proof -
  show "(p, others) \<in> set subscriber_company \<Longrightarrow> blocks (Reconcile_telling p) others"
    by (auto simp: subscriber_company_def key_subscribers_block)
  show "(p, others) \<in> set subscriber_company \<Longrightarrow> length others \<le> 2 \<and> (Lock SubsMu \<in> set p \<longrightarrow> others = [])"
    by (auto simp: subscriber_company_def) (simp_all add: locks_defs)
  have "fst ` set subscriber_company \<union> set subscriber_operations = set (GetLeader_locks # operations_but_GetLeader)"
    by (auto simp: subscriber_company_def operations_but_GetLeader_def iterator_operations_def subscriber_operations_def graph_operations_def)
  then show "p \<in> set (GetLeader_locks # operations_but_GetLeader) \<Longrightarrow> p \<notin> set subscriber_operations \<Longrightarrow> \<exists>others. (p, others) \<in> set subscriber_company"
    by (metis UnE imageE prod.collapse)
qed

definition graph_company :: "(instr list \<times> instr list list) list" where
  "graph_company = [
     (Graph_Subscribe_locks, []),
     (Database_Close_locks, []),
     (Database_Reconcile_locks, [Graph_Subscribe_locks]),
     (GetLeader_locks, [change_group_locks])]"

lemma graph_company_blocks:
  "(p, others) \<in> set graph_company \<Longrightarrow> blocks (Database_Reconcile_telling p) others"
  "(p, others) \<in> set graph_company \<Longrightarrow> length others \<le> 2 \<and> (Lock GraphSubMu \<in> set p \<longrightarrow> others = [])"
  "p \<in> set (GetLeader_locks # operations_but_GetLeader) \<Longrightarrow> p \<notin> set graph_operations \<Longrightarrow> \<exists>others. (p, others) \<in> set graph_company"
proof -
  show "(p, others) \<in> set graph_company \<Longrightarrow> blocks (Database_Reconcile_telling p) others"
    by (auto simp: graph_company_def graph_subscribers_block)
  show "(p, others) \<in> set graph_company \<Longrightarrow> length others \<le> 2 \<and> (Lock GraphSubMu \<in> set p \<longrightarrow> others = [])"
    by (auto simp: graph_company_def) (simp_all add: locks_defs)
  have "fst ` set graph_company \<union> set graph_operations = set (GetLeader_locks # operations_but_GetLeader)"
    by (auto simp: graph_company_def operations_but_GetLeader_def iterator_operations_def subscriber_operations_def graph_operations_def)
  then show "p \<in> set (GetLeader_locks # operations_but_GetLeader) \<Longrightarrow> p \<notin> set graph_operations \<Longrightarrow> \<exists>others. (p, others) \<in> set graph_company"
    by (metis UnE imageE prod.collapse)
qed

text \<open>
  C12. As long as no callback and nobody else calls \<open>GetLeader\<close>: when iterators call only the consensus,
  the mesh state and the definitions of the custom resources, subscribers of keys also the store, and
  subscribers of the graph everything but the subscriptions of the graph, then nothing blocks for
  good, whatever runs beside them. These lists are complete: every other operation of the program,
  called from a callback, can block it for good, together with at most two other goroutines that
  keep to the lists, and without any when the operation takes the lock the callback runs under.
\<close>

theorem callbacks_and_locks:
  assumes "\<forall>q \<in> set progs. operation q" and "reaches (start progs) ts"
    and "(kind, l, allowed) \<in> {(IterPrefix_locks, StorageMu, iterator_operations),
      (Reconcile_telling, SubsMu, subscriber_operations), (Database_Reconcile_telling, GraphSubMu, graph_operations)}"
    and "p \<in> set (GetLeader_locks # operations_but_GetLeader)"
  shows "(finished ts \<or> (\<exists>ts'. steps_to ts ts'))
    \<and> (p \<in> set allowed \<longrightarrow> operation (kind p))
    \<and> (p \<notin> set allowed \<longrightarrow> (\<exists>others. length others \<le> 2 \<and> (Lock l \<in> set p \<longrightarrow> others = [])
         \<and> (\<forall>q \<in> set others. operation q)
         \<and> (\<exists>ts. reaches (start (kind p # others)) ts \<and> stuck ts \<and> th_todo (ts ! 0) \<noteq> [])))"
proof (intro conjI impI)
  show "finished ts \<or> (\<exists>ts'. steps_to ts ts')"
    using assms(1) operation_ordered by (intro all_ordered_progress[OF all_orderedI assms(2)]) blast
next
  assume "p \<in> set allowed"
  with assms(3) show "operation (kind p)"
    using operation.iterating[of "[p]"] operation.telling[of "[p]"] operation.graph_telling[of "[p]"] by auto
next
  assume p: "p \<notin> set allowed"
  let ?blocked = "\<exists>others. length others \<le> 2 \<and> (Lock l \<in> set p \<longrightarrow> others = []) \<and> blocks (kind p) others"
  have "?blocked"
    using assms(3)
  proof (elim insertE emptyE)
    assume k: "(kind, l, allowed) = (IterPrefix_locks, StorageMu, iterator_operations)"
    then obtain others where "(p, others) \<in> set iterator_company" using iterator_company_blocks(3) p assms(4) by blast
    then show "?blocked" using iterator_company_blocks k by blast
  next
    assume k: "(kind, l, allowed) = (Reconcile_telling, SubsMu, subscriber_operations)"
    then obtain others where "(p, others) \<in> set subscriber_company" using subscriber_company_blocks(3) p assms(4) by blast
    then show "?blocked" using subscriber_company_blocks k by blast
  next
    assume k: "(kind, l, allowed) = (Database_Reconcile_telling, GraphSubMu, graph_operations)"
    then obtain others where "(p, others) \<in> set graph_company" using graph_company_blocks(3) p assms(4) by blast
    then show "?blocked" using graph_company_blocks k by blast
  qed
  then show "\<exists>others. length others \<le> 2 \<and> (Lock l \<in> set p \<longrightarrow> others = []) \<and> (\<forall>q \<in> set others. operation q)
      \<and> (\<exists>ts. reaches (start (kind p # others)) ts \<and> stuck ts \<and> th_todo (ts ! 0) \<noteq> [])"
    unfolding blocks_def by blast
qed

theorem callbacks_and_locks_witness:
  "(\<exists>ts'. steps_to (start [Reconcile_telling (concat [storage_op_locks, IsLeader_locks]), Close_locks]) ts')
    \<and> operation (Reconcile_telling storage_op_locks)
    \<and> (\<exists>others ts. reaches (start (Reconcile_telling Status_locks # others)) ts \<and> stuck ts \<and> th_todo (ts ! 0) \<noteq> [])"
proof -
  let ?progs = "[Reconcile_telling (concat [storage_op_locks, IsLeader_locks]), Close_locks]"
  have "operation (Reconcile_telling (concat [storage_op_locks, IsLeader_locks]))"
    by (rule operation.telling) (simp add: subscriber_operations_def iterator_operations_def)
  then have "\<forall>q \<in> set ?progs. operation q" by simp
  moreover have "\<not> finished (start ?progs)" by (simp add: finished_def start_def Close_locks_def)
  moreover have "(Reconcile_telling, SubsMu, subscriber_operations) \<in> {(IterPrefix_locks, StorageMu, iterator_operations),
      (Reconcile_telling, SubsMu, subscriber_operations), (Database_Reconcile_telling, GraphSubMu, graph_operations)}" by simp
  moreover have "storage_op_locks \<in> set subscriber_operations" "Status_locks \<notin> set subscriber_operations"
    by (simp_all add: subscriber_operations_def iterator_operations_def locks_defs)
  moreover have "storage_op_locks \<in> set (GetLeader_locks # operations_but_GetLeader)"
    "Status_locks \<in> set (GetLeader_locks # operations_but_GetLeader)" by (simp_all add: operations_but_GetLeader_def)
  ultimately show ?thesis
    using callbacks_and_locks[of ?progs "start ?progs" Reconcile_telling SubsMu subscriber_operations storage_op_locks]
      callbacks_and_locks[of ?progs "start ?progs" Reconcile_telling SubsMu subscriber_operations Status_locks] reaches_refl
    by blast
qed

end
