(* ===== verification/DatabaseProps.thy ===== *)
theory DatabaseProps
  imports Database
begin

text \<open>
  The graph, its subscriptions and the controller of the database together: what a subscriber
  sees of a vertex that is added and removed.
\<close>

lemma AddVertex_cli [simp]: "AddVertex T (g\<lparr>gs_subs := subs\<rparr>) = AddVertex T g"
  by (simp add: AddVertex_def fun_eq_iff)

lemma RemoveVertex_cli [simp]: "RemoveVertex (g\<lparr>gs_subs := subs\<rparr>) = RemoveVertex g"
  by (simp add: RemoveVertex_def fun_eq_iff)

lemma Database_Subscribe_live:
  assumes "Database_Subscribe (Inr i) c fn db rt = (Inr cancel, db', rt')"
    and "\<not> ctx_done rt c" and "rt_fresh rt"
  obtains sub where "(i, sub) \<in> set (live_subs rt' (gs_subs (db_graph db')))" and "sub_fn sub = fn"
    and "sub_cancel sub = cancel" and "cancel \<in> ctx_ids (sub_ctx sub)"
    and "db_graph db' = (db_graph db)\<lparr>gs_subs := gs_subs (db_graph db')\<rparr>"
    and "set (gs_subs (db_graph db')) \<subseteq> insert (i, sub) (set (gs_subs (db_graph db)))"
proof -
  let ?sub = "\<lparr>sub_ctx = Derived c (rt_next rt), sub_fn = fn, sub_cancel = rt_next rt\<rparr>"
  have d: "cancel = rt_next rt" "rt' = rt\<lparr>rt_next := Suc (rt_next rt)\<rparr>"
    "db_graph db' = (db_graph db)\<lparr>gs_subs := AList.update i ?sub (gs_subs (db_graph db))\<rparr>"
    using assms(1) by (auto simp: Database_Subscribe_def Graph_Subscribe_def WithCancel_def)
  have "(i, ?sub) \<in> set (AList.update i ?sub (gs_subs (db_graph db)))"
    by (metis map_of_SomeD update_Some_unfold)
  moreover have "\<not> ctx_done rt' (sub_ctx ?sub)"
    using assms(2,3) d(2) by (auto simp: rt_fresh_def)
  moreover have "set (gs_subs (db_graph db')) \<subseteq> insert (i, ?sub) (set (gs_subs (db_graph db)))"
    unfolding d(3) by (auto dest: in_set_update)
  ultimately show ?thesis using d by (intro that[of ?sub]) (auto simp: live_subs_def)
qed

lemma Database_Reconcile_frame:
  assumes "Database_Reconcile rt db req s = (r, calls, db', s')"
  shows "db_graph db' = (db_graph db)\<lparr>gs_subs := gs_subs (db_graph db')\<rparr>"
  using assms by (auto simp: Database_Reconcile_def split: prod.splits sum.splits if_splits)

text \<open>A reconcile of the name of a vertex, seen by one live subscription.\<close>

context kube_ns_server begin

lemma Reconcile_tells:
  assumes "up s" and "gs_cli (db_graph db) = cli" and "distinct (map fst (gs_subs (db_graph db)))"
    and "(i, sub) \<in> set (live_subs rt (gs_subs (db_graph db)))"
    and "(case named_content as_peer PeerT view ns s n of
        Some x \<Rightarrow> x | None \<Rightarrow> zero_mesh_node\<lparr>mn_id := n\<rparr>) = node"
  obtains calls db' s' where
    "Database_Reconcile rt db \<lparr>req_Namespace = ns, req_Name = n\<rparr> s = (Inr (), calls, db', s')"
    and "up s'" and "(sub_fn sub, [node]) \<in> set calls" and "snd ` set calls = {[node]}"
    and "gs_subs (db_graph db') = live_subs rt (gs_subs (db_graph db))"
proof -
  let ?req = "\<lparr>req_Namespace = ns, req_Name = n\<rparr>"
  obtain calls db' s' where r: "Database_Reconcile rt db ?req s = (Inr (), calls, db', s')" "up s'"
    using Reconcile_live[OF assms(1,2), of ?req rt] by auto
  from Reconcile_notifies[OF r(1) assms(2) _ assms(3), unfolded request.simps, OF refl, unfolded assms(5)]
  have c: "calls = map (\<lambda>(i, sub). (sub_fn sub, [node])) (live_subs rt (gs_subs (db_graph db)))"
    "gs_subs (db_graph db') = live_subs rt (gs_subs (db_graph db))" by auto
  have "snd ` set calls = {[node]}" unfolding c(1) using assms(4) by force
  moreover have "(sub_fn sub, [node]) \<in> set calls" unfolding c(1) using assms(4) by force
  ultimately show ?thesis using that r c(2) by blast
qed

end

lemma live_subs_idem [simp]: "live_subs rt (live_subs rt subs) = live_subs rt subs"
  by (simp add: live_subs_def case_prod_unfold)

lemma live_subs_cancelled: "ctx_done rt (sub_ctx sub) \<Longrightarrow> (i, sub) \<notin> set (live_subs rt subs)"
  by (simp add: live_subs_def)

lemma live_subs_distinct [simp]: "distinct (map fst subs) \<Longrightarrow> distinct (map fst (live_subs rt subs))"
  by (simp add: live_subs_def distinct_map_filter)

text \<open>
  C13. A subscriber of the graph is told of every vertex that is added: the reconcile of the new
  object calls it with the node. When the vertex is removed it is told of a node that has nothing
  but an id, and this is the hash that names the object, not the id of the node. Once it has
  cancelled its subscription a reconcile does not call it and forgets it: it calls each of the
  subscriptions that are left, once, and no other.
\<close>

theorem vertex_changes_reach_subscribers:
  assumes "kube_ns_server cli view up admissible ns" and "up s"
    and "gs_cli (db_graph db) = cli" "gs_namespace (db_graph db) = ns" "distinct (map fst (gs_subs (db_graph db)))"
    and "Database_Subscribe (Inr uuid) c fn db rt = (Inr cancel, db1, rt1)"
    and "\<not> ctx_done rt c" and "rt_fresh rt"
    and "admissible (StripPatchMeta (peer_object T ns i node))"
  shows "\<exists>s1 calls db2 s2 s3 calls' db3 s4 calls'' db4 s5. let req = \<lparr>req_Namespace = ns, req_Name = HashNodeID i\<rparr> in
      AddVertex T (db_graph db1) i node s = (Inr (), s1)
    \<and> Database_Reconcile rt1 db1 req s1 = (Inr (), calls, db2, s2)
    \<and> (fn, [node]) \<in> set calls \<and> snd ` set calls = {[node]}
    \<and> RemoveVertex (db_graph db2) i s2 = (Inr (), s3)
    \<and> Database_Reconcile rt1 db2 req s3 = (Inr (), calls', db3, s4)
    \<and> (fn, [zero_mesh_node\<lparr>mn_id := HashNodeID i\<rparr>]) \<in> set calls'
    \<and> Database_Reconcile (cancel_ctx cancel rt1) db3 req s4 = (Inr (), calls'', db4, s5)
    \<and> uuid \<notin> fst ` set (gs_subs (db_graph db4))
    \<and> calls'' = map (\<lambda>(j, sub). (sub_fn sub, [zero_mesh_node\<lparr>mn_id := HashNodeID i\<rparr>])) (gs_subs (db_graph db4))
    \<and> (fn \<notin> (\<lambda>(j, sub). sub_fn sub) ` set (gs_subs (db_graph db)) \<longrightarrow> fn \<notin> fst ` set calls'')"
proof -
  note ns = kube_ns_server.axioms(2)[OF assms(1)] and srv = kube_ns_server.axioms(1)[OF assms(1)]
  let ?C = "named_content as_peer PeerT view ns" and ?req = "\<lparr>req_Namespace = ns, req_Name = HashNodeID i\<rparr>"
  obtain sub where sub: "(uuid, sub) \<in> set (live_subs rt1 (gs_subs (db_graph db1)))" "sub_fn sub = fn"
    "sub_cancel sub = cancel" "cancel \<in> ctx_ids (sub_ctx sub)"
    "db_graph db1 = (db_graph db)\<lparr>gs_subs := gs_subs (db_graph db1)\<rparr>"
    "set (gs_subs (db_graph db1)) \<subseteq> insert (uuid, sub) (set (gs_subs (db_graph db)))"
    by (rule Database_Subscribe_live[OF assms(6-8)])
  have d1: "distinct (map fst (gs_subs (db_graph db1)))" by (rule NewDB_subs_distinct[OF assms(5,6)])
  have g1: "gs_cli (db_graph db1) = cli" "gs_namespace (db_graph db1) = ns"
    using assms(3,4) by (subst sub(5), simp)+
  obtain s1 where s1: "PatchObject cli (peer_object T ns i node) s = (Inr (), s1)" "up s1"
    by (rule kube_server.PatchObject_up[OF srv assms(2,9)])
  then have add: "AddVertex T (db_graph db1) i node s = (Inr (), s1)" by (simp add: AddVertex_def g1)
  have "?C s1 = (?C s)(HashNodeID i \<mapsto> node)"
    using kube_ns.put_content[OF ns s1(1), of PeerT "HashNodeID i" as_peer] by simp (simp add: peer_object_def)
  then have added: "(case ?C s1 (HashNodeID i) of Some x \<Rightarrow> x | None \<Rightarrow> zero_mesh_node\<lparr>mn_id := HashNodeID i\<rparr>) = node"
    by simp
  obtain calls db2 s2 where r2: "Database_Reconcile rt1 db1 ?req s1 = (Inr (), calls, db2, s2)" "up s2"
    "(fn, [node]) \<in> set calls" "snd ` set calls = {[node]}"
    "gs_subs (db_graph db2) = live_subs rt1 (gs_subs (db_graph db1))"
    by (rule kube_ns_server.Reconcile_tells[OF assms(1) s1(2) g1(1) d1 sub(1) added, unfolded sub(2)])
  have g2: "gs_cli (db_graph db2) = cli" "gs_namespace (db_graph db2) = ns"
    using g1 by (subst Database_Reconcile_frame[OF r2(1)], simp)+
  obtain s3 where s3: "RemoveVertex (db_graph db2) i s2 = (Inr (), s3)" "up s3"
    unfolding RemoveVertex_def g2 by (rule kube_server.delete_ignored_up[OF srv r2(2)])
  have "?C s3 = (?C s2)(HashNodeID i := None)"
    using s3(1)[unfolded RemoveVertex_def g2] kube_ns.del_content[OF ns, of _ s2 "()" s3 PeerT "HashNodeID i" as_peer]
    by simp
  then have none: "?C s3 (HashNodeID i) = None" by simp
  have d2: "distinct (map fst (gs_subs (db_graph db2)))" using d1 r2(5) by simp
  have sub2: "(uuid, sub) \<in> set (live_subs rt1 (gs_subs (db_graph db2)))" using sub(1) r2(5) by simp
  then have removed: "(case ?C s3 (HashNodeID i) of Some x \<Rightarrow> x | None \<Rightarrow> zero_mesh_node\<lparr>mn_id := HashNodeID i\<rparr>)
      = zero_mesh_node\<lparr>mn_id := HashNodeID i\<rparr>" using none by simp
  obtain calls' db3 s4 where r3: "Database_Reconcile rt1 db2 ?req s3 = (Inr (), calls', db3, s4)" "up s4"
    "(fn, [zero_mesh_node\<lparr>mn_id := HashNodeID i\<rparr>]) \<in> set calls'"
    "gs_subs (db_graph db3) = live_subs rt1 (gs_subs (db_graph db2))"
    by (rule kube_ns_server.Reconcile_tells[OF assms(1) s3(2) g2(1) d2 sub2 removed, unfolded sub(2)])
  have g3: "gs_cli (db_graph db3) = cli" using g2(1) by (subst Database_Reconcile_frame[OF r3(1)]) simp
  have d3: "distinct (map fst (gs_subs (db_graph db3)))" using d2 r3(4) by simp
  obtain calls'' db4 s5 where r4:
    "Database_Reconcile (cancel_ctx cancel rt1) db3 ?req s4 = (Inr (), calls'', db4, s5)"
    using kube_ns_server.Reconcile_live[OF assms(1) r3(2) g3, of ?req "cancel_ctx cancel rt1"] by auto
  have v4: "view s4 = view s3" using kube_ns.Reconcile_notifies[OF ns r3(1) g2(1) _ d2] by simp
  have "?C s4 (HashNodeID i) = None" unfolding named_content_cong[OF v4] by (rule none)
  then have l: "gs_subs (db_graph db4) = live_subs (cancel_ctx cancel rt1) (gs_subs (db_graph db3))"
    and c: "calls'' = map (\<lambda>(j, sub). (sub_fn sub, [zero_mesh_node\<lparr>mn_id := HashNodeID i\<rparr>])) (gs_subs (db_graph db4))"
    using kube_ns.Reconcile_notifies[OF ns r4 g3 _ d3] by simp_all
  have "(uuid, sub') \<notin> set (gs_subs (db_graph db4))" for sub'
  proof
    assume a: "(uuid, sub') \<in> set (gs_subs (db_graph db4))"
    then have "(uuid, sub') \<in> set (gs_subs (db_graph db3))" by (simp add: l live_subs_def)
    moreover have "(uuid, sub) \<in> set (gs_subs (db_graph db3))" using sub2 r3(4) by simp
    ultimately have "sub' = sub" using eq_key_imp_eq_value[OF d3] by metis
    with a sub(4) show False by (simp add: l live_subs_def)
  qed
  then have gone: "uuid \<notin> fst ` set (gs_subs (db_graph db4))" by auto
  have "set (gs_subs (db_graph db4)) \<subseteq> set (gs_subs (db_graph db1))"
    unfolding l r3(4) r2(5) by (auto simp: live_subs_def)
  with sub(6) gone have left: "set (gs_subs (db_graph db4)) \<subseteq> set (gs_subs (db_graph db))" by force
  have "fn \<notin> (\<lambda>(j, sub). sub_fn sub) ` set (gs_subs (db_graph db)) \<longrightarrow> fn \<notin> fst ` set calls''"
    using left unfolding c by force
  then show ?thesis unfolding Let_def by (intro exI conjI) (rule add r2(1,3,4) s3(1) r3(1,3) r4 gone c | assumption)+
qed

theorem vertex_changes_reach_subscribers_witness:
  "\<exists>db1 s1 calls db2 s2 s3 calls' db3 s4 calls'' db4 s5.
      Database_Subscribe (Inr ''3'') Background 9 example_db \<lparr>rt_cancelled = [0], rt_next = 2\<rparr>
        = (Inr 2, db1, \<lparr>rt_cancelled = [0], rt_next = 3\<rparr>)
    \<and> AddVertex (\<lambda>i n. take n i) (db_graph db1) ''node-b'' (zero_mesh_node\<lparr>mn_id := ''node-b''\<rparr>) mem_init = (Inr (), s1)
    \<and> Database_Reconcile \<lparr>rt_cancelled = [0], rt_next = 3\<rparr> db1
        \<lparr>req_Namespace = ''default'', req_Name = HashNodeID ''node-b''\<rparr> s1 = (Inr (), calls, db2, s2)
    \<and> (9, [zero_mesh_node\<lparr>mn_id := ''node-b''\<rparr>]) \<in> set calls
    \<and> RemoveVertex (db_graph db2) ''node-b'' s2 = (Inr (), s3)
    \<and> Database_Reconcile \<lparr>rt_cancelled = [0], rt_next = 3\<rparr> db2
        \<lparr>req_Namespace = ''default'', req_Name = HashNodeID ''node-b''\<rparr> s3 = (Inr (), calls', db3, s4)
    \<and> Database_Reconcile (cancel_ctx 2 \<lparr>rt_cancelled = [0], rt_next = 3\<rparr>) db3
        \<lparr>req_Namespace = ''default'', req_Name = HashNodeID ''node-b''\<rparr> s4 = (Inr (), calls'', db4, s5)
    \<and> 9 \<notin> fst ` set calls''"
proof -
  let ?rt = "\<lparr>rt_cancelled = [0], rt_next = 2\<rparr>" and ?rt1 = "\<lparr>rt_cancelled = [0], rt_next = 3\<rparr>"
  let ?node = "zero_mesh_node\<lparr>mn_id := ''node-b''\<rparr>" and ?T = "\<lambda>i n. take n i :: string"
  obtain db1 where db1: "Database_Subscribe (Inr ''3'') Background 9 example_db ?rt = (Inr 2, db1, ?rt1)"
    by (simp add: Database_Subscribe_def Graph_Subscribe_def WithCancel_def)
  have "\<not> ctx_done ?rt Background" "rt_fresh ?rt" by (simp_all add: rt_fresh_def)
  note r = vertex_changes_reach_subscribers[where view = mem_view and T = ?T,
      OF mem_kube_ns_server mem_up_init example_db_simps(1,3,4) db1 this mem_admits_graph(1)[where T = ?T and i = "''node-b''" and node = ?node]]
  have "9 \<notin> (\<lambda>(j, sub). sub_fn sub) ` set (gs_subs (db_graph example_db))" by (simp add: example_db_def)
  with r db1 show ?thesis unfolding Let_def by (elim exE conjE) (intro exI conjI; (assumption | blast))
qed

end
