(* ===== verification/DeepCopy.thy ===== *)
theory DeepCopy
  imports StorageV1 "HOL-Library.Monad_Syntax"
begin

text \<open>
  \<open>api/storage/v1/zz_generated.deepcopy.go\<close>: the copies of the custom objects and of their lists.
  Everywhere else the objects are values, which is right only because what a client hands out is a
  copy that shares nothing with the one it keeps. Here this is proved, on a heap.

  A cell of the heap is a struct, the array behind a slice of structs, or memory of a library.
  The structs embed an \<open>ObjectMeta\<close> (or \<open>ListMeta\<close>) and a message of webmesh, which point to memory
  of their own; their code is not part of the program, so their values \<open>'v\<close>, their memory \<open>'x\<close> and
  their copy functions are parameters, with the contract \<open>deep_copier\<close>. A run-time panic is \<open>None\<close>.
\<close>

subsection \<open>The heap\<close>

type_synonym heap_addr = nat

datatype kind = Group_kind | MeshEdge_kind | MeshState_kind | NetworkACL_kind | Peer_kind | Role_kind
  | RoleBinding_kind | Route_kind | StoragePeer_kind

text \<open>The parts a struct embeds: the metadata, and one type of message per kind.\<close>

datatype part = metav1_ObjectMeta | metav1_ListMeta
  | types_Group | types_MeshEdge | types_NetworkState | types_NetworkACL | types_MeshNode | types_Role
  | types_RoleBinding | types_Route | types_StoragePeer

fun message_of :: "kind \<Rightarrow> part" where
  "message_of Group_kind = types_Group"
| "message_of MeshEdge_kind = types_MeshEdge"
| "message_of MeshState_kind = types_NetworkState"
| "message_of NetworkACL_kind = types_NetworkACL"
| "message_of Peer_kind = types_MeshNode"
| "message_of Role_kind = types_Role"
| "message_of RoleBinding_kind = types_RoleBinding"
| "message_of Route_kind = types_Route"
| "message_of StoragePeer_kind = types_StoragePeer"

text \<open>An object struct, a slice (\<open>sl_len\<close> elements of an array from \<open>sl_off\<close> on) and a list struct.\<close>

record 'v obj =
  ob_TypeMeta :: type_meta
  ob_ObjectMeta :: 'v
  ob_Message :: 'v

record slice =
  sl_array :: heap_addr
  sl_off :: nat
  sl_len :: nat

record 'v obj_list =
  ol_TypeMeta :: type_meta
  ol_ListMeta :: 'v
  ol_Items :: "slice option"

datatype ('v, 'x) cell =
    Object kind "'v obj"
  | Items kind "'v obj list"
  | ObjectList kind "'v obj_list"
  | Library 'x

record ('v, 'x) heap =
  cells :: "heap_addr \<rightharpoonup> ('v, 'x) cell"
  lim :: heap_addr

definition wf_heap :: "('v, 'x) heap \<Rightarrow> bool" where
  "wf_heap h \<longleftrightarrow> dom (cells h) \<subseteq> {..<lim h}"

definition alloc :: "('v, 'x) cell \<Rightarrow> ('v, 'x) heap \<Rightarrow> heap_addr \<times> ('v, 'x) heap" where
  "alloc c h = (lim h, h\<lparr>cells := (cells h)(lim h \<mapsto> c), lim := Suc (lim h)\<rparr>)"

definition put_cell :: "heap_addr \<Rightarrow> ('v, 'x) cell \<Rightarrow> ('v, 'x) heap \<Rightarrow> ('v, 'x) heap" where
  "put_cell a c h = h\<lparr>cells := (cells h)(a \<mapsto> c)\<rparr>"

text \<open>A pointer to an object points to a cell of its own or to an element of an array.\<close>

datatype place = Whole heap_addr | Element heap_addr nat

primrec place_addr :: "place \<Rightarrow> heap_addr" where
  "place_addr (Whole a) = a"
| "place_addr (Element a i) = a"

fun load :: "kind \<Rightarrow> place \<Rightarrow> (heap_addr \<rightharpoonup> ('v, 'x) cell) \<Rightarrow> 'v obj option" where
  "load k (Whole a) m = (case m a of
     Some (Object k' s) \<Rightarrow> if k' = k then Some s else None | _ \<Rightarrow> None)"
| "load k (Element a i) m = (case m a of
     Some (Items k' ss) \<Rightarrow> if k' = k \<and> i < length ss then Some (ss ! i) else None | _ \<Rightarrow> None)"

fun store :: "kind \<Rightarrow> place \<Rightarrow> 'v obj \<Rightarrow> ('v, 'x) heap \<Rightarrow> ('v, 'x) heap option" where
  "store k (Whole a) s h = (case cells h a of
     Some (Object k' _) \<Rightarrow> if k' = k then Some (put_cell a (Object k s) h) else None | _ \<Rightarrow> None)"
| "store k (Element a i) s h = (case cells h a of
     Some (Items k' ss) \<Rightarrow>
       if k' = k \<and> i < length ss then Some (put_cell a (Items k (ss[i := s])) h) else None
   | _ \<Rightarrow> None)"

fun load_list :: "kind \<Rightarrow> heap_addr \<Rightarrow> (heap_addr \<rightharpoonup> ('v, 'x) cell) \<Rightarrow> 'v obj_list option" where
  "load_list k a m = (case m a of
     Some (ObjectList k' l) \<Rightarrow> if k' = k then Some l else None | _ \<Rightarrow> None)"

fun store_list :: "kind \<Rightarrow> heap_addr \<Rightarrow> 'v obj_list \<Rightarrow> ('v, 'x) heap \<Rightarrow> ('v, 'x) heap option" where
  "store_list k a l h = (case cells h a of
     Some (ObjectList k' _) \<Rightarrow> if k' = k then Some (put_cell a (ObjectList k l) h) else None
   | _ \<Rightarrow> None)"

text \<open>The libraries: their zero values and their copies.\<close>

record ('v, 'x) library =
  lb_zero :: "part \<Rightarrow> 'v"
  lb_DeepCopy :: "part \<Rightarrow> 'v \<Rightarrow> ('v, 'x) heap \<Rightarrow> ('v \<times> ('v, 'x) heap) option"

definition zero_obj :: "('v, 'x) library \<Rightarrow> kind \<Rightarrow> 'v obj" where
  "zero_obj L k = \<lparr>ob_TypeMeta = zero_type_meta, ob_ObjectMeta = lb_zero L metav1_ObjectMeta,
     ob_Message = lb_zero L (message_of k)\<rparr>"

definition zero_obj_list :: "('v, 'x) library \<Rightarrow> 'v obj_list" where
  "zero_obj_list L = \<lparr>ol_TypeMeta = zero_type_meta, ol_ListMeta = lb_zero L metav1_ListMeta, ol_Items = None\<rparr>"

subsection \<open>The text of the generator\<close>

text \<open>
  The generator writes the same six methods for each kind; these are their bodies, with the kind,
  the type of the message and the methods called as parameters. Assignments to \<open>out\<close> are stores,
  and \<open>in\<close> is loaded again whenever the code names it.
\<close>

definition object_DeepCopyInto ::
    "('v, 'x) library \<Rightarrow> kind \<Rightarrow> part \<Rightarrow> place \<Rightarrow> place \<Rightarrow> ('v, 'x) heap \<Rightarrow> ('v, 'x) heap option" where
  "object_DeepCopyInto L k t inp out h = do {
     s \<leftarrow> load k inp (cells h);
     h \<leftarrow> store k out s h;
     s \<leftarrow> load k inp (cells h); o1 \<leftarrow> load k out (cells h);
     h \<leftarrow> store k out (o1\<lparr>ob_TypeMeta := ob_TypeMeta s\<rparr>) h;
     s \<leftarrow> load k inp (cells h);
     (om, h) \<leftarrow> lb_DeepCopy L metav1_ObjectMeta (ob_ObjectMeta s) h;
     o2 \<leftarrow> load k out (cells h);
     h \<leftarrow> store k out (o2\<lparr>ob_ObjectMeta := om\<rparr>) h;
     s \<leftarrow> load k inp (cells h);
     (msg, h) \<leftarrow> lb_DeepCopy L t (ob_Message s) h;
     o3 \<leftarrow> load k out (cells h);
     store k out (o3\<lparr>ob_Message := msg\<rparr>) h
   }"

fun copy_range ::
    "(place \<Rightarrow> place \<Rightarrow> ('v, 'x) heap \<Rightarrow> ('v, 'x) heap option) \<Rightarrow> (nat \<Rightarrow> place) \<Rightarrow> (nat \<Rightarrow> place) \<Rightarrow> nat list
     \<Rightarrow> ('v, 'x) heap \<Rightarrow> ('v, 'x) heap option" where
  "copy_range into src dst [] h = Some h"
| "copy_range into src dst (i # is) h = do { h \<leftarrow> into (src i) (dst i) h; copy_range into src dst is h }"

definition items_DeepCopyInto ::
    "('v, 'x) library \<Rightarrow> kind \<Rightarrow> (place \<Rightarrow> place \<Rightarrow> ('v, 'x) heap \<Rightarrow> ('v, 'x) heap option)
     \<Rightarrow> slice option \<Rightarrow> heap_addr \<Rightarrow> ('v, 'x) heap \<Rightarrow> ('v, 'x) heap option" where
  "items_DeepCopyInto L k into items out h = (case items of
     None \<Rightarrow> Some h
   | Some sl \<Rightarrow> do {
       let (arr, h) = alloc (Items k (replicate (sl_len sl) (zero_obj L k))) h;
       o3 \<leftarrow> load_list k out (cells h);
       h \<leftarrow> store_list k out (o3\<lparr>ol_Items := Some \<lparr>sl_array = arr, sl_off = 0, sl_len = sl_len sl\<rparr>\<rparr>) h;
       copy_range into (\<lambda>i. Element (sl_array sl) (sl_off sl + i)) (Element arr) [0..<sl_len sl] h
     })"

definition list_DeepCopyInto ::
    "('v, 'x) library \<Rightarrow> kind \<Rightarrow> (place \<Rightarrow> place \<Rightarrow> ('v, 'x) heap \<Rightarrow> ('v, 'x) heap option)
     \<Rightarrow> heap_addr \<Rightarrow> heap_addr \<Rightarrow> ('v, 'x) heap \<Rightarrow> ('v, 'x) heap option" where
  "list_DeepCopyInto L k into inp out h = do {
     l \<leftarrow> load_list k inp (cells h);
     h \<leftarrow> store_list k out l h;
     l \<leftarrow> load_list k inp (cells h); o1 \<leftarrow> load_list k out (cells h);
     h \<leftarrow> store_list k out (o1\<lparr>ol_TypeMeta := ol_TypeMeta l\<rparr>) h;
     l \<leftarrow> load_list k inp (cells h);
     (lm, h) \<leftarrow> lb_DeepCopy L metav1_ListMeta (ol_ListMeta l) h;
     o2 \<leftarrow> load_list k out (cells h);
     h \<leftarrow> store_list k out (o2\<lparr>ol_ListMeta := lm\<rparr>) h;
     l \<leftarrow> load_list k inp (cells h);
     items_DeepCopyInto L k into (ol_Items l) out h
   }"

text \<open>\<open>DeepCopy\<close> of a nil pointer is nil; otherwise a new struct is filled.\<close>

definition new_DeepCopy ::
    "('v, 'x) cell \<Rightarrow> (heap_addr \<Rightarrow> heap_addr \<Rightarrow> ('v, 'x) heap \<Rightarrow> ('v, 'x) heap option)
     \<Rightarrow> heap_addr option \<Rightarrow> ('v, 'x) heap \<Rightarrow> (heap_addr option \<times> ('v, 'x) heap) option" where
  "new_DeepCopy zero into inp h = (case inp of
     None \<Rightarrow> Some (None, h)
   | Some a \<Rightarrow> do {
       let (out, h) = alloc zero h;
       h \<leftarrow> into a out h;
       Some (Some out, h)
     })"

text \<open>
  A \<open>runtime.Object\<close> is nil or has a type and a pointer of this type, which may be nil: the method
  returns a nil interface, and not an interface with a nil pointer.
\<close>

datatype go_type = Ptr kind | PtrList kind

type_synonym runtime_object = "(go_type \<times> heap_addr option) option"

definition as_runtime_object ::
    "go_type \<Rightarrow> (heap_addr option \<Rightarrow> ('v, 'x) heap \<Rightarrow> (heap_addr option \<times> ('v, 'x) heap) option)
     \<Rightarrow> heap_addr option \<Rightarrow> ('v, 'x) heap \<Rightarrow> (runtime_object \<times> ('v, 'x) heap) option" where
  "as_runtime_object t copy inp h = do {
     (c, h) \<leftarrow> copy inp h;
     Some (if c \<noteq> None then Some (t, c) else None, h)
   }"

subsection \<open>The methods\<close>

type_synonym ('v, 'x) copy_into = "('v, 'x) library \<Rightarrow> place \<Rightarrow> place \<Rightarrow> ('v, 'x) heap \<Rightarrow> ('v, 'x) heap option"

type_synonym ('v, 'x) copy_list_into = "('v, 'x) library \<Rightarrow> heap_addr \<Rightarrow> heap_addr \<Rightarrow> ('v, 'x) heap \<Rightarrow> ('v, 'x) heap option"

type_synonym ('v, 'x) copy_new = "('v, 'x) library \<Rightarrow> heap_addr option \<Rightarrow> ('v, 'x) heap \<Rightarrow> (heap_addr option \<times> ('v, 'x) heap) option"

type_synonym ('v, 'x) copy_object = "('v, 'x) library \<Rightarrow> heap_addr option \<Rightarrow> ('v, 'x) heap \<Rightarrow> (runtime_object \<times> ('v, 'x) heap) option"

definition Group_DeepCopyInto :: "('v, 'x) copy_into" where
  "Group_DeepCopyInto L = object_DeepCopyInto L Group_kind types_Group"

definition Group_DeepCopy :: "('v, 'x) copy_new" where
  "Group_DeepCopy L = new_DeepCopy (Object Group_kind (zero_obj L Group_kind)) (\<lambda>inp out. Group_DeepCopyInto L (Whole inp) (Whole out))"

definition Group_DeepCopyObject :: "('v, 'x) copy_object" where
  "Group_DeepCopyObject L = as_runtime_object (Ptr Group_kind) (Group_DeepCopy L)"

definition GroupList_DeepCopyInto :: "('v, 'x) copy_list_into" where
  "GroupList_DeepCopyInto L = list_DeepCopyInto L Group_kind (Group_DeepCopyInto L)"

definition GroupList_DeepCopy :: "('v, 'x) copy_new" where
  "GroupList_DeepCopy L = new_DeepCopy (ObjectList Group_kind (zero_obj_list L)) (GroupList_DeepCopyInto L)"

definition GroupList_DeepCopyObject :: "('v, 'x) copy_object" where
  "GroupList_DeepCopyObject L = as_runtime_object (PtrList Group_kind) (GroupList_DeepCopy L)"

definition MeshEdge_DeepCopyInto :: "('v, 'x) copy_into" where
  "MeshEdge_DeepCopyInto L = object_DeepCopyInto L MeshEdge_kind types_MeshEdge"

definition MeshEdge_DeepCopy :: "('v, 'x) copy_new" where
  "MeshEdge_DeepCopy L = new_DeepCopy (Object MeshEdge_kind (zero_obj L MeshEdge_kind)) (\<lambda>inp out. MeshEdge_DeepCopyInto L (Whole inp) (Whole out))"

definition MeshEdge_DeepCopyObject :: "('v, 'x) copy_object" where
  "MeshEdge_DeepCopyObject L = as_runtime_object (Ptr MeshEdge_kind) (MeshEdge_DeepCopy L)"

definition MeshEdgeList_DeepCopyInto :: "('v, 'x) copy_list_into" where
  "MeshEdgeList_DeepCopyInto L = list_DeepCopyInto L MeshEdge_kind (MeshEdge_DeepCopyInto L)"

definition MeshEdgeList_DeepCopy :: "('v, 'x) copy_new" where
  "MeshEdgeList_DeepCopy L = new_DeepCopy (ObjectList MeshEdge_kind (zero_obj_list L)) (MeshEdgeList_DeepCopyInto L)"

definition MeshEdgeList_DeepCopyObject :: "('v, 'x) copy_object" where
  "MeshEdgeList_DeepCopyObject L = as_runtime_object (PtrList MeshEdge_kind) (MeshEdgeList_DeepCopy L)"

definition MeshState_DeepCopyInto :: "('v, 'x) copy_into" where
  "MeshState_DeepCopyInto L = object_DeepCopyInto L MeshState_kind types_NetworkState"

definition MeshState_DeepCopy :: "('v, 'x) copy_new" where
  "MeshState_DeepCopy L = new_DeepCopy (Object MeshState_kind (zero_obj L MeshState_kind)) (\<lambda>inp out. MeshState_DeepCopyInto L (Whole inp) (Whole out))"

definition MeshState_DeepCopyObject :: "('v, 'x) copy_object" where
  "MeshState_DeepCopyObject L = as_runtime_object (Ptr MeshState_kind) (MeshState_DeepCopy L)"

definition MeshStateList_DeepCopyInto :: "('v, 'x) copy_list_into" where
  "MeshStateList_DeepCopyInto L = list_DeepCopyInto L MeshState_kind (MeshState_DeepCopyInto L)"

definition MeshStateList_DeepCopy :: "('v, 'x) copy_new" where
  "MeshStateList_DeepCopy L = new_DeepCopy (ObjectList MeshState_kind (zero_obj_list L)) (MeshStateList_DeepCopyInto L)"

definition MeshStateList_DeepCopyObject :: "('v, 'x) copy_object" where
  "MeshStateList_DeepCopyObject L = as_runtime_object (PtrList MeshState_kind) (MeshStateList_DeepCopy L)"

definition NetworkACL_DeepCopyInto :: "('v, 'x) copy_into" where
  "NetworkACL_DeepCopyInto L = object_DeepCopyInto L NetworkACL_kind types_NetworkACL"

definition NetworkACL_DeepCopy :: "('v, 'x) copy_new" where
  "NetworkACL_DeepCopy L = new_DeepCopy (Object NetworkACL_kind (zero_obj L NetworkACL_kind)) (\<lambda>inp out. NetworkACL_DeepCopyInto L (Whole inp) (Whole out))"

definition NetworkACL_DeepCopyObject :: "('v, 'x) copy_object" where
  "NetworkACL_DeepCopyObject L = as_runtime_object (Ptr NetworkACL_kind) (NetworkACL_DeepCopy L)"

definition NetworkACLList_DeepCopyInto :: "('v, 'x) copy_list_into" where
  "NetworkACLList_DeepCopyInto L = list_DeepCopyInto L NetworkACL_kind (NetworkACL_DeepCopyInto L)"

definition NetworkACLList_DeepCopy :: "('v, 'x) copy_new" where
  "NetworkACLList_DeepCopy L = new_DeepCopy (ObjectList NetworkACL_kind (zero_obj_list L)) (NetworkACLList_DeepCopyInto L)"

definition NetworkACLList_DeepCopyObject :: "('v, 'x) copy_object" where
  "NetworkACLList_DeepCopyObject L = as_runtime_object (PtrList NetworkACL_kind) (NetworkACLList_DeepCopy L)"

definition Peer_DeepCopyInto :: "('v, 'x) copy_into" where
  "Peer_DeepCopyInto L = object_DeepCopyInto L Peer_kind types_MeshNode"

definition Peer_DeepCopy :: "('v, 'x) copy_new" where
  "Peer_DeepCopy L = new_DeepCopy (Object Peer_kind (zero_obj L Peer_kind)) (\<lambda>inp out. Peer_DeepCopyInto L (Whole inp) (Whole out))"

definition Peer_DeepCopyObject :: "('v, 'x) copy_object" where
  "Peer_DeepCopyObject L = as_runtime_object (Ptr Peer_kind) (Peer_DeepCopy L)"

definition PeerList_DeepCopyInto :: "('v, 'x) copy_list_into" where
  "PeerList_DeepCopyInto L = list_DeepCopyInto L Peer_kind (Peer_DeepCopyInto L)"

definition PeerList_DeepCopy :: "('v, 'x) copy_new" where
  "PeerList_DeepCopy L = new_DeepCopy (ObjectList Peer_kind (zero_obj_list L)) (PeerList_DeepCopyInto L)"

definition PeerList_DeepCopyObject :: "('v, 'x) copy_object" where
  "PeerList_DeepCopyObject L = as_runtime_object (PtrList Peer_kind) (PeerList_DeepCopy L)"

definition Role_DeepCopyInto :: "('v, 'x) copy_into" where
  "Role_DeepCopyInto L = object_DeepCopyInto L Role_kind types_Role"

definition Role_DeepCopy :: "('v, 'x) copy_new" where
  "Role_DeepCopy L = new_DeepCopy (Object Role_kind (zero_obj L Role_kind)) (\<lambda>inp out. Role_DeepCopyInto L (Whole inp) (Whole out))"

definition Role_DeepCopyObject :: "('v, 'x) copy_object" where
  "Role_DeepCopyObject L = as_runtime_object (Ptr Role_kind) (Role_DeepCopy L)"

definition RoleList_DeepCopyInto :: "('v, 'x) copy_list_into" where
  "RoleList_DeepCopyInto L = list_DeepCopyInto L Role_kind (Role_DeepCopyInto L)"

definition RoleList_DeepCopy :: "('v, 'x) copy_new" where
  "RoleList_DeepCopy L = new_DeepCopy (ObjectList Role_kind (zero_obj_list L)) (RoleList_DeepCopyInto L)"

definition RoleList_DeepCopyObject :: "('v, 'x) copy_object" where
  "RoleList_DeepCopyObject L = as_runtime_object (PtrList Role_kind) (RoleList_DeepCopy L)"

definition RoleBinding_DeepCopyInto :: "('v, 'x) copy_into" where
  "RoleBinding_DeepCopyInto L = object_DeepCopyInto L RoleBinding_kind types_RoleBinding"

definition RoleBinding_DeepCopy :: "('v, 'x) copy_new" where
  "RoleBinding_DeepCopy L = new_DeepCopy (Object RoleBinding_kind (zero_obj L RoleBinding_kind)) (\<lambda>inp out. RoleBinding_DeepCopyInto L (Whole inp) (Whole out))"

definition RoleBinding_DeepCopyObject :: "('v, 'x) copy_object" where
  "RoleBinding_DeepCopyObject L = as_runtime_object (Ptr RoleBinding_kind) (RoleBinding_DeepCopy L)"

definition RoleBindingList_DeepCopyInto :: "('v, 'x) copy_list_into" where
  "RoleBindingList_DeepCopyInto L = list_DeepCopyInto L RoleBinding_kind (RoleBinding_DeepCopyInto L)"

definition RoleBindingList_DeepCopy :: "('v, 'x) copy_new" where
  "RoleBindingList_DeepCopy L = new_DeepCopy (ObjectList RoleBinding_kind (zero_obj_list L)) (RoleBindingList_DeepCopyInto L)"

definition RoleBindingList_DeepCopyObject :: "('v, 'x) copy_object" where
  "RoleBindingList_DeepCopyObject L = as_runtime_object (PtrList RoleBinding_kind) (RoleBindingList_DeepCopy L)"

definition Route_DeepCopyInto :: "('v, 'x) copy_into" where
  "Route_DeepCopyInto L = object_DeepCopyInto L Route_kind types_Route"

definition Route_DeepCopy :: "('v, 'x) copy_new" where
  "Route_DeepCopy L = new_DeepCopy (Object Route_kind (zero_obj L Route_kind)) (\<lambda>inp out. Route_DeepCopyInto L (Whole inp) (Whole out))"

definition Route_DeepCopyObject :: "('v, 'x) copy_object" where
  "Route_DeepCopyObject L = as_runtime_object (Ptr Route_kind) (Route_DeepCopy L)"

definition RouteList_DeepCopyInto :: "('v, 'x) copy_list_into" where
  "RouteList_DeepCopyInto L = list_DeepCopyInto L Route_kind (Route_DeepCopyInto L)"

definition RouteList_DeepCopy :: "('v, 'x) copy_new" where
  "RouteList_DeepCopy L = new_DeepCopy (ObjectList Route_kind (zero_obj_list L)) (RouteList_DeepCopyInto L)"

definition RouteList_DeepCopyObject :: "('v, 'x) copy_object" where
  "RouteList_DeepCopyObject L = as_runtime_object (PtrList Route_kind) (RouteList_DeepCopy L)"

definition StoragePeer_DeepCopyInto :: "('v, 'x) copy_into" where
  "StoragePeer_DeepCopyInto L = object_DeepCopyInto L StoragePeer_kind types_StoragePeer"

definition StoragePeer_DeepCopy :: "('v, 'x) copy_new" where
  "StoragePeer_DeepCopy L = new_DeepCopy (Object StoragePeer_kind (zero_obj L StoragePeer_kind)) (\<lambda>inp out. StoragePeer_DeepCopyInto L (Whole inp) (Whole out))"

definition StoragePeer_DeepCopyObject :: "('v, 'x) copy_object" where
  "StoragePeer_DeepCopyObject L = as_runtime_object (Ptr StoragePeer_kind) (StoragePeer_DeepCopy L)"

definition StoragePeerList_DeepCopyInto :: "('v, 'x) copy_list_into" where
  "StoragePeerList_DeepCopyInto L = list_DeepCopyInto L StoragePeer_kind (StoragePeer_DeepCopyInto L)"

definition StoragePeerList_DeepCopy :: "('v, 'x) copy_new" where
  "StoragePeerList_DeepCopy L = new_DeepCopy (ObjectList StoragePeer_kind (zero_obj_list L)) (StoragePeerList_DeepCopyInto L)"

definition StoragePeerList_DeepCopyObject :: "('v, 'x) copy_object" where
  "StoragePeerList_DeepCopyObject L = as_runtime_object (PtrList StoragePeer_kind) (StoragePeerList_DeepCopy L)"

lemmas object_copy_defs =
  Group_DeepCopyInto_def Group_DeepCopy_def Group_DeepCopyObject_def
  MeshEdge_DeepCopyInto_def MeshEdge_DeepCopy_def MeshEdge_DeepCopyObject_def
  MeshState_DeepCopyInto_def MeshState_DeepCopy_def MeshState_DeepCopyObject_def
  NetworkACL_DeepCopyInto_def NetworkACL_DeepCopy_def NetworkACL_DeepCopyObject_def
  Peer_DeepCopyInto_def Peer_DeepCopy_def Peer_DeepCopyObject_def
  Role_DeepCopyInto_def Role_DeepCopy_def Role_DeepCopyObject_def
  RoleBinding_DeepCopyInto_def RoleBinding_DeepCopy_def RoleBinding_DeepCopyObject_def
  Route_DeepCopyInto_def Route_DeepCopy_def Route_DeepCopyObject_def
  StoragePeer_DeepCopyInto_def StoragePeer_DeepCopy_def StoragePeer_DeepCopyObject_def

lemmas list_copy_defs =
  GroupList_DeepCopyInto_def GroupList_DeepCopy_def GroupList_DeepCopyObject_def
  MeshEdgeList_DeepCopyInto_def MeshEdgeList_DeepCopy_def MeshEdgeList_DeepCopyObject_def
  MeshStateList_DeepCopyInto_def MeshStateList_DeepCopy_def MeshStateList_DeepCopyObject_def
  NetworkACLList_DeepCopyInto_def NetworkACLList_DeepCopy_def NetworkACLList_DeepCopyObject_def
  PeerList_DeepCopyInto_def PeerList_DeepCopy_def PeerList_DeepCopyObject_def
  RoleList_DeepCopyInto_def RoleList_DeepCopy_def RoleList_DeepCopyObject_def
  RoleBindingList_DeepCopyInto_def RoleBindingList_DeepCopy_def RoleBindingList_DeepCopyObject_def
  RouteList_DeepCopyInto_def RouteList_DeepCopy_def RouteList_DeepCopyObject_def
  StoragePeerList_DeepCopyInto_def StoragePeerList_DeepCopy_def StoragePeerList_DeepCopyObject_def

text \<open>The method of a type; a call through \<open>runtime.Object\<close> goes to that of the dynamic type.\<close>

fun DeepCopy :: "('v, 'x) library \<Rightarrow> go_type \<Rightarrow> heap_addr option \<Rightarrow> ('v, 'x) heap \<Rightarrow> (heap_addr option \<times> ('v, 'x) heap) option" where
  "DeepCopy L (Ptr Group_kind) = Group_DeepCopy L"
| "DeepCopy L (Ptr MeshEdge_kind) = MeshEdge_DeepCopy L"
| "DeepCopy L (Ptr MeshState_kind) = MeshState_DeepCopy L"
| "DeepCopy L (Ptr NetworkACL_kind) = NetworkACL_DeepCopy L"
| "DeepCopy L (Ptr Peer_kind) = Peer_DeepCopy L"
| "DeepCopy L (Ptr Role_kind) = Role_DeepCopy L"
| "DeepCopy L (Ptr RoleBinding_kind) = RoleBinding_DeepCopy L"
| "DeepCopy L (Ptr Route_kind) = Route_DeepCopy L"
| "DeepCopy L (Ptr StoragePeer_kind) = StoragePeer_DeepCopy L"
| "DeepCopy L (PtrList Group_kind) = GroupList_DeepCopy L"
| "DeepCopy L (PtrList MeshEdge_kind) = MeshEdgeList_DeepCopy L"
| "DeepCopy L (PtrList MeshState_kind) = MeshStateList_DeepCopy L"
| "DeepCopy L (PtrList NetworkACL_kind) = NetworkACLList_DeepCopy L"
| "DeepCopy L (PtrList Peer_kind) = PeerList_DeepCopy L"
| "DeepCopy L (PtrList Role_kind) = RoleList_DeepCopy L"
| "DeepCopy L (PtrList RoleBinding_kind) = RoleBindingList_DeepCopy L"
| "DeepCopy L (PtrList Route_kind) = RouteList_DeepCopy L"
| "DeepCopy L (PtrList StoragePeer_kind) = StoragePeerList_DeepCopy L"

fun DeepCopyObject :: "('v, 'x) library \<Rightarrow> go_type \<Rightarrow> heap_addr option \<Rightarrow> ('v, 'x) heap \<Rightarrow> (runtime_object \<times> ('v, 'x) heap) option" where
  "DeepCopyObject L (Ptr Group_kind) = Group_DeepCopyObject L"
| "DeepCopyObject L (Ptr MeshEdge_kind) = MeshEdge_DeepCopyObject L"
| "DeepCopyObject L (Ptr MeshState_kind) = MeshState_DeepCopyObject L"
| "DeepCopyObject L (Ptr NetworkACL_kind) = NetworkACL_DeepCopyObject L"
| "DeepCopyObject L (Ptr Peer_kind) = Peer_DeepCopyObject L"
| "DeepCopyObject L (Ptr Role_kind) = Role_DeepCopyObject L"
| "DeepCopyObject L (Ptr RoleBinding_kind) = RoleBinding_DeepCopyObject L"
| "DeepCopyObject L (Ptr Route_kind) = Route_DeepCopyObject L"
| "DeepCopyObject L (Ptr StoragePeer_kind) = StoragePeer_DeepCopyObject L"
| "DeepCopyObject L (PtrList Group_kind) = GroupList_DeepCopyObject L"
| "DeepCopyObject L (PtrList MeshEdge_kind) = MeshEdgeList_DeepCopyObject L"
| "DeepCopyObject L (PtrList MeshState_kind) = MeshStateList_DeepCopyObject L"
| "DeepCopyObject L (PtrList NetworkACL_kind) = NetworkACLList_DeepCopyObject L"
| "DeepCopyObject L (PtrList Peer_kind) = PeerList_DeepCopyObject L"
| "DeepCopyObject L (PtrList Role_kind) = RoleList_DeepCopyObject L"
| "DeepCopyObject L (PtrList RoleBinding_kind) = RoleBindingList_DeepCopyObject L"
| "DeepCopyObject L (PtrList Route_kind) = RouteList_DeepCopyObject L"
| "DeepCopyObject L (PtrList StoragePeer_kind) = StoragePeerList_DeepCopyObject L"

text \<open>All of them are instances of the text of the generator.\<close>

lemma DeepCopy_generic:
  "DeepCopy L (Ptr k) = new_DeepCopy (Object k (zero_obj L k))
     (\<lambda>inp out. object_DeepCopyInto L k (message_of k) (Whole inp) (Whole out))"
  "DeepCopy L (PtrList k) = new_DeepCopy (ObjectList k (zero_obj_list L))
     (list_DeepCopyInto L k (object_DeepCopyInto L k (message_of k)))"
  by (cases k; simp add: object_copy_defs list_copy_defs)+

lemma DeepCopyObject_generic: "DeepCopyObject L t = as_runtime_object t (DeepCopy L t)"
  by (cases t; cases "case t of Ptr k \<Rightarrow> k | PtrList k \<Rightarrow> k"; simp add: object_copy_defs list_copy_defs)

end
