(* ===== verification/DeepCopyProps.thy ===== *)
theory DeepCopyProps
  imports DeepCopy
begin

text \<open>
  What the generated copies are for: a copy has the content of the original and shares no memory
  with it. The content of a value is read off a map of cells, and is monotone in this map, so that
  a value denotes something in the restriction of the heap to a set of addresses exactly when all
  memory it needs is there.
\<close>

subsection \<open>Changes of the heap\<close>

definition changes_only :: "heap_addr set \<Rightarrow> ('v, 'x) heap \<Rightarrow> ('v, 'x) heap \<Rightarrow> bool" where
  "changes_only A h h' \<longleftrightarrow> wf_heap h' \<and> lim h \<le> lim h' \<and> (\<forall>a<lim h. a \<notin> A \<longrightarrow> cells h' a = cells h a)"

lemma changes_only_refl: "wf_heap h \<Longrightarrow> changes_only A h h"
  by (simp add: changes_only_def)

lemma changes_only_trans:
  assumes "changes_only A h1 h2" and "changes_only B h2 h3" and "B \<subseteq> A \<union> {lim h1..}"
  shows "changes_only A h1 h3"
proof -
  have "cells h3 a = cells h1 a" if "a < lim h1" "a \<notin> A" for a
    using that assms unfolding changes_only_def by (metis Un_iff atLeast_iff leD less_le_trans subsetD)
  then show ?thesis using assms unfolding changes_only_def by (meson order_trans)
qed

lemma changes_only_mono: "changes_only A h h' \<Longrightarrow> A \<subseteq> B \<Longrightarrow> changes_only B h h'"
  unfolding changes_only_def by blast

lemma changes_only_wf: "changes_only A h h' \<Longrightarrow> wf_heap h'"
  by (simp add: changes_only_def)

lemma changes_only_lim: "changes_only A h h' \<Longrightarrow> lim h \<le> lim h'"
  by (simp add: changes_only_def)

lemma wf_heap_cell: "wf_heap h \<Longrightarrow> cells h a = Some c \<Longrightarrow> a < lim h"
  unfolding wf_heap_def by auto

lemma changes_only_le:
  assumes "wf_heap h" and "changes_only A h h'" and "A \<inter> B = {}"
  shows "cells h |` B \<subseteq>\<^sub>m cells h' |` B"
  using assms unfolding map_le_def changes_only_def restrict_map_def
  by (auto split: if_splits) (metis disjoint_iff wf_heap_cell)

lemma changes_nothing_le:
  assumes "wf_heap h" and "changes_only {} h h'"
  shows "cells h \<subseteq>\<^sub>m cells h'"
  using changes_only_le[OF assms, of UNIV] by (simp add: restrict_map_def)

lemma restrict_le: "A \<subseteq> B \<Longrightarrow> m |` A \<subseteq>\<^sub>m m |` B"
  by (auto simp: map_le_def restrict_map_def split: if_splits)

lemma restrict_le_map: "m |` A \<subseteq>\<^sub>m m"
  by (auto simp: map_le_def restrict_map_def split: if_splits)

lemma changes_only_alloc:
  assumes "wf_heap h" and "alloc c h = (a, h')"
  shows "changes_only {} h h'" "a = lim h" "cells h' a = Some c" "a < lim h'"
  using assms unfolding alloc_def changes_only_def wf_heap_def by (auto simp: subset_iff less_Suc_eq domIff)

lemma changes_only_put_cell:
  assumes "wf_heap h" and "cells h a = Some c"
  shows "changes_only {a} h (put_cell a c' h)"
  using assms wf_heap_cell[OF assms] unfolding put_cell_def changes_only_def wf_heap_def by auto

subsection \<open>Loads and stores\<close>

definition array_size :: "kind \<Rightarrow> (heap_addr \<rightharpoonup> ('v, 'x) cell) \<Rightarrow> heap_addr \<Rightarrow> nat option" where
  "array_size k m a = (case m a of Some (Items k' ss) \<Rightarrow> if k' = k then Some (length ss) else None | _ \<Rightarrow> None)"

lemma load_mono: "load k p m = Some s \<Longrightarrow> m \<subseteq>\<^sub>m m' \<Longrightarrow> load k p m' = Some s"
  by (cases p) (auto simp: map_le_def dom_def split: option.splits cell.splits if_splits)

lemma load_list_mono: "load_list k a m = Some l \<Longrightarrow> m \<subseteq>\<^sub>m m' \<Longrightarrow> load_list k a m' = Some l"
  by (auto simp: map_le_def dom_def split: option.splits cell.splits if_splits)

lemma array_size_mono: "array_size k m a = Some n \<Longrightarrow> m \<subseteq>\<^sub>m m' \<Longrightarrow> array_size k m' a = Some n"
  by (auto simp: array_size_def map_le_def dom_def split: option.splits cell.splits if_splits)

lemma load_agree: "m (place_addr p) = m' (place_addr p) \<Longrightarrow> load k p m = load k p m'"
  by (cases p) simp_all

lemma array_size_agree: "m a = m' a \<Longrightarrow> array_size k m a = array_size k m' a"
  by (simp add: array_size_def)

lemma load_allocated: "wf_heap h \<Longrightarrow> load k p (cells h) = Some s \<Longrightarrow> place_addr p < lim h"
  by (cases p) (auto dest: wf_heap_cell split: option.splits)

text \<open>A step that changes one place only, and the elements beside it not at all.\<close>

definition writes_at :: "kind \<Rightarrow> place \<Rightarrow> ('v, 'x) heap \<Rightarrow> ('v, 'x) heap \<Rightarrow> bool" where
  "writes_at k p h h' \<longleftrightarrow> changes_only {place_addr p} h h'
     \<and> array_size k (cells h') (place_addr p) = array_size k (cells h) (place_addr p)
     \<and> (\<forall>q. q \<noteq> p \<and> place_addr q = place_addr p \<longrightarrow> load k q (cells h') = load k q (cells h))"

lemma writes_at_trans: "writes_at k p h1 h2 \<Longrightarrow> writes_at k p h2 h3 \<Longrightarrow> writes_at k p h1 h3"
  unfolding writes_at_def using changes_only_trans[of _ h1 h2 _ h3] by (metis Un_upper1)

lemma writes_at_changes: "writes_at k p h h' \<Longrightarrow> changes_only {place_addr p} h h'"
  by (simp add: writes_at_def)

lemma writes_at_extends:
  assumes "changes_only {} h h'" and "place_addr p < lim h"
  shows "writes_at k p h h'" "load k p (cells h') = load k p (cells h)"
proof -
  from assms have same: "cells h' (place_addr p) = cells h (place_addr p)" by (simp add: changes_only_def)
  then show "load k p (cells h') = load k p (cells h)" by (rule load_agree)
  show "writes_at k p h h'"
    unfolding writes_at_def
    using changes_only_mono[OF assms(1)] array_size_agree[where m = "cells h'" and m' = "cells h", OF same] load_agree[of "cells h'" _ "cells h"] same by simp
qed

lemma store_loaded:
  assumes "wf_heap h" and "load k p (cells h) = Some s0"
  obtains h' where "store k p s h = Some h'" "writes_at k p h h'" "load k p (cells h') = Some s" "lim h' = lim h"
proof (cases p)
  case (Whole a)
  with assms(2) have a: "cells h a = Some (Object k s0)" by (auto split: option.splits cell.splits if_splits)
  let ?h = "put_cell a (Object k s) h"
  have "load k q (cells ?h) = load k q (cells h)" if "q \<noteq> p" "place_addr q = a" for q
    using that a Whole by (cases q) (simp_all add: put_cell_def)
  then have "writes_at k p h ?h"
    using changes_only_put_cell[OF assms(1) a] a Whole unfolding writes_at_def by (simp add: array_size_def put_cell_def)
  then show thesis using that[of ?h] a Whole by (simp add: put_cell_def)
next
  case (Element a i)
  with assms(2) obtain ss where a: "cells h a = Some (Items k ss)" "i < length ss"
    by (auto split: option.splits cell.splits if_splits)
  let ?h = "put_cell a (Items k (ss[i := s])) h"
  have "load k q (cells ?h) = load k q (cells h)" if "q \<noteq> p" "place_addr q = a" for q
    using that a Element by (cases q) (simp_all add: put_cell_def)
  then have "writes_at k p h ?h"
    using changes_only_put_cell[OF assms(1) a(1)] a Element unfolding writes_at_def by (simp add: array_size_def put_cell_def)
  then show thesis using that[of ?h] a Element by (simp add: put_cell_def)
qed

lemma store_list_loaded:
  assumes "wf_heap h" and "load_list k a (cells h) = Some l0"
  obtains h' where "store_list k a l h = Some h'" "changes_only {a} h h'" "load_list k a (cells h') = Some l" "lim h' = lim h"
proof -
  from assms(2) have a: "cells h a = Some (ObjectList k l0)" by (auto split: option.splits cell.splits if_splits)
  show thesis
    using that[of "put_cell a (ObjectList k l) h"] changes_only_put_cell[OF assms(1) a] a by (simp add: put_cell_def)
qed

subsection \<open>The contract of a copy\<close>

locale deep_copier =
  fixes denote :: "(heap_addr \<rightharpoonup> ('v, 'x) cell) \<Rightarrow> 'a \<Rightarrow> 'd option"
    and copy :: "'a \<Rightarrow> ('v, 'x) heap \<Rightarrow> ('a \<times> ('v, 'x) heap) option"
  assumes denote_mono: "denote m v = Some d \<Longrightarrow> m \<subseteq>\<^sub>m m' \<Longrightarrow> denote m' v = Some d"
    and copies: "wf_heap h \<Longrightarrow> denote (cells h) v = Some d \<Longrightarrow>
      \<exists>v' h'. copy v h = Some (v', h') \<and> changes_only {} h h' \<and> denote (cells h' |` {lim h..}) v' = Some d"
begin

text \<open>Whatever later happens to one side, the other keeps its content.\<close>

lemma copy_shares_nothing:
  assumes "wf_heap h" and "denote (cells h) v = Some d"
  shows "\<exists>v' h'. copy v h = Some (v', h') \<and> denote (cells h') v' = Some d
    \<and> (\<forall>m. (\<forall>a\<ge>lim h. m a = cells h' a) \<longrightarrow> denote m v' = Some d)
    \<and> (\<forall>m. (\<forall>a<lim h. m a = cells h' a) \<longrightarrow> denote m v = Some d)"
proof -
  from copies[OF assms] obtain v' h' where c: "copy v h = Some (v', h')" "changes_only {} h h'"
    "denote (cells h' |` {lim h..}) v' = Some d" by blast
  have "denote m v' = Some d" if "\<forall>a\<ge>lim h. m a = cells h' a" for m
    using that by (intro denote_mono[OF c(3)]) (auto simp: map_le_def restrict_map_def split: if_splits)
  moreover have "denote m v = Some d" if "\<forall>a<lim h. m a = cells h' a" for m
    using that c(2) assms(1)
    by (intro denote_mono[OF assms(2)]) (auto simp: map_le_def changes_only_def dest: wf_heap_cell)
  ultimately show ?thesis using c(1) denote_mono[OF c(3) restrict_le_map] by blast
qed

end

subsection \<open>Content\<close>

type_synonym ('v, 'x, 'd) denotations = "part \<Rightarrow> (heap_addr \<rightharpoonup> ('v, 'x) cell) \<Rightarrow> 'v \<Rightarrow> 'd option"

type_synonym 'd obj_content = "type_meta \<times> 'd \<times> 'd"

definition obj_content :: "('v, 'x, 'd) denotations \<Rightarrow> part \<Rightarrow> (heap_addr \<rightharpoonup> ('v, 'x) cell) \<Rightarrow> 'v obj \<Rightarrow> 'd obj_content option" where
  "obj_content D t m s = do {
     om \<leftarrow> D metav1_ObjectMeta m (ob_ObjectMeta s);
     msg \<leftarrow> D t m (ob_Message s);
     Some (ob_TypeMeta s, om, msg)
   }"

text \<open>The elements of a slice; a nil slice is \<open>None\<close>, which differs from an empty one.\<close>

definition place_content ::
    "('v, 'x, 'd) denotations \<Rightarrow> kind \<Rightarrow> part \<Rightarrow> (heap_addr \<rightharpoonup> ('v, 'x) cell) \<Rightarrow> place \<Rightarrow> 'd obj_content option" where
  "place_content D k t m p = do { s \<leftarrow> load k p m; obj_content D t m s }"

definition slice_content ::
    "('v, 'x, 'd) denotations \<Rightarrow> kind \<Rightarrow> part \<Rightarrow> (heap_addr \<rightharpoonup> ('v, 'x) cell) \<Rightarrow> slice option
     \<Rightarrow> 'd obj_content list option option" where
  "slice_content D k t m items = (case items of
     None \<Rightarrow> Some None
   | Some sl \<Rightarrow> do {
       n \<leftarrow> array_size k m (sl_array sl);
       if sl_off sl + sl_len sl \<le> n
       then map_option Some
         (those (map (\<lambda>i. place_content D k t m (Element (sl_array sl) (sl_off sl + i))) [0..<sl_len sl]))
       else None
     })"

datatype 'd deep_content =
    NilContent
  | ObjectContent "'d obj_content"
  | ListContent type_meta 'd "'d obj_content list option"

fun pointer_content :: "('v, 'x, 'd) denotations \<Rightarrow> go_type \<Rightarrow> (heap_addr \<rightharpoonup> ('v, 'x) cell) \<Rightarrow> heap_addr option \<Rightarrow> 'd deep_content option" where
  "pointer_content D t m None = Some NilContent"
| "pointer_content D (Ptr k) m (Some a) = map_option ObjectContent (place_content D k (message_of k) m (Whole a))"
| "pointer_content D (PtrList k) m (Some a) = do {
     l \<leftarrow> load_list k a m;
     lm \<leftarrow> D metav1_ListMeta m (ol_ListMeta l);
     items \<leftarrow> slice_content D k (message_of k) m (ol_Items l);
     Some (ListContent (ol_TypeMeta l) lm items)
   }"

text \<open>The libraries keep the contract, part by part.\<close>

locale copying_library =
  fixes L :: "('v, 'x) library" and D :: "('v, 'x, 'd) denotations"
  assumes part_copier: "deep_copier (D t) (lb_DeepCopy L t)"
begin

lemma part_mono: "D t m v = Some d \<Longrightarrow> m \<subseteq>\<^sub>m m' \<Longrightarrow> D t m' v = Some d"
  by (rule deep_copier.denote_mono[OF part_copier])

lemma part_copy:
  assumes "wf_heap h" and "D t (cells h) v = Some d"
  obtains v' h' where "lb_DeepCopy L t v h = Some (v', h')" "changes_only {} h h'" "D t (cells h' |` {lim h..}) v' = Some d"
  using deep_copier.copies[OF part_copier assms] by blast

lemma obj_content_mono:
  "obj_content D t m s = Some d \<Longrightarrow> m \<subseteq>\<^sub>m m' \<Longrightarrow> obj_content D t m' s = Some d"
  unfolding obj_content_def by (auto simp: bind_eq_Some_conv intro: part_mono)

lemma place_content_mono:
  "place_content D k t m p = Some d \<Longrightarrow> m \<subseteq>\<^sub>m m' \<Longrightarrow> place_content D k t m' p = Some d"
  unfolding place_content_def by (auto simp: bind_eq_Some_conv intro: load_mono obj_content_mono)

end

subsection \<open>One object\<close>

lemma writes_at_le:
  assumes "wf_heap h" and "writes_at k p h h'" and "place_addr p \<notin> A" and "A \<subseteq> B"
  shows "cells h |` A \<subseteq>\<^sub>m cells h' |` B"
  using changes_only_le[OF assms(1) writes_at_changes[OF assms(2)], of A] assms(3,4) restrict_le[of A B "cells h'"]
  by (auto intro: map_le_trans)

context copying_library
begin

text \<open>The copy of a part, and its assignment to a field of \<open>out\<close>.\<close>

lemma field_copied:
  assumes wf: "wf_heap h" and v: "D t (cells h) v = Some d" and out: "load k out (cells h) = Some s"
  obtains v' h1 h2 where "lb_DeepCopy L t v h = Some (v', h1)" "load k out (cells h1) = Some s"
    "store k out (f v' s) h1 = Some h2" "writes_at k out h h2" "load k out (cells h2) = Some (f v' s)"
    "D t (cells h2 |` {lim h..}) v' = Some d"
proof -
  obtain v' h1 where c: "lb_DeepCopy L t v h = Some (v', h1)" "changes_only {} h h1" "D t (cells h1 |` {lim h..}) v' = Some d"
    by (rule part_copy[OF wf v])
  have heap_addr: "place_addr out < lim h" by (rule load_allocated[OF wf out])
  note ext = writes_at_extends[OF c(2) heap_addr]
  note wf1 = changes_only_wf[OF c(2)]
  have l1: "load k out (cells h1) = Some s" using ext(2) out by simp
  obtain h2 where h2: "store k out (f v' s) h1 = Some h2" "writes_at k out h1 h2" "load k out (cells h2) = Some (f v' s)"
    by (rule store_loaded[OF wf1 l1])
  have "D t (cells h2 |` {lim h..}) v' = Some d"
    using heap_addr by (intro part_mono[OF c(3)] writes_at_le[OF wf1 h2(2)]) auto
  then show thesis using that[OF c(1) l1 h2(1) writes_at_trans[OF ext(1) h2(2)] h2(3)] by blast
qed

text \<open>The source lives below \<open>b\<close>, where nothing is written; what the copy needs is new.\<close>

lemma object_copied:
  assumes wf: "wf_heap h" and src: "place_content D k t (cells h |` {..<b}) inp = Some d"
    and out: "load k out (cells h) = Some s0" "b \<le> place_addr out"
  obtains h' s' where "object_DeepCopyInto L k t inp out h = Some h'" "writes_at k out h h'"
    "load k out (cells h') = Some s'" "obj_content D t (cells h' |` {lim h..}) s' = Some d"
proof -
  have below: "cells h |` {..<b} \<subseteq>\<^sub>m cells h'" if "writes_at k out h h'" for h'
    using writes_at_le[OF wf that, of "{..<b}" UNIV] out(2) by (simp add: restrict_map_def)
  from src obtain s om msg where s: "load k inp (cells h |` {..<b}) = Some s"
    "D metav1_ObjectMeta (cells h |` {..<b}) (ob_ObjectMeta s) = Some om"
    "D t (cells h |` {..<b}) (ob_Message s) = Some msg" "d = (ob_TypeMeta s, om, msg)"
    by (auto simp: place_content_def obj_content_def bind_eq_Some_conv)
  have inp: "load k inp (cells h') = Some s" if "writes_at k out h h'" for h'
    by (rule load_mono[OF s(1) below[OF that]])
  have inp0: "load k inp (cells h) = Some s" by (rule load_mono[OF s(1) restrict_le_map])
  obtain h1 where h1: "store k out s h = Some h1" "writes_at k out h h1" "load k out (cells h1) = Some s" "lim h1 = lim h"
    by (rule store_loaded[OF wf out(1)])
  note wf1 = changes_only_wf[OF writes_at_changes[OF h1(2)]]
  obtain h2 where h2: "store k out (s\<lparr>ob_TypeMeta := ob_TypeMeta s\<rparr>) h1 = Some h2" "writes_at k out h1 h2"
    "load k out (cells h2) = Some (s\<lparr>ob_TypeMeta := ob_TypeMeta s\<rparr>)" "lim h2 = lim h1"
    by (rule store_loaded[OF wf1 h1(3)])
  note w2 = writes_at_trans[OF h1(2) h2(2)]
  note wf2 = changes_only_wf[OF writes_at_changes[OF w2]]
  obtain om' h3 h4 where h4: "lb_DeepCopy L metav1_ObjectMeta (ob_ObjectMeta s) h2 = Some (om', h3)"
    "load k out (cells h3) = Some s" "store k out (s\<lparr>ob_ObjectMeta := om'\<rparr>) h3 = Some h4" "writes_at k out h2 h4"
    "load k out (cells h4) = Some (s\<lparr>ob_ObjectMeta := om'\<rparr>)" "D metav1_ObjectMeta (cells h4 |` {lim h2..}) om' = Some om"
    by (rule field_copied[OF wf2 part_mono[OF s(2) below[OF w2]] h2(3), where f = "\<lambda>v s. s\<lparr>ob_ObjectMeta := v\<rparr>"]) simp
  note w4 = writes_at_trans[OF w2 h4(4)]
  note wf4 = changes_only_wf[OF writes_at_changes[OF w4]]
  obtain msg' h5 h6 where h6: "lb_DeepCopy L t (ob_Message s) h4 = Some (msg', h5)"
    "load k out (cells h5) = Some (s\<lparr>ob_ObjectMeta := om'\<rparr>)" "store k out (s\<lparr>ob_ObjectMeta := om', ob_Message := msg'\<rparr>) h5 = Some h6"
    "writes_at k out h4 h6" "load k out (cells h6) = Some (s\<lparr>ob_ObjectMeta := om', ob_Message := msg'\<rparr>)"
    "D t (cells h6 |` {lim h4..}) msg' = Some msg"
    by (rule field_copied[OF wf4 part_mono[OF s(3) below[OF w4]] h4(5), where f = "\<lambda>v s. s\<lparr>ob_Message := v\<rparr>"]) simp
  have "D metav1_ObjectMeta (cells h6 |` {lim h..}) om' = Some om"
    using h1(4) h2(4) load_allocated[OF wf out(1)] by (intro part_mono[OF h4(6)] writes_at_le[OF wf4 h6(4)]) auto
  moreover have "D t (cells h6 |` {lim h..}) msg' = Some msg"
    using changes_only_lim[OF writes_at_changes[OF w4]] by (intro part_mono[OF h6(6)] restrict_le) simp
  ultimately have "obj_content D t (cells h6 |` {lim h..}) (s\<lparr>ob_ObjectMeta := om', ob_Message := msg'\<rparr>) = Some d"
    by (simp add: obj_content_def s(4))
  moreover have "object_DeepCopyInto L k t inp out h = Some h6"
    using h1(1,3) h2(1) h4(1,2,3) h6(1,2,3) by (simp add: object_DeepCopyInto_def inp0 inp[OF h1(2)] inp[OF w2] inp[OF w4])
  ultimately show thesis using that[OF _ writes_at_trans[OF w4 h6(4)] h6(5)] by blast
qed

end

subsection \<open>Lists\<close>

lemma those_eq_Some: "those xs = Some ys \<longleftrightarrow> xs = map Some ys"
  by (induction xs arbitrary: ys) (auto split: option.splits)

lemma those_map_mono:
  "those (map f xs) = Some ys \<Longrightarrow> (\<And>x y. f x = Some y \<Longrightarrow> g x = Some y) \<Longrightarrow> those (map g xs) = Some ys"
  by (induction xs arbitrary: ys) (auto split: option.splits)

context copying_library
begin

lemma range_copied:
  assumes "wf_heap h" and "distinct is" and "b \<le> arr" and "arr < lim h"
    and "\<forall>i \<in> set is. place_content D k t (cells h |` {..<b}) (src i) = Some (d i)"
    and "\<forall>i \<in> set is. load k (Element arr i) (cells h) \<noteq> None"
  shows "\<exists>h'. copy_range (object_DeepCopyInto L k t) src (Element arr) is h = Some h' \<and> changes_only {arr} h h'
    \<and> array_size k (cells h') arr = array_size k (cells h) arr
    \<and> (\<forall>i \<in> set is. place_content D k t (cells h' |` {arr..}) (Element arr i) = Some (d i))
    \<and> (\<forall>i. i \<notin> set is \<longrightarrow> load k (Element arr i) (cells h') = load k (Element arr i) (cells h))"
  using assms
proof (induction "is" arbitrary: h)
  case Nil
  then show ?case by (simp add: changes_only_refl)
next
  case (Cons i "is")
  let ?e = "Element arr i"
  from Cons.prems(6) obtain s0 where s0: "load k ?e (cells h) = Some s0" by auto
  have "place_content D k t (cells h |` {..<b}) (src i) = Some (d i)" using Cons.prems(5) by simp
  then obtain h1 s' where h1: "object_DeepCopyInto L k t (src i) ?e h = Some h1" "writes_at k ?e h h1"
    "load k ?e (cells h1) = Some s'" "obj_content D t (cells h1 |` {lim h..}) s' = Some (d i)"
    by (rule object_copied[OF Cons.prems(1) _ s0]) (simp add: Cons.prems(3))
  note c1 = writes_at_changes[OF h1(2), simplified] note wf1 = changes_only_wf[OF c1]
  have "cells h |` {..<b} \<subseteq>\<^sub>m cells h1 |` {..<b}"
    using Cons.prems(3) by (intro writes_at_le[OF Cons.prems(1) h1(2)]) auto
  then have "\<forall>j \<in> set is. place_content D k t (cells h1 |` {..<b}) (src j) = Some (d j)"
    using Cons.prems(5) by (auto intro: place_content_mono)
  moreover have others: "\<forall>j. j \<noteq> i \<longrightarrow> load k (Element arr j) (cells h1) = load k (Element arr j) (cells h)"
    using h1(2) by (simp add: writes_at_def del: load.simps)
  moreover have "arr < lim h1" using Cons.prems(4) changes_only_lim[OF c1] by simp
  ultimately obtain h' where h': "copy_range (object_DeepCopyInto L k t) src (Element arr) is h1 = Some h'" "changes_only {arr} h1 h'"
    "array_size k (cells h') arr = array_size k (cells h1) arr"
    "\<forall>j \<in> set is. place_content D k t (cells h' |` {arr..}) (Element arr j) = Some (d j)"
    "\<forall>j. j \<notin> set is \<longrightarrow> load k (Element arr j) (cells h') = load k (Element arr j) (cells h1)"
    using Cons.IH[OF wf1 _ Cons.prems(3)] Cons.prems(2,6) by (metis distinct.simps(2) list.set_intros(2))
  have "cells h1 |` {lim h..} \<subseteq>\<^sub>m cells h' |` {arr..}"
    using changes_only_le[OF wf1 h'(2), of "{lim h..}"] restrict_le[of "{lim h..}" "{arr..}" "cells h'"] Cons.prems(4)
    by (auto intro: map_le_trans)
  then have "obj_content D t (cells h' |` {arr..}) s' = Some (d i)" by (rule obj_content_mono[OF h1(4)])
  moreover have "load k ?e (cells h' |` {arr..}) = Some s'"
    using h'(5) h1(3) Cons.prems(2) load_agree[of "cells h' |` {arr..}" ?e "cells h'" k] by simp
  ultimately have "place_content D k t (cells h' |` {arr..}) ?e = Some (d i)" by (simp add: place_content_def)
  then have "\<forall>j \<in> set (i # is). place_content D k t (cells h' |` {arr..}) (Element arr j) = Some (d j)" using h'(4) by simp
  moreover have "copy_range (object_DeepCopyInto L k t) src (Element arr) (i # is) h = Some h'" by (simp add: h1(1) h'(1))
  moreover have "changes_only {arr} h h'" by (rule changes_only_trans[OF c1 h'(2)]) simp
  moreover have "array_size k (cells h') arr = array_size k (cells h) arr" using h'(3) h1(2) by (simp add: writes_at_def)
  moreover have "\<forall>j. j \<notin> set (i # is) \<longrightarrow> load k (Element arr j) (cells h') = load k (Element arr j) (cells h)"
    using h'(5) others by simp
  ultimately show ?case by blast
qed

lemma slice_content_mono:
  "slice_content D k t m sl = Some d \<Longrightarrow> m \<subseteq>\<^sub>m m' \<Longrightarrow> slice_content D k t m' sl = Some d"
proof (cases sl)
  case (Some s)
  assume d: "slice_content D k t m sl = Some d" and le: "m \<subseteq>\<^sub>m m'"
  obtain n ds where n: "array_size k m (sl_array s) = Some n" "sl_off s + sl_len s \<le> n" "d = Some ds"
    "those (map (\<lambda>i. place_content D k t m (Element (sl_array s) (sl_off s + i))) [0..<sl_len s]) = Some ds"
    using d Some by (auto simp: slice_content_def bind_eq_Some_conv split: if_splits)
  have "those (map (\<lambda>i. place_content D k t m' (Element (sl_array s) (sl_off s + i))) [0..<sl_len s]) = Some ds"
    by (rule those_map_mono[OF n(4)]) (rule place_content_mono[OF _ le])
  then show ?thesis using array_size_mono[OF n(1) le] n(2,3) Some by (simp add: slice_content_def)
qed (simp add: slice_content_def)

text \<open>The array of the copy is new, and filled from the elements of the slice.\<close>

lemma slice_copied:
  assumes wf: "wf_heap h" and src: "slice_content D k t (cells h |` {..<b}) (Some sl) = Some (Some ds)"
    and b: "b \<le> lim h" and arr: "alloc (Items k (replicate (sl_len sl) z)) h = (arr, h1)"
    and h2: "changes_only {out} h1 h2" and out: "out < lim h" "b \<le> out"
  obtains h3 where "copy_range (object_DeepCopyInto L k t) (\<lambda>i. Element (sl_array sl) (sl_off sl + i)) (Element arr) [0..<sl_len sl] h2 = Some h3"
    "changes_only {out} h h3" "cells h3 out = cells h2 out"
    "slice_content D k t (cells h3 |` {lim h..}) (Some \<lparr>sl_array = arr, sl_off = 0, sl_len = sl_len sl\<rparr>) = Some (Some ds)"
proof -
  let ?n = "sl_len sl" and ?src = "\<lambda>i. Element (sl_array sl) (sl_off sl + i)"
  note al = changes_only_alloc[OF wf arr]
  note c2 = changes_only_trans[OF changes_only_mono[OF al(1), of "{out}"] h2]
  have c2: "changes_only {out} h h2" by (rule c2) simp_all
  have arr2: "cells h2 arr = Some (Items k (replicate ?n z))" using h2 al(2,3,4) out(1) by (simp add: changes_only_def)
  from src have ds: "map (\<lambda>i. place_content D k t (cells h |` {..<b}) (?src i)) [0..<?n] = map Some ds"
    by (auto simp: slice_content_def bind_eq_Some_conv those_eq_Some split: if_splits)
  then have len: "length ds = ?n" by (metis length_map diff_zero length_upt)
  have "cells h |` {..<b} \<subseteq>\<^sub>m cells h2 |` {..<b}"
    using out(2) by (intro changes_only_le[OF wf c2]) auto
  moreover have "place_content D k t (cells h |` {..<b}) (?src i) = Some (ds ! i)" if "i < ?n" for i
    using arg_cong[OF ds, of "\<lambda>xs. xs ! i"] that len by simp
  ultimately have "\<forall>i \<in> set [0..<?n]. place_content D k t (cells h2 |` {..<b}) (?src i) = Some (ds ! i)"
    using place_content_mono by (metis atLeastLessThan_iff set_upt)
  moreover have "\<forall>i \<in> set [0..<?n]. load k (Element arr i) (cells h2) \<noteq> None" by (simp add: arr2)
  moreover have "arr < lim h2" using al(4) changes_only_lim[OF h2] by simp
  ultimately obtain h3 where h3: "copy_range (object_DeepCopyInto L k t) ?src (Element arr) [0..<?n] h2 = Some h3" "changes_only {arr} h2 h3"
    "array_size k (cells h3) arr = array_size k (cells h2) arr"
    "\<forall>i \<in> set [0..<?n]. place_content D k t (cells h3 |` {arr..}) (Element arr i) = Some (ds ! i)"
    using range_copied[OF changes_only_wf[OF h2], of "[0..<?n]" b arr k t ?src "(!) ds"] b al(2) by auto
  have "array_size k (cells h3 |` {lim h..}) arr = Some ?n"
    using h3(3) arr2 al(2) by (simp add: array_size_def)
  moreover have "map (\<lambda>i. place_content D k t (cells h3 |` {lim h..}) (Element arr i)) [0..<?n] = map Some ds"
    using h3(4) al(2) len by (intro nth_equalityI) auto
  ultimately have "slice_content D k t (cells h3 |` {lim h..}) (Some \<lparr>sl_array = arr, sl_off = 0, sl_len = ?n\<rparr>) = Some (Some ds)"
    by (simp add: slice_content_def those_eq_Some)
  moreover have "changes_only {out} h h3" using al(2) by (intro changes_only_trans[OF c2 h3(2)]) simp
  moreover have "cells h3 out = cells h2 out" using h3(2) out(1) al(2) changes_only_lim[OF c2] by (simp add: changes_only_def)
  ultimately show thesis using that[OF h3(1)] by blast
qed

end

lemma load_list_agree: "m a = m' a \<Longrightarrow> load_list k a m = load_list k a m'"
  by simp

lemma load_list_allocated: "wf_heap h \<Longrightarrow> load_list k a (cells h) = Some l \<Longrightarrow> a < lim h"
  by (auto dest: wf_heap_cell split: option.splits)

context copying_library
begin

lemma list_meta_copied:
  assumes wf: "wf_heap h" and v: "D metav1_ListMeta (cells h) (ol_ListMeta l) = Some d" and out: "load_list k out (cells h) = Some l"
  obtains v' h1 h2 where "lb_DeepCopy L metav1_ListMeta (ol_ListMeta l) h = Some (v', h1)" "load_list k out (cells h1) = Some l"
    "store_list k out (l\<lparr>ol_ListMeta := v'\<rparr>) h1 = Some h2" "changes_only {out} h h2"
    "load_list k out (cells h2) = Some (l\<lparr>ol_ListMeta := v'\<rparr>)" "D metav1_ListMeta (cells h2 |` {lim h..}) v' = Some d"
proof -
  obtain v' h1 where c: "lb_DeepCopy L metav1_ListMeta (ol_ListMeta l) h = Some (v', h1)" "changes_only {} h h1"
    "D metav1_ListMeta (cells h1 |` {lim h..}) v' = Some d" by (rule part_copy[OF wf v])
  have heap_addr: "out < lim h" by (rule load_list_allocated[OF wf out])
  note wf1 = changes_only_wf[OF c(2)]
  have l1: "load_list k out (cells h1) = Some l"
    using load_list_agree[of "cells h1" out "cells h" k] c(2) heap_addr out by (simp add: changes_only_def)
  obtain h2 where h2: "store_list k out (l\<lparr>ol_ListMeta := v'\<rparr>) h1 = Some h2" "changes_only {out} h1 h2"
    "load_list k out (cells h2) = Some (l\<lparr>ol_ListMeta := v'\<rparr>)" by (rule store_list_loaded[OF wf1 l1])
  have "D metav1_ListMeta (cells h2 |` {lim h..}) v' = Some d"
    using heap_addr by (intro part_mono[OF c(3)] changes_only_le[OF wf1 h2(2)]) auto
  moreover have "changes_only {out} h h2" by (rule changes_only_trans[OF changes_only_mono[OF c(2)] h2(2)]) simp_all
  ultimately show thesis using that[OF c(1) l1 h2(1) _ h2(3)] by blast
qed

text \<open>The fields before the items.\<close>

lemma list_head_copied:
  assumes wf: "wf_heap h" and src: "load_list k inp (cells h |` {..<b}) = Some l"
    and lm: "D metav1_ListMeta (cells h |` {..<b}) (ol_ListMeta l) = Some d"
    and out: "load_list k out (cells h) = Some l0" "b \<le> out"
  obtains h4 lm' where "changes_only {out} h h4" "load_list k inp (cells h4) = Some l"
    "load_list k out (cells h4) = Some (l\<lparr>ol_ListMeta := lm'\<rparr>)"
    "D metav1_ListMeta (cells h4 |` {lim h..}) lm' = Some d"
    "list_DeepCopyInto L k into inp out h = items_DeepCopyInto L k into (ol_Items l) out h4"
proof -
  have below: "cells h |` {..<b} \<subseteq>\<^sub>m cells h'" if "changes_only {out} h h'" for h'
    using changes_only_le[OF wf that, of "{..<b}"] out(2) restrict_le_map[of "cells h'" "{..<b}"] by (auto intro: map_le_trans)
  have inp: "load_list k inp (cells h') = Some l" if "changes_only {out} h h'" for h'
    by (rule load_list_mono[OF src below[OF that]])
  obtain h1 where h1: "store_list k out l h = Some h1" "changes_only {out} h h1" "load_list k out (cells h1) = Some l" "lim h1 = lim h"
    by (rule store_list_loaded[OF wf out(1)])
  obtain h2 where h2: "store_list k out (l\<lparr>ol_TypeMeta := ol_TypeMeta l\<rparr>) h1 = Some h2" "changes_only {out} h1 h2"
    "load_list k out (cells h2) = Some (l\<lparr>ol_TypeMeta := ol_TypeMeta l\<rparr>)" "lim h2 = lim h1"
    by (rule store_list_loaded[OF changes_only_wf[OF h1(2)] h1(3)])
  have c2: "changes_only {out} h h2" by (rule changes_only_trans[OF h1(2) h2(2)]) simp
  have l2: "load_list k out (cells h2) = Some l" using h2(3) by simp
  obtain lm' h3 h4 where h4: "lb_DeepCopy L metav1_ListMeta (ol_ListMeta l) h2 = Some (lm', h3)" "load_list k out (cells h3) = Some l"
    "store_list k out (l\<lparr>ol_ListMeta := lm'\<rparr>) h3 = Some h4" "changes_only {out} h2 h4"
    "load_list k out (cells h4) = Some (l\<lparr>ol_ListMeta := lm'\<rparr>)" "D metav1_ListMeta (cells h4 |` {lim h2..}) lm' = Some d"
    by (rule list_meta_copied[OF changes_only_wf[OF c2] part_mono[OF lm below[OF c2]] l2])
  have c4: "changes_only {out} h h4" by (rule changes_only_trans[OF c2 h4(4)]) simp
  show thesis
  proof (rule that[OF c4 inp[OF c4] h4(5)])
    show "D metav1_ListMeta (cells h4 |` {lim h..}) lm' = Some d" using h4(6) h1(4) h2(4) by simp
    show "list_DeepCopyInto L k into inp out h = items_DeepCopyInto L k into (ol_Items l) out h4"
      using h1(1,3) h2(1) l2 h4(1,2,3) inp[OF changes_only_refl[OF wf]] inp[OF h1(2)] inp[OF c2] inp[OF c4]
      by (simp add: list_DeepCopyInto_def del: load_list.simps store_list.simps)
  qed
qed

text \<open>The items: a nil slice stays nil, another one gets a new array.\<close>

lemma items_copied:
  assumes wf: "wf_heap h" and src: "slice_content D k (message_of k) (cells h |` {..<b}) (ol_Items l) = Some items"
    and out: "load_list k out (cells h) = Some l" "b \<le> out"
  obtains h' sl' where "items_DeepCopyInto L k (object_DeepCopyInto L k (message_of k)) (ol_Items l) out h = Some h'"
    "changes_only {out} h h'" "load_list k out (cells h') = Some (l\<lparr>ol_Items := sl'\<rparr>)"
    "slice_content D k (message_of k) (cells h' |` {lim h..}) sl' = Some items"
proof (cases "ol_Items l")
  case None
  then have "l\<lparr>ol_Items := None\<rparr> = l" by simp
  then show thesis using that[of h None] None src out(1) changes_only_refl[OF wf]
    by (simp add: items_DeepCopyInto_def slice_content_def)
next
  case (Some sl)
  let ?t = "message_of k"
  from src Some obtain ds where items: "items = Some ds" by (auto simp: slice_content_def bind_eq_Some_conv split: if_splits)
  obtain arr h5 where al: "alloc (Items k (replicate (sl_len sl) (zero_obj L k))) h = (arr, h5)" by fastforce
  note a5 = changes_only_alloc[OF wf al]
  have outh: "out < lim h" by (rule load_list_allocated[OF wf out(1)])
  then have b: "b \<le> lim h" using out(2) by simp
  have l5: "load_list k out (cells h5) = Some l"
    using load_list_agree[of "cells h5" out "cells h" k] a5(1) outh out(1) by (simp add: changes_only_def)
  let ?new = "\<lparr>sl_array = arr, sl_off = 0, sl_len = sl_len sl\<rparr>"
  let ?l = "l\<lparr>ol_Items := Some ?new\<rparr>"
  obtain h6 where h6: "store_list k out ?l h5 = Some h6" "changes_only {out} h5 h6" "load_list k out (cells h6) = Some ?l"
    by (rule store_list_loaded[OF changes_only_wf[OF a5(1)] l5, where l = ?l])
  obtain h7 where h7: "copy_range (object_DeepCopyInto L k ?t) (\<lambda>i. Element (sl_array sl) (sl_off sl + i)) (Element arr) [0..<sl_len sl] h6 = Some h7"
    "changes_only {out} h h7" "cells h7 out = cells h6 out" "slice_content D k ?t (cells h7 |` {lim h..}) (Some ?new) = Some (Some ds)"
    by (rule slice_copied[OF wf _ b al h6(2) outh out(2)]) (use src Some items in simp)
  have "load_list k out (cells h7) = Some ?l" using load_list_agree[of "cells h7" out "cells h6" k] h6(3) h7(3) by simp
  moreover have "items_DeepCopyInto L k (object_DeepCopyInto L k ?t) (ol_Items l) out h = Some h7"
    using Some al l5 h6(1) h7(1) by (simp add: items_DeepCopyInto_def del: load_list.simps store_list.simps)
  ultimately show thesis using that[OF _ h7(2)] h7(4) items by blast
qed

lemma list_copied:
  assumes wf: "wf_heap h" and src: "pointer_content D (PtrList k) (cells h |` {..<b}) (Some inp) = Some d"
    and out: "load_list k out (cells h) = Some l0" "b \<le> out"
  obtains h' where "list_DeepCopyInto L k (object_DeepCopyInto L k (message_of k)) inp out h = Some h'"
    "changes_only {out} h h'" "pointer_content D (PtrList k) (cells h' |` {out..}) (Some out) = Some d"
proof -
  from src obtain l lm items where l: "load_list k inp (cells h |` {..<b}) = Some l"
    "D metav1_ListMeta (cells h |` {..<b}) (ol_ListMeta l) = Some lm"
    "slice_content D k (message_of k) (cells h |` {..<b}) (ol_Items l) = Some items" "d = ListContent (ol_TypeMeta l) lm items"
    by (auto simp: bind_eq_Some_conv simp del: load_list.simps)
  let ?into = "object_DeepCopyInto L k (message_of k)"
  obtain h4 lm' where h4: "changes_only {out} h h4" "load_list k inp (cells h4) = Some l"
    "load_list k out (cells h4) = Some (l\<lparr>ol_ListMeta := lm'\<rparr>)" "D metav1_ListMeta (cells h4 |` {lim h..}) lm' = Some lm"
    "list_DeepCopyInto L k ?into inp out h = items_DeepCopyInto L k ?into (ol_Items l) out h4"
    by (rule list_head_copied[OF wf l(1,2) out])
  note wf4 = changes_only_wf[OF h4(1)]
  have outh: "out < lim h" by (rule load_list_allocated[OF wf out(1)])
  let ?l = "l\<lparr>ol_ListMeta := lm'\<rparr>"
  have "slice_content D k (message_of k) (cells h4 |` {..<b}) (ol_Items ?l) = Some items"
    using out(2) l(3) by (intro slice_content_mono[OF _ changes_only_le[OF wf h4(1)]]) auto
  then obtain h' sl' where h': "items_DeepCopyInto L k ?into (ol_Items ?l) out h4 = Some h'" "changes_only {out} h4 h'"
    "load_list k out (cells h') = Some (?l\<lparr>ol_Items := sl'\<rparr>)" "slice_content D k (message_of k) (cells h' |` {lim h4..}) sl' = Some items"
    by (rule items_copied[OF wf4 _ h4(3) out(2)])
  have "D metav1_ListMeta (cells h' |` {out..}) lm' = Some lm"
    by (intro part_mono[OF part_mono[OF h4(4) changes_only_le[OF wf4 h'(2)]] restrict_le]) (use outh in auto)
  moreover have "slice_content D k (message_of k) (cells h' |` {out..}) sl' = Some items"
    using outh changes_only_lim[OF h4(1)] by (intro slice_content_mono[OF h'(4)] restrict_le) simp
  moreover have "load_list k out (cells h' |` {out..}) = load_list k out (cells h')" by (rule load_list_agree) simp
  ultimately have "pointer_content D (PtrList k) (cells h' |` {out..}) (Some out) = Some d"
    using l(4) h'(3) by (simp del: load_list.simps)
  moreover have "changes_only {out} h h'" by (rule changes_only_trans[OF h4(1) h'(2)]) simp
  ultimately show thesis using that h4(5) h'(1) by simp
qed

end

subsection \<open>The methods keep the contract\<close>

context copying_library
begin

lemma pointer_content_mono:
  assumes "pointer_content D t m p = Some d" and le: "m \<subseteq>\<^sub>m m'"
  shows "pointer_content D t m' p = Some d"
proof (cases p)
  case (Some a)
  then show ?thesis
  proof (cases t)
    case (Ptr k)
    then show ?thesis using assms(1) Some place_content_mono[OF _ le] by (auto simp del: load.simps)
  next
    case (PtrList k)
    then show ?thesis using assms(1) Some load_list_mono[OF _ le] part_mono[OF _ le] slice_content_mono[OF _ le]
      by (auto simp: bind_eq_Some_conv simp del: load_list.simps)
  qed
qed (use assms in simp)

lemma old_content:
  assumes "wf_heap h" and "pointer_content D t (cells h) p = Some d" and "changes_only {} h h'"
  shows "pointer_content D t (cells h' |` {..<lim h}) p = Some d"
proof (rule pointer_content_mono[OF assms(2)])
  show "cells h \<subseteq>\<^sub>m cells h' |` {..<lim h}"
    using assms(1,3) by (auto simp: map_le_def changes_only_def restrict_map_def dest: wf_heap_cell)
qed

lemma pointer_copied:
  assumes wf: "wf_heap h" and src: "pointer_content D t (cells h) (Some a) = Some d"
  obtains h' where "DeepCopy L t (Some a) h = Some (Some (lim h), h')" "changes_only {} h h'"
    "pointer_content D t (cells h' |` {lim h..}) (Some (lim h)) = Some d"
proof (cases t)
  case (Ptr k)
  obtain out h1 where al: "alloc (Object k (zero_obj L k)) h = (out, h1)" by fastforce
  note a = changes_only_alloc[OF wf al] note wf1 = changes_only_wf[OF a(1)]
  obtain c where c: "place_content D k (message_of k) (cells h1 |` {..<lim h}) (Whole a) = Some c" "d = ObjectContent c"
    using old_content[OF wf src a(1)] Ptr by auto
  have l1: "load k (Whole out) (cells h1) = Some (zero_obj L k)" by (simp add: a(3))
  obtain h' s' where h': "object_DeepCopyInto L k (message_of k) (Whole a) (Whole out) h1 = Some h'" "writes_at k (Whole out) h1 h'"
    "load k (Whole out) (cells h') = Some s'" "obj_content D (message_of k) (cells h' |` {lim h1..}) s' = Some c"
    by (rule object_copied[OF wf1 c(1) l1]) (simp add: a(2))
  have "obj_content D (message_of k) (cells h' |` {out..}) s' = Some c"
    by (rule obj_content_mono[OF h'(4) restrict_le]) (use a(4) in simp)
  moreover have "load k (Whole out) (cells h' |` {out..}) = Some s'"
    using h'(3) load_agree[of "cells h' |` {out..}" "Whole out" "cells h'" k] by simp
  ultimately have "pointer_content D t (cells h' |` {lim h..}) (Some (lim h)) = Some d"
    using c(2) Ptr a(2) by (simp add: place_content_def del: load.simps)
  moreover have "changes_only {} h h'" by (rule changes_only_trans[OF a(1) writes_at_changes[OF h'(2)]]) (simp add: a(2))
  moreover have "DeepCopy L t (Some a) h = Some (Some (lim h), h')"
    using al h'(1) a(2) by (simp add: Ptr DeepCopy_generic new_DeepCopy_def del: DeepCopy.simps)
  ultimately show thesis using that by blast
next
  case (PtrList k)
  obtain out h1 where al: "alloc (ObjectList k (zero_obj_list L)) h = (out, h1)" by fastforce
  note a = changes_only_alloc[OF wf al]
  have l1: "load_list k out (cells h1) = Some (zero_obj_list L)" by (simp add: a(3))
  obtain h' where h': "list_DeepCopyInto L k (object_DeepCopyInto L k (message_of k)) a out h1 = Some h'"
    "changes_only {out} h1 h'" "pointer_content D (PtrList k) (cells h' |` {out..}) (Some out) = Some d"
    using old_content[OF wf src a(1), unfolded PtrList]
    by (rule list_copied[OF changes_only_wf[OF a(1)] _ l1]) (simp add: a(2))
  have "changes_only {} h h'" by (rule changes_only_trans[OF a(1) h'(2)]) (simp add: a(2))
  moreover have "DeepCopy L t (Some a) h = Some (Some (lim h), h')"
    using al h'(1) a(2) by (simp add: PtrList DeepCopy_generic new_DeepCopy_def del: DeepCopy.simps)
  ultimately show thesis using that h'(3) PtrList a(2) by blast
qed

lemma nil_copied: "DeepCopy L t None h = Some (None, h)"
  by (cases t) (simp_all add: DeepCopy_generic new_DeepCopy_def del: DeepCopy.simps)

end

text \<open>So one contract gives the other: what copies its parts is copied.\<close>

locale typed_copy = copying_library L D
  for L :: "('v, 'x) library" and D :: "('v, 'x, 'd) denotations" +
  fixes t :: go_type

sublocale typed_copy \<subseteq> deep_copier "pointer_content D t" "DeepCopy L t"
proof
  fix m m' :: "heap_addr \<rightharpoonup> ('v, 'x) cell" and p d
  assume "pointer_content D t m p = Some d" and "m \<subseteq>\<^sub>m m'"
  then show "pointer_content D t m' p = Some d" by (rule pointer_content_mono)
next
  fix h :: "('v, 'x) heap" and p d
  assume "wf_heap h" and "pointer_content D t (cells h) p = Some d"
  then show "\<exists>p' h'. DeepCopy L t p h = Some (p', h') \<and> changes_only {} h h' \<and> pointer_content D t (cells h' |` {lim h..}) p' = Some d"
    by (cases p) (auto simp: nil_copied changes_only_refl elim: pointer_copied)
qed

context typed_copy
begin

lemma object_copy_shares_nothing:
  assumes "wf_heap h" and "pointer_content D t (cells h) (Some a) = Some d"
  shows "\<exists>a' h'. DeepCopyObject L t (Some a) h = Some (Some (t, Some a'), h')
    \<and> pointer_content D t (cells h') (Some a') = Some d
    \<and> (\<forall>m. (\<forall>b\<ge>lim h. m b = cells h' b) \<longrightarrow> pointer_content D t m (Some a') = Some d)
    \<and> (\<forall>m. (\<forall>b<lim h. m b = cells h' b) \<longrightarrow> pointer_content D t m (Some a) = Some d)"
proof -
  obtain h1 where h1: "DeepCopy L t (Some a) h = Some (Some (lim h), h1)" by (rule pointer_copied[OF assms])
  then have "DeepCopyObject L t (Some a) h = Some (Some (t, Some (lim h)), h1)"
    by (simp add: DeepCopyObject_generic as_runtime_object_def del: DeepCopyObject.simps DeepCopy.simps)
  then show ?thesis using copy_shares_nothing[OF assms] h1 by auto
qed

lemma nil_object_copied: "DeepCopyObject L t None h = Some (None, h)"
  by (simp add: DeepCopyObject_generic as_runtime_object_def nil_copied del: DeepCopyObject.simps DeepCopy.simps)

end

subsection \<open>A library\<close>

text \<open>Values with a name and a pointer to memory, which may be nil, as those of metav1 and protobuf have.\<close>

type_synonym cell_value = "string \<times> heap_addr option"

fun cell_denote :: "(heap_addr \<rightharpoonup> (cell_value, string) cell) \<Rightarrow> cell_value \<Rightarrow> (string \<times> string option) option" where
  "cell_denote m (n, None) = Some (n, None)"
| "cell_denote m (n, Some a) = (case m a of Some (Library x) \<Rightarrow> Some (n, Some x) | _ \<Rightarrow> None)"

fun cell_copy :: "cell_value \<Rightarrow> (cell_value, string) heap \<Rightarrow> (cell_value \<times> (cell_value, string) heap) option" where
  "cell_copy (n, None) h = Some ((n, None), h)"
| "cell_copy (n, Some a) h = (case cells h a of
     Some (Library x) \<Rightarrow> let (a', h') = alloc (Library x) h in Some ((n, Some a'), h') | _ \<Rightarrow> None)"

definition cell_library :: "(cell_value, string) library" where
  "cell_library = \<lparr>lb_zero = \<lambda>_. ([], None), lb_DeepCopy = \<lambda>_. cell_copy\<rparr>"

interpretation cell_part: deep_copier cell_denote cell_copy
proof
  fix m m' v d
  assume "cell_denote m v = Some d" and "m \<subseteq>\<^sub>m m'"
  then show "cell_denote m' v = Some d"
    by (cases "(m, v)" rule: cell_denote.cases) (auto simp: map_le_def dom_def split: option.splits cell.splits)
next
  fix h v d
  assume wf: "wf_heap h" and v: "cell_denote (cells h) v = Some d"
  show "\<exists>v' h'. cell_copy v h = Some (v', h') \<and> changes_only {} h h' \<and> cell_denote (cells h' |` {lim h..}) v' = Some d"
  proof (cases "(v, h)" rule: cell_copy.cases)
    case (2 n a h0)
    with v obtain x where x: "cells h a = Some (Library x)" "d = (n, Some x)" by (auto split: option.splits cell.splits)
    obtain a' h' where al: "alloc (Library x) h = (a', h')" by fastforce
    show ?thesis using changes_only_alloc[OF wf al] al x 2 by auto
  qed (use v wf changes_only_refl in auto)
qed

interpretation cell_lib: copying_library cell_library "\<lambda>_. cell_denote"
  by (rule copying_library.intro) (simp add: cell_library_def cell_part.deep_copier_axioms)

interpretation cell_typed: typed_copy cell_library "\<lambda>_. cell_denote" t for t
  by unfold_locales

subsection \<open>Property\<close>

text \<open>
  C14. A deep copy of a custom object or of a list of them, taken through \<open>runtime.Object\<close>, succeeds and
  has the dynamic type and the content of the original: the type meta, the metadata, the message, and
  for a list the items, where a nil slice stays nil. It shares no memory with the original: whatever
  is later written to the memory there was before, the copy keeps its content, and whatever is
  written to the new memory, the original keeps its own. The copy of a nil pointer is a nil interface.
\<close>

theorem deep_copies_share_nothing:
  assumes "copying_library L D" and "wf_heap h" and "pointer_content D t (cells h) (Some a) = Some d"
  shows "DeepCopyObject L t None h = Some (None, h)
    \<and> (\<exists>a' h'. DeepCopyObject L t (Some a) h = Some (Some (t, Some a'), h')
      \<and> pointer_content D t (cells h') (Some a') = Some d
      \<and> (\<forall>m. (\<forall>b\<ge>lim h. m b = cells h' b) \<longrightarrow> pointer_content D t m (Some a') = Some d)
      \<and> (\<forall>m. (\<forall>b<lim h. m b = cells h' b) \<longrightarrow> pointer_content D t m (Some a) = Some d))"
  using typed_copy.nil_object_copied[OF typed_copy.intro[OF assms(1)]]
    typed_copy.object_copy_shares_nothing[OF typed_copy.intro[OF assms(1)] assms(2,3)] by blast

text \<open>A list whose slice is the second half of an array of two groups; its memory is then given to others.\<close>

definition demo_heap :: "(cell_value, string) heap" where
  "demo_heap = \<lparr>cells = [0 \<mapsto> Library ''labels'', 1 \<mapsto> Library ''subjects'',
     2 \<mapsto> Items Group_kind [zero_obj cell_library Group_kind,
       \<lparr>ob_TypeMeta = GroupTypeMeta, ob_ObjectMeta = (''admins'', Some 0), ob_Message = (''admins'', Some 1)\<rparr>],
     3 \<mapsto> ObjectList Group_kind \<lparr>ol_TypeMeta = zero_type_meta, ol_ListMeta = ([], None),
       ol_Items = Some \<lparr>sl_array = 2, sl_off = 1, sl_len = 1\<rparr>\<rparr>], lim = 4\<rparr>"

theorem deep_copies_share_nothing_witness:
  "\<exists>a' h'. DeepCopyObject cell_library (PtrList Group_kind) (Some 3) demo_heap = Some (Some (PtrList Group_kind, Some a'), h')
    \<and> pointer_content (\<lambda>_. cell_denote) (PtrList Group_kind) (\<lambda>b. if b < 4 then Some (Library ''reused'') else cells h' b) (Some a')
      = Some (ListContent zero_type_meta ([], None)
          (Some [(GroupTypeMeta, (''admins'', Some ''labels''), (''admins'', Some ''subjects''))]))"
proof -
  have "wf_heap demo_heap" by (auto simp: wf_heap_def demo_heap_def)
  moreover have "pointer_content (\<lambda>_. cell_denote) (PtrList Group_kind) (cells demo_heap) (Some 3)
      = Some (ListContent zero_type_meta ([], None)
          (Some [(GroupTypeMeta, (''admins'', Some ''labels''), (''admins'', Some ''subjects''))]))"
    by (simp add: demo_heap_def slice_content_def array_size_def place_content_def obj_content_def)
  ultimately obtain a' h' where copy: "DeepCopyObject cell_library (PtrList Group_kind) (Some 3) demo_heap = Some (Some (PtrList Group_kind, Some a'), h')"
    "\<forall>m. (\<forall>b\<ge>lim demo_heap. m b = cells h' b) \<longrightarrow> pointer_content (\<lambda>_. cell_denote) (PtrList Group_kind) m (Some a')
      = Some (ListContent zero_type_meta ([], None)
          (Some [(GroupTypeMeta, (''admins'', Some ''labels''), (''admins'', Some ''subjects''))]))"
    by (drule_tac deep_copies_share_nothing[OF cell_lib.copying_library_axioms]) (assumption | elim conjE exE)+
  have "\<forall>b\<ge>lim demo_heap. (if b < 4 then Some (Library ''reused'') else cells h' b) = cells h' b"
    by (simp add: demo_heap_def)
  then have "pointer_content (\<lambda>_. cell_denote) (PtrList Group_kind) (\<lambda>b. if b < 4 then Some (Library ''reused'') else cells h' b) (Some a')
      = Some (ListContent zero_type_meta ([], None)
          (Some [(GroupTypeMeta, (''admins'', Some ''labels''), (''admins'', Some ''subjects''))]))"
    by (rule copy(2)[THEN spec, THEN mp])
  with copy(1) show ?thesis by (intro exI conjI)
qed

end
