(* ===== verification/Scheme.thy ===== *)
theory Scheme
  imports Manager DeepCopy
begin

text \<open>
  The registration of the custom objects: the variables \<open>SchemeBuilder\<close> and \<open>AddToScheme\<close> of
  \<open>groupversion_info.go\<close> and the \<open>init\<close> functions of the files of \<open>api/storage/v1\<close>. The builder \<open>'b\<close>
  and the scheme \<open>'h\<close> are those of controller-runtime and apimachinery, parameters with their
  documented contract. The client finds the version and kind of an object it sends or reads by the
  type of the struct; the program writes them into the objects by hand.
\<close>

record ('b, 'h) scheme_library =
  sl_Builder :: "group_version \<Rightarrow> 'b"
  sl_Register :: "'b \<Rightarrow> go_type list \<Rightarrow> 'b"
  sl_AddToScheme :: "'b \<Rightarrow> 'h \<Rightarrow> goerr + 'h"
  sl_ObjectKind :: "'h \<Rightarrow> go_type \<Rightarrow> type_meta option"

subsection \<open>The init functions\<close>

definition init_group_types :: "('b, 'h) scheme_library \<Rightarrow> 'b \<Rightarrow> 'b" where
  "init_group_types L b = sl_Register L b [Ptr Group_kind, PtrList Group_kind]"

definition init_meshedge_types :: "('b, 'h) scheme_library \<Rightarrow> 'b \<Rightarrow> 'b" where
  "init_meshedge_types L b = sl_Register L b [Ptr MeshEdge_kind, PtrList MeshEdge_kind]"

definition init_meshstate_types :: "('b, 'h) scheme_library \<Rightarrow> 'b \<Rightarrow> 'b" where
  "init_meshstate_types L b = sl_Register L b [Ptr MeshState_kind, PtrList MeshState_kind]"

definition init_network_acl_types :: "('b, 'h) scheme_library \<Rightarrow> 'b \<Rightarrow> 'b" where
  "init_network_acl_types L b = sl_Register L b [Ptr NetworkACL_kind, PtrList NetworkACL_kind]"

definition init_peer_types :: "('b, 'h) scheme_library \<Rightarrow> 'b \<Rightarrow> 'b" where
  "init_peer_types L b = sl_Register L b [Ptr Peer_kind, PtrList Peer_kind]"

definition init_role_binding_types :: "('b, 'h) scheme_library \<Rightarrow> 'b \<Rightarrow> 'b" where
  "init_role_binding_types L b = sl_Register L b [Ptr RoleBinding_kind, PtrList RoleBinding_kind]"

definition init_role_types :: "('b, 'h) scheme_library \<Rightarrow> 'b \<Rightarrow> 'b" where
  "init_role_types L b = sl_Register L b [Ptr Role_kind, PtrList Role_kind]"

definition init_route_types :: "('b, 'h) scheme_library \<Rightarrow> 'b \<Rightarrow> 'b" where
  "init_route_types L b = sl_Register L b [Ptr Route_kind, PtrList Route_kind]"

definition init_storage_peer_types :: "('b, 'h) scheme_library \<Rightarrow> 'b \<Rightarrow> 'b" where
  "init_storage_peer_types L b = sl_Register L b [Ptr StoragePeer_kind, PtrList StoragePeer_kind]"

lemmas init_defs = init_group_types_def init_meshedge_types_def init_meshstate_types_def init_network_acl_types_def
  init_peer_types_def init_role_binding_types_def init_role_types_def init_route_types_def init_storage_peer_types_def

text \<open>The package runs them once, in the order of its files, on the builder of its variable.\<close>

definition SchemeBuilder :: "('b, 'h) scheme_library \<Rightarrow> 'b" where
  "SchemeBuilder L = fold (\<lambda>init. init L)
     [init_group_types, init_meshedge_types, init_meshstate_types, init_network_acl_types, init_peer_types,
      init_role_binding_types, init_role_types, init_route_types, init_storage_peer_types] (sl_Builder L GroupVersion)"

definition storagev1_AddToScheme :: "('b, 'h) scheme_library \<Rightarrow> 'h \<Rightarrow> goerr + 'h" where
  "storagev1_AddToScheme L = sl_AddToScheme L (SchemeBuilder L)"

subsection \<open>The contract of the library\<close>

text \<open>The name of a struct, as reflection gives it.\<close>

fun kind_name :: "kind \<Rightarrow> string" where
  "kind_name Group_kind = ''Group''"
| "kind_name MeshEdge_kind = ''MeshEdge''"
| "kind_name MeshState_kind = ''MeshState''"
| "kind_name NetworkACL_kind = ''NetworkACL''"
| "kind_name Peer_kind = ''Peer''"
| "kind_name Role_kind = ''Role''"
| "kind_name RoleBinding_kind = ''RoleBinding''"
| "kind_name Route_kind = ''Route''"
| "kind_name StoragePeer_kind = ''StoragePeer''"

primrec struct_name :: "go_type \<Rightarrow> string" where
  "struct_name (Ptr k) = kind_name k"
| "struct_name (PtrList k) = kind_name k @ ''List''"

definition kind_under :: "group_version \<Rightarrow> go_type \<Rightarrow> type_meta" where
  "kind_under gv t = \<lparr>tm_apiVersion = gv_String gv, tm_kind = struct_name t\<rparr>"

locale scheme_laws =
  fixes L :: "('b, 'h) scheme_library"
    and version :: "'b \<Rightarrow> group_version"
    and registered :: "'b \<Rightarrow> go_type set"
  assumes new_builder: "version (sl_Builder L gv) = gv" "registered (sl_Builder L gv) = {}"
    and register: "version (sl_Register L b ts) = version b" "registered (sl_Register L b ts) = registered b \<union> set ts"
    and add_registered: "sl_AddToScheme L b h = Inr h' \<Longrightarrow> t \<in> registered b \<Longrightarrow>
      sl_ObjectKind L h' t = Some (kind_under (version b) t)"
begin

text \<open>Every struct and every list is registered, under the group and version of the package.\<close>

lemma SchemeBuilder_registers: "version (SchemeBuilder L) = GroupVersion" "t \<in> registered (SchemeBuilder L)"
proof -
  show "version (SchemeBuilder L) = GroupVersion" by (simp add: SchemeBuilder_def init_defs new_builder register)
  show "t \<in> registered (SchemeBuilder L)"
  proof (cases t)
    case (Ptr k) then show ?thesis by (cases k) (simp_all add: SchemeBuilder_def init_defs new_builder register)
  next
    case (PtrList k) then show ?thesis by (cases k) (simp_all add: SchemeBuilder_def init_defs new_builder register)
  qed
qed

lemma AddToScheme_kinds: "storagev1_AddToScheme L h = Inr h' \<Longrightarrow> sl_ObjectKind L h' t = Some (kind_under GroupVersion t)"
  using add_registered[of "SchemeBuilder L" h h' t] by (simp add: storagev1_AddToScheme_def SchemeBuilder_registers)

end

subsection \<open>The client knows the kinds the program writes\<close>

text \<open>The struct of an object, and the type meta the program writes into it when it applies one.\<close>

fun struct_of :: "gvk \<Rightarrow> go_type option" where
  "struct_of PeerT = Some (Ptr Peer_kind)"
| "struct_of MeshEdgeT = Some (Ptr MeshEdge_kind)"
| "struct_of MeshStateT = Some (Ptr MeshState_kind)"
| "struct_of NetworkACLT = Some (Ptr NetworkACL_kind)"
| "struct_of RouteT = Some (Ptr Route_kind)"
| "struct_of RoleT = Some (Ptr Role_kind)"
| "struct_of RoleBindingT = Some (Ptr RoleBinding_kind)"
| "struct_of GroupT = Some (Ptr Group_kind)"
| "struct_of StoragePeerT = Some (Ptr StoragePeer_kind)"
| "struct_of SecretT = None"
| "struct_of ConfigMapT = None"

fun type_meta_of :: "gvk \<Rightarrow> type_meta option" where
  "type_meta_of PeerT = Some PeerTypeMeta"
| "type_meta_of MeshEdgeT = Some MeshEdgeTypeMeta"
| "type_meta_of MeshStateT = Some MeshStateTypeMeta"
| "type_meta_of NetworkACLT = Some NetworkACLTypeMeta"
| "type_meta_of RouteT = Some RouteTypeMeta"
| "type_meta_of RoleT = Some RoleTypeMeta"
| "type_meta_of RoleBindingT = Some RoleBindingTypeMeta"
| "type_meta_of GroupT = Some GroupTypeMeta"
| "type_meta_of StoragePeerT = Some StoragePeerTypeMeta"
| "type_meta_of SecretT = None"
| "type_meta_of ConfigMapT = None"

lemma struct_kinds: "map_option (kind_under GroupVersion) (struct_of t) = type_meta_of t"
  by (cases t) (simp_all add: type_meta_defs kind_under_def)

lemma NewFromConfig_schemes:
  assumes "NewFromConfig env cfg opts = Inr mgr"
  obtains core storage scheme mgr' where "me_AddStorage env core = Inr storage"
    and "me_AddApiextensions env storage = Inr scheme" and "me_NewManager env cfg (manager_ctrl_options scheme opts) = Inr mgr'"
  using assms by (auto simp: NewFromConfig_def split: sum.splits)

text \<open>
  C37. A manager that is constructed has a scheme in which the struct of every custom object is
  known under the version and kind of the type meta that the program writes into it.
\<close>

theorem manager_scheme_knows_kinds:
  assumes "scheme_laws L version registered" and "me_AddStorage env = storagev1_AddToScheme L"
    and "\<And>h h' t tm. me_AddApiextensions env h = Inr h' \<Longrightarrow> sl_ObjectKind L h t = Some tm \<Longrightarrow> sl_ObjectKind L h' t = Some tm"
    and "NewFromConfig env cfg opts = Inr mgr"
  shows "\<exists>scheme mgr'. me_NewManager env cfg (manager_ctrl_options scheme opts) = Inr mgr'
    \<and> map (\<lambda>t. Option.bind (struct_of t) (sl_ObjectKind L scheme)) CustomObjects = map type_meta_of CustomObjects"
proof -
  obtain core storage scheme mgr' where m: "me_AddStorage env core = Inr storage"
    "me_AddApiextensions env storage = Inr scheme" "me_NewManager env cfg (manager_ctrl_options scheme opts) = Inr mgr'"
    by (rule NewFromConfig_schemes[OF assms(4)])
  have "sl_ObjectKind L scheme t = Some (kind_under GroupVersion t)" for t
    using assms(3)[OF m(2) scheme_laws.AddToScheme_kinds[OF assms(1)]] m(1) assms(2) by simp
  then have "Option.bind (struct_of t) (sl_ObjectKind L scheme) = type_meta_of t" for t
    unfolding struct_kinds[of t, symmetric] by (cases "struct_of t") simp_all
  then have "map (\<lambda>t. Option.bind (struct_of t) (sl_ObjectKind L scheme)) CustomObjects = map type_meta_of CustomObjects"
    by simp
  with m(3) show ?thesis by blast
qed

text \<open>A scheme that is the map from struct types to kinds.\<close>

definition map_scheme :: "(group_version \<times> go_type list, go_type \<rightharpoonup> type_meta) scheme_library" where
  "map_scheme = \<lparr>sl_Builder = (\<lambda>gv. (gv, [])), sl_Register = (\<lambda>(gv, ts) new. (gv, ts @ new)),
     sl_AddToScheme = (\<lambda>(gv, ts) h. Inr (\<lambda>t. if t \<in> set ts then Some (kind_under gv t) else h t)),
     sl_ObjectKind = (\<lambda>h. h)\<rparr>"

interpretation map_scheme: scheme_laws map_scheme fst "\<lambda>b. set (snd b)"
  by unfold_locales (auto simp: map_scheme_def)

definition example_manager_env :: "(unit, go_type \<rightharpoonup> type_meta, go_type \<rightharpoonup> type_meta) manager_env" where
  "example_manager_env = \<lparr>me_NewScheme = Map.empty, me_AddCore = Inr, me_AddStorage = storagev1_AddToScheme map_scheme,
     me_AddApiextensions = Inr, me_NewManager = (\<lambda>_ opts. Inr (ct_Scheme opts)), me_AddHealthzCheck = (\<lambda>_. Inr),
     me_AddReadyzCheck = (\<lambda>_. Inr), me_GetConfigOrDie = ()\<rparr>"

lemma example_manager_env_simps [simp]:
  "me_NewScheme example_manager_env = Map.empty" "me_AddCore example_manager_env h = Inr h"
  "me_AddStorage example_manager_env = storagev1_AddToScheme map_scheme" "me_AddApiextensions example_manager_env h = Inr h"
  "me_NewManager example_manager_env c o1 = Inr (ct_Scheme o1)"
  by (simp_all add: example_manager_env_def)

theorem manager_scheme_knows_kinds_witness:
  "\<exists>scheme. me_NewManager example_manager_env ()
      (manager_ctrl_options scheme \<lparr>mo_MetricsPort = 0, mo_ProbePort = 0, mo_ShutdownTimeout = 0, mo_DisableCache = False\<rparr>) = Inr scheme
    \<and> scheme (Ptr Role_kind) = Some RoleTypeMeta"
proof -
  let ?opts = "\<lparr>mo_MetricsPort = 0, mo_ProbePort = 0, mo_ShutdownTimeout = 0, mo_DisableCache = False\<rparr>"
  have "\<exists>h. sl_AddToScheme map_scheme b h0 = Inr h" for b h0 by (cases b) (simp add: map_scheme_def)
  then obtain h where "storagev1_AddToScheme map_scheme Map.empty = Inr h"
    unfolding storagev1_AddToScheme_def by blast
  then have s: "NewFromConfig example_manager_env () ?opts = Inr h"
    by (simp add: NewFromConfig_def manager_ctrl_options_def)
  from manager_scheme_knows_kinds[OF map_scheme.scheme_laws_axioms example_manager_env_simps(3) _ s]
  obtain scheme where "me_NewManager example_manager_env () (manager_ctrl_options scheme ?opts) = Inr scheme"
    "Option.bind (struct_of RoleT) (sl_ObjectKind map_scheme scheme) = type_meta_of RoleT"
    by (auto simp: manager_ctrl_options_def CustomObjects_def)
  then show ?thesis by (intro exI conjI) (assumption, simp add: map_scheme_def)
qed

end
