(* ===== verification/Spec2Isabelle.thy ===== *)
theory Spec2Isabelle
  imports WatchProps Members Callbacks DatabaseProps DeepCopyProps Scheme
begin

text \<open>
  A verification library for \<open>webmeshproj/storage-provider-k8s\<close>, the storage provider that keeps
  the state of a webmesh in the objects of a Kubernetes cluster.

  \<^bold>\<open>The program.\<close> A \<open>Provider\<close> (\<open>src/provider/provider.go\<close>) owns a controller manager, whose client
  reads and writes the API server, and four parts that use this client. The key-value store
  (\<open>storage.go\<close>) keeps byte strings in Secrets, one per directory of keys; its subscribers are
  told of changes by the reconciler (\<open>reconciler.go\<close>), which the manager calls for each event of
  such a Secret. The consensus (\<open>consensus.go\<close>) keeps the members of the storage group as
  \<open>StoragePeer\<close> objects and asks client-go's leader elector who leads; the store asks it too, before
  it writes. The database (\<open>database/*.go\<close>) keeps the graph of peers and edges, the mesh state,
  network ACLs, routes and RBAC as custom objects (\<open>src/api/storage/v1\<close>), and has its own
  subscribers and reconciler. Nothing but the subscriptions and the remembered leader is state of
  the process: everything else is on the API server.

  \<^bold>\<open>How it is modelled.\<close> An operation is a function \<open>'s \<Rightarrow> (goerr + 'a) \<times> 's\<close> (\<open>Prelude.act\<close>), where
  \<open>'s\<close> is the world outside of the process; a Go error is \<open>Inl\<close>, and a panic is an error too
  (\<open>NilDereference\<close>, \<open>Panic\<close>). The API server is no part of the program: \<open>KubeApi\<close> has the record
  \<open>client\<close> with the calls the code makes, and locales state what the code relies on. In
  \<open>kube_api\<close> calls may fail at any time, but a failed one changes nothing, and a successful one does
  what is documented, seen through a \<open>view\<close> of the stored objects. In \<open>kube_server\<close> calls succeed
  while the server is up and the object is admissible. \<open>kube_ns\<close> and \<open>kube_ns_server\<close> add the
  namespace. \<open>MemApi\<close> is a concrete server that validates type metas, object names and data keys as Kubernetes
  does, but no label values, fails by a script, and interprets these locales; the witnesses run on it.
  State of the process is passed explicitly: the records \<open>graph_store\<close>, \<open>database\<close>, \<open>consensus\<close> and
  \<open>provider\<close> have the fields of the structs, and operations that change them return them.

  \<^bold>\<open>The theories,\<close> in the order of their imports:
  \<^item> \<open>Prelude\<close>: errors, the type of operations, lemmas on lists and association lists.
  \<^item> \<open>GoStrings\<close>, \<open>Base64\<close>, \<open>Sha1\<close>, \<open>Netip\<close>, \<open>GoContext\<close>: the parts of Go's library that decide names,
    labels, prefixes and cancellation. SHA-1 and base64 are executable, on words of their width.
  \<^item> \<open>StorageV1\<close>: constants, type metas and objects of \<open>api/storage/v1\<close>. \<open>Crds\<close>: \<open>crds.go\<close>.
  \<^item> \<open>KubeApi\<close>, \<open>KubeNames\<close>, \<open>Util\<close> (\<open>provider/util\<close>), \<open>NamedStore\<close>, \<open>KubeNamespace\<close>, \<open>MemApi\<close>: the server,
    the syntax of object names, server-side apply, and the contract \<open>named_store\<close> of a collection of
    named objects, proved to be met once for all collections that keep one object per name.
  \<^item> \<open>DeepCopy\<close>, \<open>DeepCopyProps\<close>: \<open>zz_generated.deepcopy.go\<close>, on a heap of its own.
  \<^item> \<open>GraphStore\<close>, \<open>MeshStateDb\<close>, \<open>Networking\<close>, \<open>Rbac\<close>, \<open>Database\<close>: \<open>provider/database\<close>, one theory per
    file, with its properties. \<open>DatabaseProps\<close>: the graph, its subscribers and the reconciler together.
  \<^item> \<open>Storage\<close>, \<open>StorageKeys\<close>, \<open>StorageEnv\<close>, \<open>StorageProps\<close>: \<open>storage.go\<close>; its operations and invariant,
    its listings, an environment for witnesses, its properties.
  \<^item> \<open>Reconciler\<close>, \<open>ReconcilerProps\<close>: \<open>reconciler.go\<close> and \<open>Storage.Subscribe\<close>.
  \<^item> \<open>Consensus\<close>, \<open>ConsensusProps\<close>: \<open>consensus.go\<close>.
  \<^item> \<open>Manager\<close>, \<open>Provider\<close>, \<open>ProviderProps\<close>: \<open>manager/manager.go\<close> and \<open>provider.go\<close>. \<open>Scheme\<close>: the registration
    of the types of \<open>api/storage/v1\<close>, and the scheme the manager is given.
  \<^item> \<open>Cluster\<close>, \<open>ClusterProps\<close>: several nodes on one namespace; the operations of \<open>storage.go\<close> and
    \<open>Bootstrap\<close> cut at their calls of the server, and the way of a value from one node to another.
    \<open>Members\<close>: the same for the changes of the group, of which \<open>DemoteVoter\<close> makes two calls.
  \<^item> \<open>Watch\<close>, \<open>WatchProps\<close>: the writes of all nodes, the events one node sees of them, its queue of requests,
    its reconciles and its subscriptions, in any order.
  \<^item> \<open>Locks\<close>: the mutexes of all of them, with that of \<open>MeshState\<close> and the \<open>once\<close> and \<open>oncemu\<close> of
    \<open>crds.go\<close>. \<open>Callbacks\<close>: the functions that are called with one held.

  \<^bold>\<open>What is proved.\<close>
  \<^item> The key-value store: an invariant (each entry is filed under the bucket and the hash of its key),
    the refinement of a map from keys to items, round trips, which keys a listing returns, and that
    a failing write changes no other key (locales \<open>kv_store\<close>, \<open>kv_server\<close>, \<open>kv_live\<close>; the interpretation
    is on the server of \<open>MemApi\<close>).
  \<^item> Subscriptions: a reconcile tells exactly the difference between what a subscription has seen and
    what is stored, once; and, composed with the store, a put reaches the subscribers of its key.
    Over time, an invariant (locale \<open>watching\<close>): what a subscriber has heard of the bucket reconciled
    last is what is stored, as long as the bucket is not queued again; a node that works off its queue
    (locale \<open>live_watching\<close>) gets there.
  \<^item> The group: every stored peer has one of two statuses whatever fails, changes refine those of a map
    from names to peers, and the leader is the stored peer that holds the lease (locale \<open>lease\<close>).
  \<^item> The database: object names and labels stay in step with the ids and every stored peer and edge is
    one that was added, under a valid name and valid labels; each collection refines a map,
    lookups by address, node and prefix are exact, roles follow bindings, subscribers are called.
  \<^item> The provider: an invariant of its life cycle over any sequence of start, close, subscribe and
    reconcile; the election loop ends with \<open>Close\<close>; construction, bootstrap and status.
  \<^item> Several nodes: an invariant over every interleaving of the calls of their operations (each value
    read was put for its key), how two leaders, two bootstraps, or a demotion and a removal get past each
    other, where the members of a group come from, and that a value put on one node reaches subscribers and readers on another.
  \<^item> Locks: the interleavings of lock calls as an inductive step relation; no deadlock by an order of
    the locks, which \<open>GetLeader\<close> alone does not keep, and where the order or the lock is missing, a
    reachable deadlock or race. For each kind of callback, the operations it may call are listed,
    and each operation that is not, \<open>GetLeader\<close> among them, is shown to block.
  \<^item> Deep copies: all methods satisfy the contract \<open>deep_copier\<close> when the copies of the libraries do: the
    copy has the content of the original and neither sees writes to the other. Elsewhere the objects
    are values, which this justifies.
  Where the code does not do what its comments or its callers expect, a theorem shows what it does
  instead (for example \<open>expired_get_loses_later_put\<close>, \<open>other_buckets_reported_deleted\<close>,
  \<open>removed_leader_is_still_named\<close>, \<open>get_leader_can_deadlock\<close>).

  \<^bold>\<open>Loops and bounds.\<close> All loops range over lists and are structural, except for the election, which
  may run for ever: \<open>RunLeaderElection\<close> is a \<open>partial_function\<close> in the option monad, and
  \<open>election_ends_with_close\<close> says when it returns. No fuel is used. A Go map is an association list
  with distinct keys in the order a range visits it; the theorems hold for every such order. Two
  ranges over one object see the order in which it was read: \<open>list_keys_is_iteration\<close>, which compares
  the two loops of the store, is therefore about the keys up to the order Go draws for each. Ports,
  addresses and hashes have their width, Go's \<open>int\<close> and \<open>time.Duration\<close> are \<open>int\<close>: the program adds a
  duration to a time only, and does not rely on wrap-around there.

  \<^bold>\<open>Atomicity.\<close> Within one process an operation is one step, which its mutex justifies; the goroutine
  that deletes an expired key runs later and is a step of its own (\<open>run_expired_delete\<close>). No mutex
  orders two processes: \<open>Cluster\<close> cuts the writes at their calls of the server, proves that the pieces
  put together are the operations, and interleaves those of all nodes. \<open>Locks\<close> has the lock calls.

  \<^bold>\<open>Not modelled.\<close> Tracing and logging. The caches of controller-runtime and the delivery of watch
  events (\<open>WaitForCacheSync\<close> included): \<open>Watch\<close> assumes an event with the old and one with the new object
  of every change, which may be repeated, a queue that holds a request once (in it or on its way),
  and that a failed request stays queued. The getters \<open>MeshDB\<close> and \<open>Consensus\<close> of \<open>Provider\<close>
  and those of \<open>Database\<close>, which are fields of the records, and \<open>Eventf\<close>, which is empty. The scheme and
  its builder, of which \<open>Scheme\<close> has the contract (locale \<open>scheme_laws\<close>). The memory of the metadata and the messages, which belongs to libraries. As
  objects are values, the operations of the consensus do not show that they overwrite the
  status in the message the caller passed, which Go shares by pointer (\<open>self\<close> of \<open>GetLeader\<close> too), nor
  that they panic on a peer whose embedded message is nil. Webmesh's own types are
  parameters where their code is needed (\<open>IsValidPathID\<close>, \<open>ContainsNodeID\<close>, \<open>DestinationPrefixes\<close>,
  \<open>ToMeshEdge\<close>, ...), as are the gob codec, the JSON decoder, the clock and the elector.
\<close>

end
